(* ===== verification/Kernel_Prelude.thy ===== *)
theory Kernel_Prelude
  imports Main "HOL-Library.Word"
begin

unbundle bit_operations_syntax

text \<open>
  Shared vocabulary of the development: the C integer types at their width on i386
  (\<^verbatim>\<open>unsigned long\<close> and \<^verbatim>\<open>sector_t\<close> are 32 bits wide in this kernel's configuration), the
  error and signal numbers the modelled code uses, little-endian byte access, and the generic lemmas
  on words, lists and options that the component theories use through \<open>simp\<close>.
\<close>

section \<open>C integer types\<close>

type_synonym u8 = "8 word"
type_synonym u16 = "16 word"
type_synonym u32 = "32 word"
type_synonym u64 = "64 word"

text \<open>Error numbers (include/asm-generic/errno-base.h, errno.h); functions return them negated.\<close>

abbreviation (input) EPERM :: int where "EPERM \<equiv> 1"
abbreviation (input) ENOENT :: int where "ENOENT \<equiv> 2"
abbreviation (input) EIO :: int where "EIO \<equiv> 5"
abbreviation (input) ENOMEM :: int where "ENOMEM \<equiv> 12"
abbreviation (input) EFAULT :: int where "EFAULT \<equiv> 14"
abbreviation (input) EINVAL :: int where "EINVAL \<equiv> 22"
abbreviation (input) ENOSPC :: int where "ENOSPC \<equiv> 28"
abbreviation (input) ERANGE :: int where "ERANGE \<equiv> 34"
abbreviation (input) EOPNOTSUPP :: int where "EOPNOTSUPP \<equiv> 95"

text \<open>Signal numbers (include/uapi/asm-generic/signal.h).\<close>

definition SIGILL :: int where "SIGILL = 4"
definition SIGTRAP :: int where "SIGTRAP = 5"
definition SIGBUS :: int where "SIGBUS = 7"
definition SIGFPE :: int where "SIGFPE = 8"
definition SIGSEGV :: int where "SIGSEGV = 11"

section \<open>Bytes of a 32-bit value\<close>

definition byte_of :: "nat \<Rightarrow> u32 \<Rightarrow> u8" where
  "byte_of i w = ucast (drop_bit (8 * i) w)"

definition le32 :: "u8 \<Rightarrow> u8 \<Rightarrow> u8 \<Rightarrow> u8 \<Rightarrow> u32" where
  "le32 b0 b1 b2 b3 =
     ucast b0 OR push_bit 8 (ucast b1) OR push_bit 16 (ucast b2) OR push_bit 24 (ucast b3)"

text \<open>A memory is a partial map from addresses to bytes; an address it does not map faults.\<close>

type_synonym memory = "u32 \<Rightarrow> u8 option"

definition mem_read32 :: "memory \<Rightarrow> u32 \<Rightarrow> u32 option" where
  "mem_read32 m a =
     (case (m a, m (a + 1), m (a + 2), m (a + 3)) of
        (Some b0, Some b1, Some b2, Some b3) \<Rightarrow> Some (le32 b0 b1 b2 b3)
      | _ \<Rightarrow> None)"

definition mem_write32 :: "memory \<Rightarrow> u32 \<Rightarrow> u32 \<Rightarrow> memory" where
  "mem_write32 m a w =
     m(a \<mapsto> byte_of 0 w, a + 1 \<mapsto> byte_of 1 w, a + 2 \<mapsto> byte_of 2 w, a + 3 \<mapsto> byte_of 3 w)"

definition mapped32 :: "memory \<Rightarrow> u32 \<Rightarrow> bool" where
  "mapped32 m a \<longleftrightarrow> m a \<noteq> None \<and> m (a + 1) \<noteq> None \<and> m (a + 2) \<noteq> None \<and> m (a + 3) \<noteq> None"

section \<open>Generic lemmas\<close>

named_theorems word_byte "byte views of 32-bit words"

lemma bit_lt8 [dest]: "bit (b :: u8) n \<Longrightarrow> n < 8"
  by (drule bit_imp_le_length) simp

lemma bit_lt32 [dest]: "bit (b :: u32) n \<Longrightarrow> n < 32"
  by (drule bit_imp_le_length) simp

lemma byte_of_le32 [simp, word_byte]:
  "byte_of 0 (le32 b0 b1 b2 b3) = b0"
  "byte_of (Suc 0) (le32 b0 b1 b2 b3) = b1"
  "byte_of 1 (le32 b0 b1 b2 b3) = b1"
  "byte_of 2 (le32 b0 b1 b2 b3) = b2"
  "byte_of 3 (le32 b0 b1 b2 b3) = b3"
  by (rule bit_word_eqI; auto simp: byte_of_def le32_def bit_simps)+

lemma le32_byte_of [simp, word_byte]:
  "le32 (byte_of 0 w) (byte_of (Suc 0) w) (byte_of 2 w) (byte_of 3 w) = w"
proof (rule bit_word_eqI)
  fix n
  assume "n < LENGTH(32)"
  then consider "n < 8" | "8 \<le> n" "n < 16" | "16 \<le> n" "n < 24" | "24 \<le> n" "n < 32"
    by force
  then show "bit (le32 (byte_of 0 w) (byte_of (Suc 0) w) (byte_of 2 w) (byte_of 3 w)) n = bit w n"
    by cases (auto simp: byte_of_def le32_def bit_simps)
qed

lemma le32_inject [simp]:
  "le32 a b c d = le32 a' b' c' d' \<longleftrightarrow> a = a' \<and> b = b' \<and> c = c' \<and> d = d'"
  by (metis byte_of_le32)

lemma addr_offset_distinct [simp]:
  fixes a :: u32
  shows "a + 1 \<noteq> a" "a + 2 \<noteq> a" "a + 3 \<noteq> a" "a \<noteq> a + 1" "a \<noteq> a + 2" "a \<noteq> a + 3"
  by simp_all

lemma mem_read32_write32 [simp]: "mem_read32 (mem_write32 m a w) a = Some w"
  by (simp add: mem_read32_def mem_write32_def)

lemma mem_read32_mapped: "mapped32 m a \<longleftrightarrow> (\<exists>w. mem_read32 m a = Some w)"
  by (auto simp: mapped32_def mem_read32_def split: option.splits)

lemma mem_read32_None: "mem_read32 m a = None \<longleftrightarrow> \<not> mapped32 m a"
  by (auto simp: mapped32_def mem_read32_def split: option.splits)

lemma mem_write32_other:
  "x \<noteq> a \<Longrightarrow> x \<noteq> a + 1 \<Longrightarrow> x \<noteq> a + 2 \<Longrightarrow> x \<noteq> a + 3 \<Longrightarrow> mem_write32 m a w x = m x"
  by (simp add: mem_write32_def)

lemma dom_mem_write32: "mapped32 m a \<Longrightarrow> dom (mem_write32 m a w) = dom m"
  by (auto simp: mapped32_def mem_write32_def)

lemma word_masks:
  "(7 :: 'a::len word) = mask 3" "(3 :: 'a::len word) = mask 2" "(0xff :: 'a::len word) = mask 8"
  by (simp_all add: mask_eq_exp_minus_1)

lemma unat_ucast_u8 [simp]: "unat (ucast (a :: u8) :: u32) = unat a"
  using unsigned_less [of a, where 'a = nat] by (simp add: unsigned_ucast_eq take_bit_nat_eq_self)

lemma ucast_u8_eq [simp]: "ucast (a :: u8) = (ucast b :: u32) \<longleftrightarrow> a = b"
  by (metis unat_ucast_u8 word_unat_eq_iff)

lemma unat_and_7: "unat (a AND 7 :: u8) < 8"
  using take_bit_nat_less_exp [of 3 "unat a"]
  by (simp add: word_masks take_bit_eq_mask [symmetric] unsigned_take_bit_eq)

lemma and_7_cases: "(a AND 7 :: u8) \<in> {0, 1, 2, 3, 4, 5, 6, 7}"
proof -
  have "unat (a AND 7 :: u8) \<in> {0, 1, 2, 3, 4, 5, 6, 7}" using unat_and_7 [of a] by auto
  then show ?thesis by (auto simp: word_unat_eq_iff)
qed

lemma and_3_cases: "(a AND 3 :: u8) \<in> {0, 1, 2, 3}"
proof -
  have "unat (a AND 3 :: u8) < 4"
    using take_bit_nat_less_exp [of 2 "unat a"]
    by (simp add: word_masks take_bit_eq_mask [symmetric] unsigned_take_bit_eq)
  then have "unat (a AND 3 :: u8) \<in> {0, 1, 2, 3}" by auto
  then show ?thesis by (auto simp: word_unat_eq_iff)
qed

lemma le32_and_ff [simp, word_byte]: "le32 a b c d AND 0xff = ucast a"
  by (rule bit_word_eqI) (auto simp: le32_def bit_simps word_masks)

lemma le32_drop8 [simp, word_byte]: "drop_bit 8 (le32 a b c d) = le32 b c d 0"
  by (rule bit_word_eqI) (auto simp: le32_def bit_simps)

lemma le32_or_push8 [simp, word_byte]: "le32 a 0 0 0 OR push_bit 8 (le32 b c d e) = le32 a b c d"
  by (rule bit_word_eqI) (auto simp: le32_def bit_simps)

text \<open>Signed reading of a word built from an integer in range.\<close>

lemma sint_word_of_int_32: "sint (word_of_int k :: u32) = signed_take_bit 31 k"
  by (simp add: signed_of_int)

lemma sint_32_eqI: "w = (word_of_int k :: u32) \<Longrightarrow> - (2 ^ 31) \<le> k \<Longrightarrow> k < 2 ^ 31 \<Longrightarrow> sint w = k"
  by (simp only: sint_word_of_int_32 signed_take_bit_int_eq_self)

lemma sint_16_eqI: "w = (word_of_int k :: u16) \<Longrightarrow> - (2 ^ 15) \<le> k \<Longrightarrow> k < 2 ^ 15 \<Longrightarrow> sint w = k"
proof -
  assume "w = (word_of_int k :: u16)" "- (2 ^ 15) \<le> k" "k < 2 ^ 15"
  then show "sint w = k" by (simp add: signed_of_int signed_take_bit_int_eq_self)
qed

end
