(* ===== verification/I486_Emu.thy ===== *)
theory I486_Emu
  imports Kernel_Prelude
begin

text \<open>
  The i486 instruction emulator of arch/x86/kernel/i486_emu.c, called by the invalid-opcode trap
  on a real i386: it decodes \<^verbatim>\<open>cmpxchg\<close>, \<^verbatim>\<open>xadd\<close>, \<^verbatim>\<open>bswap\<close> and \<^verbatim>\<open>endbr32\<close> at the trapping
  instruction pointer and carries out their effect on the saved registers and on user memory.
  The first part models the code; the second states the instruction set's own decoding and
  semantics, independently of the code, and relates the two.

  A \<^verbatim>\<open>struct pt_regs *\<close> is owned by the trap handler for the whole call, so the register frame is
  passed by value inside the machine state, and a pointer to one of its slots is the constructor
  \<open>RegPtr\<close>. Addresses computed from the instruction are \<open>UserPtr\<close>. A raw dereference of an address
  that is not mapped is a fault in kernel mode with no exception-table entry; the functions that
  dereference return \<open>None\<close> there. \<^verbatim>\<open>local_irq_save\<close>/\<^verbatim>\<open>local_irq_restore\<close> and \<^verbatim>\<open>printk\<close> have no effect
  on this state.
\<close>

section \<open>Registers and memory\<close>

datatype reg = AX | CX | DX | BX | SP | BP | SI | DI

record pt_regs =
  pt_bx :: u32
  pt_cx :: u32
  pt_dx :: u32
  pt_si :: u32
  pt_di :: u32
  pt_bp :: u32
  pt_ax :: u32
  pt_ds :: u32
  pt_es :: u32
  pt_fs :: u32
  pt_gs :: u32
  pt_orig_ax :: u32
  pt_ip :: u32
  pt_cs :: u32
  pt_flags :: u32
  pt_sp :: u32
  pt_ss :: u32

fun get_reg :: "pt_regs \<Rightarrow> reg \<Rightarrow> u32" where
  "get_reg r AX = pt_ax r"
| "get_reg r CX = pt_cx r"
| "get_reg r DX = pt_dx r"
| "get_reg r BX = pt_bx r"
| "get_reg r SP = pt_sp r"
| "get_reg r BP = pt_bp r"
| "get_reg r SI = pt_si r"
| "get_reg r DI = pt_di r"

fun set_reg :: "reg \<Rightarrow> u32 \<Rightarrow> pt_regs \<Rightarrow> pt_regs" where
  "set_reg AX v r = r\<lparr>pt_ax := v\<rparr>"
| "set_reg CX v r = r\<lparr>pt_cx := v\<rparr>"
| "set_reg DX v r = r\<lparr>pt_dx := v\<rparr>"
| "set_reg BX v r = r\<lparr>pt_bx := v\<rparr>"
| "set_reg SP v r = r\<lparr>pt_sp := v\<rparr>"
| "set_reg BP v r = r\<lparr>pt_bp := v\<rparr>"
| "set_reg SI v r = r\<lparr>pt_si := v\<rparr>"
| "set_reg DI v r = r\<lparr>pt_di := v\<rparr>"

text \<open>Byte offset of a slot in \<^verbatim>\<open>struct pt_regs\<close>.\<close>

fun slot_offset :: "reg \<Rightarrow> u32" where
  "slot_offset BX = 0"
| "slot_offset CX = 4"
| "slot_offset DX = 8"
| "slot_offset SI = 12"
| "slot_offset DI = 16"
| "slot_offset BP = 20"
| "slot_offset AX = 24"
| "slot_offset SP = 60"

text \<open>
  The machine as the trap handler sees it: the saved registers, the memory, the task's
  \<^verbatim>\<open>addr_limit.seg\<close>, and the kernel address at which the frame lies.
\<close>

record machine =
  m_regs :: pt_regs
  m_mem :: memory
  m_limit :: u32
  m_frame :: u32

datatype ptr = RegPtr reg | UserPtr u32

definition ptr_addr :: "machine \<Rightarrow> ptr \<Rightarrow> u32" where
  "ptr_addr m p = (case p of RegPtr r \<Rightarrow> m_frame m + slot_offset r | UserPtr a \<Rightarrow> a)"

definition read_ptr :: "machine \<Rightarrow> ptr \<Rightarrow> u32 option" where
  "read_ptr m p = (case p of RegPtr r \<Rightarrow> Some (get_reg (m_regs m) r)
                           | UserPtr a \<Rightarrow> mem_read32 (m_mem m) a)"

definition write_ptr :: "ptr \<Rightarrow> u32 \<Rightarrow> machine \<Rightarrow> machine option" where
  "write_ptr p v m =
     (case p of
        RegPtr r \<Rightarrow> Some (m\<lparr>m_regs := set_reg r v (m_regs m)\<rparr>)
      | UserPtr a \<Rightarrow>
          (if mapped32 (m_mem m) a then Some (m\<lparr>m_mem := mem_write32 (m_mem m) a v\<rparr>) else None))"

text \<open>
  \<^verbatim>\<open>__range_not_ok\<close>: the sum must neither carry out of 32 bits nor exceed the limit.
\<close>

definition access_ok :: "u32 \<Rightarrow> u32 \<Rightarrow> u32 \<Rightarrow> bool" where
  "access_ok limit addr sz =
     (let roksum = addr + sz in \<not> roksum < addr \<and> \<not> limit < roksum)"

text \<open>
  \<^verbatim>\<open>get_user\<close> of a 32-bit value (\<^verbatim>\<open>__get_user_4\<close>): the last byte's address is checked for carry and
  against the limit, a faulting load is fixed up; on error the value is 0.
\<close>

definition get_user :: "machine \<Rightarrow> u32 \<Rightarrow> int \<times> u32" where
  "get_user m a =
     (if a + 3 < a \<or> m_limit m \<le> a + 3 then (- EFAULT, 0)
      else case mem_read32 (m_mem m) a of None \<Rightarrow> (- EFAULT, 0) | Some w \<Rightarrow> (0, w))"

text \<open>
  \<^verbatim>\<open>put_user\<close> without \<^verbatim>\<open>CONFIG_X86_WP_WORKS_OK\<close>: \<^verbatim>\<open>__copy_to_user_ll\<close> copies page by page and stops at
  the first page it cannot get, so the bytes before it are written. The model takes the memory of the task to be
  mapped writable wherever it is mapped: a page \<^verbatim>\<open>get_user_pages\<close> refuses because it is read-only behaves like
  one that is not mapped. The early return of \<^verbatim>\<open>__copy_to_user_ll\<close> for \<^verbatim>\<open>in_atomic()\<close> is left out: the emulators
  run in the trap context of the task, outside every atomic section.
\<close>

fun copy_to_user :: "memory \<Rightarrow> u32 \<Rightarrow> u8 list \<Rightarrow> nat \<times> memory" where
  "copy_to_user m to [] = (0, m)"
| "copy_to_user m to (b # bs) =
     (if m to = None then (length (b # bs), m) else copy_to_user (m(to \<mapsto> b)) (to + 1) bs)"

definition put_user :: "u32 \<Rightarrow> u32 \<Rightarrow> machine \<Rightarrow> int \<times> machine" where
  "put_user x p m =
     (let (left, mem) = copy_to_user (m_mem m) p [byte_of 0 x, byte_of 1 x, byte_of 2 x, byte_of 3 x]
      in (if left \<noteq> 0 then - EFAULT else 0, m\<lparr>m_mem := mem\<rparr>))"

text \<open>
  Both through a pointer of the parser: a slot of the register frame is kernel memory, readable
  when the limit allows it, and written without a check (\<^verbatim>\<open>__copy_to_user_ll\<close> above \<^verbatim>\<open>TASK_SIZE\<close>).
\<close>

definition get_user_ptr :: "machine \<Rightarrow> ptr \<Rightarrow> int \<times> u32" where
  "get_user_ptr m p =
     (case p of
        RegPtr r \<Rightarrow>
          (let a = ptr_addr m p in
           if a + 3 < a \<or> m_limit m \<le> a + 3 then (- EFAULT, 0) else (0, get_reg (m_regs m) r))
      | UserPtr a \<Rightarrow> get_user m a)"

definition put_user_ptr :: "u32 \<Rightarrow> ptr \<Rightarrow> machine \<Rightarrow> int \<times> machine" where
  "put_user_ptr x p m =
     (case p of
        RegPtr r \<Rightarrow> (0, m\<lparr>m_regs := set_reg r x (m_regs m)\<rparr>)
      | UserPtr a \<Rightarrow> put_user x a m)"

section \<open>The flags of an addition\<close>

definition X86_EFLAGS_CF :: u32 where "X86_EFLAGS_CF = 0x001"
definition X86_EFLAGS_PF :: u32 where "X86_EFLAGS_PF = 0x004"
definition X86_EFLAGS_AF :: u32 where "X86_EFLAGS_AF = 0x010"
definition X86_EFLAGS_ZF :: u32 where "X86_EFLAGS_ZF = 0x040"
definition X86_EFLAGS_SF :: u32 where "X86_EFLAGS_SF = 0x080"
definition X86_EFLAGS_OF :: u32 where "X86_EFLAGS_OF = 0x800"

definition ARITH_FLAGS :: u32 where
  "ARITH_FLAGS = X86_EFLAGS_CF OR X86_EFLAGS_PF OR X86_EFLAGS_SF OR X86_EFLAGS_ZF OR
                 X86_EFLAGS_OF OR X86_EFLAGS_AF"

fun parity_bits :: "nat \<Rightarrow> u32 \<Rightarrow> bool" where
  "parity_bits 0 w = True"
| "parity_bits (Suc n) w = (bit w n \<noteq> parity_bits n w)"

definition flag_if :: "bool \<Rightarrow> u32 \<Rightarrow> u32" where
  "flag_if c f = (if c then f else 0)"

text \<open>What \<^verbatim>\<open>addl\<close> leaves in the six arithmetic flags of EFLAGS.\<close>

definition add_flags :: "u32 \<Rightarrow> u32 \<Rightarrow> u32" where
  "add_flags a b =
     (let r = a + b in
      flag_if (r < a) X86_EFLAGS_CF OR
      flag_if (parity_bits 8 r) X86_EFLAGS_PF OR
      flag_if (16 \<le> (a AND 15) + (b AND 15)) X86_EFLAGS_AF OR
      flag_if (r = 0) X86_EFLAGS_ZF OR
      flag_if (bit r 31) X86_EFLAGS_SF OR
      flag_if (bit a 31 = bit b 31 \<and> bit r 31 \<noteq> bit a 31) X86_EFLAGS_OF)"

section \<open>The emulator\<close>

definition MODRM_REG :: "u32 \<Rightarrow> u32" where "MODRM_REG b = drop_bit 3 b AND 7"
definition MODRM_MOD :: "u32 \<Rightarrow> u32" where "MODRM_MOD b = drop_bit 6 b AND 3"
definition MODRM_RM :: "u32 \<Rightarrow> u32" where "MODRM_RM b = b AND 7"

text \<open>
  \<^verbatim>\<open>struct parser_state\<close>; its \<^verbatim>\<open>regs\<close> pointer is the frame inside \<open>ps_m\<close>. The two instruction
  pointers are uninitialised on the C stack until the decoder sets them.
\<close>

record parser_state =
  inst_src :: ptr
  inst_dest :: ptr
  ps_m :: machine
  orig_ip :: u32
  insts :: u32
  insts2 :: u32
  regs_only :: u32
  lock_prefix :: u32

definition add_ip :: "u32 \<Rightarrow> machine \<Rightarrow> machine" where
  "add_ip n m = m\<lparr>m_regs := (m_regs m)\<lparr>pt_ip := pt_ip (m_regs m) + n\<rparr>\<rparr>"

definition ps_add_ip :: "u32 \<Rightarrow> parser_state \<Rightarrow> parser_state" where
  "ps_add_ip n ps = ps\<lparr>ps_m := add_ip n (ps_m ps)\<rparr>"

text \<open>The register a 3-bit code names; \<open>None\<close> is the \<^verbatim>\<open>-EOPNOTSUPP\<close> return.\<close>

definition parse_reg :: "u32 \<Rightarrow> reg option" where
  "parse_reg reg =
     (if reg = 0 then Some AX else if reg = 1 then Some CX
      else if reg = 2 then Some DX else if reg = 3 then Some BX
      else if reg = 4 then Some SP else if reg = 5 then Some BP
      else if reg = 6 then Some SI else if reg = 7 then Some DI
      else None)"

text \<open>The base-register switch of \<^verbatim>\<open>parse_modrm_register\<close>: code 4 (SIB byte) has no case.\<close>

definition rm_base :: "u32 \<Rightarrow> reg option" where
  "rm_base rm =
     (if rm = 0 then Some AX else if rm = 1 then Some CX
      else if rm = 2 then Some DX else if rm = 3 then Some BX
      else if rm = 5 then Some BP
      else if rm = 6 then Some SI else if rm = 7 then Some DI
      else None)"

text \<open>The step shared by the two 32-bit displacement cases.\<close>

definition fetch_disp32 :: "u32 \<Rightarrow> parser_state \<Rightarrow> parser_state" where
  "fetch_disp32 inst_size ps =
     (let ps = ps_add_ip (4 - inst_size) ps in
      if inst_size < 4 then
        (ps_add_ip 3 ps)\<lparr>insts := insts ps OR push_bit 8 (insts2 ps)\<rparr>
      else
        (ps_add_ip 4 ps)\<lparr>insts := insts2 ps\<rparr>)"

definition parse_modrm_register :: "parser_state \<Rightarrow> int \<times> parser_state" where
  "parse_modrm_register ps =
     (let md = MODRM_MOD (insts ps); rm = MODRM_RM (insts ps); rg = MODRM_REG (insts ps) in
      case parse_reg rg of
        None \<Rightarrow> (- EOPNOTSUPP, ps)
      | Some src \<Rightarrow>
        (let ps = ps\<lparr>inst_src := RegPtr src\<rparr> in
         if md = 3 then
           (case parse_reg rm of
              None \<Rightarrow> (- EOPNOTSUPP, ps)
            | Some dst \<Rightarrow> (1, ps_add_ip 1 (ps\<lparr>inst_dest := RegPtr dst, regs_only := 1\<rparr>)))
         else
           (let ps = ps\<lparr>regs_only := 0\<rparr> in
            case rm_base rm of
              None \<Rightarrow> (- EOPNOTSUPP, ps)
            | Some base \<Rightarrow>
              (let ps = ps_add_ip 1 (ps\<lparr>inst_dest := RegPtr base, insts := drop_bit 8 (insts ps)\<rparr>);
                   inst_size = pt_ip (m_regs (ps_m ps)) - orig_ip ps;
                   base_val = get_reg (m_regs (ps_m ps)) base in
               if md = 0 then
                 (if rm \<noteq> 5 then (1, ps)
                  else (let ps = fetch_disp32 inst_size ps in
                        (1, ps\<lparr>inst_dest := UserPtr (insts ps)\<rparr>)))
               else if md = 1 then
                 (let ps = (if inst_size = 4 then ps\<lparr>insts := insts2 ps\<rparr> else ps);
                      ps = ps_add_ip 1 ps in
                  (1, ps\<lparr>inst_dest := UserPtr (base_val + (insts ps AND 0xff))\<rparr>))
               else if md = 2 then
                 (let ps = fetch_disp32 inst_size ps in
                  (1, ps\<lparr>inst_dest := UserPtr (base_val + insts ps)\<rparr>))
               else (- EOPNOTSUPP, ps)))))"

text \<open>The check both memory instructions make before touching their destination.\<close>

definition dest_refused :: "parser_state \<Rightarrow> bool" where
  "dest_refused ps \<longleftrightarrow>
     regs_only ps = 0 \<and> \<not> access_ok (m_limit (ps_m ps)) (ptr_addr (ps_m ps) (inst_dest ps)) 4"

definition or_flags :: "u32 \<Rightarrow> machine \<Rightarrow> machine" where
  "or_flags f m = m\<lparr>m_regs := (m_regs m)\<lparr>pt_flags := pt_flags (m_regs m) OR f\<rparr>\<rparr>"

definition clear_flags :: "u32 \<Rightarrow> machine \<Rightarrow> machine" where
  "clear_flags f m = m\<lparr>m_regs := (m_regs m)\<lparr>pt_flags := pt_flags (m_regs m) AND NOT f\<rparr>\<rparr>"

definition parse_emu_cmpxchg :: "parser_state \<Rightarrow> (int \<times> parser_state) option" where
  "parse_emu_cmpxchg ps0 =
     (let (ret, ps) = parse_modrm_register ps0 in
      if ret < 0 then Some (- EOPNOTSUPP, ps)
      else if dest_refused ps then Some (- ENOMEM, ps)
      else
        (case read_ptr (ps_m ps) (inst_dest ps) of
           None \<Rightarrow> None
         | Some d \<Rightarrow>
           (if pt_ax (m_regs (ps_m ps)) = d then
              (let m = or_flags X86_EFLAGS_ZF (ps_m ps) in
               case read_ptr m (inst_src ps) of
                 None \<Rightarrow> None
               | Some s \<Rightarrow> map_option (\<lambda>m. (1, ps\<lparr>ps_m := m\<rparr>)) (write_ptr (inst_dest ps) s m))
            else
              (let m = clear_flags X86_EFLAGS_ZF (ps_m ps) in
               map_option (\<lambda>v. (1, ps\<lparr>ps_m := m\<lparr>m_regs := (m_regs m)\<lparr>pt_ax := v\<rparr>\<rparr>\<rparr>))
                 (read_ptr m (inst_dest ps))))))"

definition parse_emu_xadd :: "parser_state \<Rightarrow> (int \<times> parser_state) option" where
  "parse_emu_xadd ps0 =
     (let (ret, ps) = parse_modrm_register ps0 in
      if ret < 0 then Some (- EOPNOTSUPP, ps)
      else if dest_refused ps then Some (- ENOMEM, ps)
      else
        (let m = ps_m ps in
         case (if regs_only ps = 0
               then Some (snd (get_user_ptr m (inst_dest ps)))
               else read_ptr m (inst_dest ps)) of
           None \<Rightarrow> None
         | Some dest \<Rightarrow>
           (case read_ptr m (inst_src ps) of
              None \<Rightarrow> None
            | Some src \<Rightarrow>
              (let result_dest = src + dest;
                   m = clear_flags ARITH_FLAGS m;
                   m = or_flags (add_flags src dest AND ARITH_FLAGS) m in
               case read_ptr m (inst_dest ps) of
                 None \<Rightarrow> None
               | Some v \<Rightarrow>
                 (case write_ptr (inst_src ps) v m of
                    None \<Rightarrow> None
                  | Some m \<Rightarrow>
                    (if regs_only ps = 0
                     then Some (1, ps\<lparr>ps_m := snd (put_user_ptr result_dest (inst_dest ps) m)\<rparr>)
                     else map_option (\<lambda>m. (1, ps\<lparr>ps_m := m\<rparr>))
                            (write_ptr (inst_dest ps) result_dest m)))))))"

definition bswap32 :: "u32 \<Rightarrow> u32" where
  "bswap32 w =
     push_bit 24 (w AND 0x000000FF) OR push_bit 8 (w AND 0x0000FF00) OR
     drop_bit 8 (w AND 0x00FF0000) OR drop_bit 24 (w AND 0xFF000000)"

definition parse_emu_bswap :: "parser_state \<Rightarrow> int \<times> parser_state" where
  "parse_emu_bswap ps =
     (if lock_prefix ps = 1 then (- EOPNOTSUPP, ps)
      else
        (case parse_reg (MODRM_RM (insts ps)) of
           None \<Rightarrow> (- EOPNOTSUPP, ps)
         | Some r \<Rightarrow>
           (let ps = ps_add_ip 1 (ps\<lparr>inst_dest := RegPtr r\<rparr>);
                m = ps_m ps in
            (1, ps\<lparr>ps_m := m\<lparr>m_regs := set_reg r (bswap32 (get_reg (m_regs m) r)) (m_regs m)\<rparr>\<rparr>))))"

text \<open>The switch on the second opcode byte.\<close>

definition emu_dispatch :: "parser_state \<Rightarrow> (int \<times> parser_state) option" where
  "emu_dispatch ps =
     (let opc = insts ps AND 0xff in
      if opc = 0xb1 then
        parse_emu_cmpxchg ((ps_add_ip 1 ps)\<lparr>insts := drop_bit 8 (insts ps)\<rparr>)
      else if opc = 0xc1 then
        parse_emu_xadd ((ps_add_ip 1 ps)\<lparr>insts := drop_bit 8 (insts ps)\<rparr>)
      else if opc = 0xc8 \<or> opc = 0xc9 \<or> opc = 0xca \<or> opc = 0xcb \<or> opc = 0xce \<or> opc = 0xcf then
        Some (parse_emu_bswap ps)
      else Some (- EOPNOTSUPP, ps))"

text \<open>The \<^verbatim>\<open>end:\<close> label: on failure the instruction pointer is rolled back.\<close>

definition emu_end :: "int \<Rightarrow> parser_state \<Rightarrow> int \<times> machine" where
  "emu_end ret ps =
     (let m = ps_m ps in
      (ret, if ret < 0 then m\<lparr>m_regs := (m_regs m)\<lparr>pt_ip := orig_ip ps\<rparr>\<rparr> else m))"

definition parse_emu_instruction :: "machine \<Rightarrow> (int \<times> machine) option" where
  "parse_emu_instruction m =
     (let ip = pt_ip (m_regs m); (r1, w1) = get_user m ip in
      if r1 = - EFAULT then Some (- ENOMEM, m)
      else
        (let (r2, w2) = get_user m (ip + 4) in
         if r2 = - EFAULT then Some (- ENOMEM, m)
         else if w1 = 0xfb1e0ff3 then Some (1, add_ip 4 m)
         else
           (let ps = \<lparr>inst_src = UserPtr 0, inst_dest = UserPtr 0, ps_m = m, orig_ip = ip,
                      insts = w1, insts2 = w2, regs_only = 0, lock_prefix = 0\<rparr>;
                ps = (if w1 AND 0xff = 0xf0
                      then (ps_add_ip 1 ps)\<lparr>insts := drop_bit 8 w1, lock_prefix := 1\<rparr>
                      else ps) in
            if insts ps AND 0xff \<noteq> 0x0f then Some (emu_end (- EOPNOTSUPP) ps)
            else
              map_option (\<lambda>(ret, ps). emu_end ret ps)
                (emu_dispatch ((ps_add_ip 1 ps)\<lparr>insts := drop_bit 8 (insts ps)\<rparr>)))))"

end
