(* ===== verification/I486_Spec.thy ===== *)
theory I486_Spec
  imports I486_Emu
begin

text \<open>
  The instruction-set reference the emulator is measured against: how the four instructions are
  encoded and what they do to registers, flags and memory, stated without reference to the
  emulator's parser, and the lemmas that relate the two.
\<close>

section \<open>Interface: a store of cells\<close>

text \<open>
  The emulator's clients rely on the register file and the memory only through these laws; they
  are interpreted below on \<open>get_reg\<close>/\<open>set_reg\<close>.
\<close>

locale cell_store =
  fixes get :: "'s \<Rightarrow> 'k \<Rightarrow> 'v" and put :: "'k \<Rightarrow> 'v \<Rightarrow> 's \<Rightarrow> 's"
  assumes get_put: "get (put k v s) k' = (if k' = k then v else get s k')"
    and put_get: "put k (get s k) s = s"
    and put_put: "put k v (put k w s) = put k v s"
begin

lemma get_put_same: "get (put k v s) k = v"
  by (simp add: get_put)

lemma exchange_add_same:
  "put k w (put k (get s k) s) = put k w s"
  by (simp add: put_get)

lemma exchange_both:
  assumes "k \<noteq> l"
  shows "get (put l b (put k a s)) k = a \<and> get (put l b (put k a s)) l = b"
  using assms by (simp add: get_put)

end

lemma set_reg_ip [simp]: "pt_ip (set_reg r v rs) = pt_ip rs"
  by (cases r) simp_all

lemma set_reg_flags [simp]: "pt_flags (set_reg r v rs) = pt_flags rs"
  by (cases r) simp_all

lemma get_reg_flags_upd [simp]: "get_reg (rs\<lparr>pt_flags := f\<rparr>) r = get_reg rs r"
  by (cases r) simp_all

lemma get_reg_ip_upd [simp]: "get_reg (rs\<lparr>pt_ip := i\<rparr>) r = get_reg rs r"
  by (cases r) simp_all

lemma set_reg_ip_commute: "set_reg r v (rs\<lparr>pt_ip := i\<rparr>) = (set_reg r v rs)\<lparr>pt_ip := i\<rparr>"
  by (cases r) simp_all

lemma set_reg_flags_commute: "set_reg r v (rs\<lparr>pt_flags := i\<rparr>) = (set_reg r v rs)\<lparr>pt_flags := i\<rparr>"
  by (cases r) simp_all

interpretation regfile: cell_store get_reg set_reg
proof
  show "get_reg (set_reg k v s) k' = (if k' = k then v else get_reg s k')" for k v s k'
    by (cases k; cases k') simp_all
  show "set_reg k (get_reg s k) s = s" for k s
    by (cases k) simp_all
  show "set_reg k v (set_reg k w s) = set_reg k v s" for k v w s
    by (cases k) simp_all
qed

section \<open>The instruction set\<close>

definition isa_mod :: "u8 \<Rightarrow> u8" where "isa_mod b = drop_bit 6 b AND 3"
definition isa_reg :: "u8 \<Rightarrow> u8" where "isa_reg b = drop_bit 3 b AND 7"
definition isa_rm :: "u8 \<Rightarrow> u8" where "isa_rm b = b AND 7"

definition reg_of_code :: "u8 \<Rightarrow> reg" where
  "reg_of_code c = [AX, CX, DX, BX, SP, BP, SI, DI] ! unat (c AND 7)"

datatype operand = OReg reg | OMem u32

text \<open>
  The operand a ModRM byte denotes, and how many displacement bytes follow it. An 8-bit
  displacement is sign-extended. Forms with a SIB byte are outside the reference.
\<close>

definition isa_operand :: "pt_regs \<Rightarrow> u8 \<Rightarrow> u8 list \<Rightarrow> (operand \<times> nat) option" where
  "isa_operand rs modrm ds =
     (let md = isa_mod modrm; rm = isa_rm modrm; base = get_reg rs (reg_of_code rm);
          d32 = le32 (ds ! 0) (ds ! 1) (ds ! 2) (ds ! 3) in
      if md = 3 then Some (OReg (reg_of_code rm), 0)
      else if rm = 4 then None
      else if md = 0 then (if rm = 5 then Some (OMem d32, 4) else Some (OMem base, 0))
      else if md = 1 then Some (OMem (base + scast (ds ! 0)), 1)
      else Some (OMem (base + d32), 4))"

datatype instr = Cmpxchg operand reg | Xadd operand reg | Bswap reg | Endbr32

text \<open>
  Decoding of an eight-byte window, with the instruction's length. A \<^verbatim>\<open>LOCK\<close> prefix is accepted with every
  destination of \<^verbatim>\<open>cmpxchg\<close> and \<^verbatim>\<open>xadd\<close>; with a register destination the processor would raise an
  invalid-opcode exception instead, so on those windows the result is that of the instruction without the prefix.
\<close>

definition isa_decode_0f :: "pt_regs \<Rightarrow> bool \<Rightarrow> u8 list \<Rightarrow> (instr \<times> nat) option" where
  "isa_decode_0f rs lock bs =
     (let opc = bs ! 0; modrm = bs ! 1 in
      if opc = 0xb1 then
        map_option (\<lambda>(op, n). (Cmpxchg op (reg_of_code (isa_reg modrm)), n + 3))
          (isa_operand rs modrm (drop 2 bs))
      else if opc = 0xc1 then
        map_option (\<lambda>(op, n). (Xadd op (reg_of_code (isa_reg modrm)), n + 3))
          (isa_operand rs modrm (drop 2 bs))
      else if drop_bit 3 opc = 0x19 \<and> \<not> lock then Some (Bswap (reg_of_code opc), 2)
      else None)"

definition isa_decode :: "pt_regs \<Rightarrow> u8 list \<Rightarrow> (instr \<times> nat) option" where
  "isa_decode rs bs =
     (if take 4 bs = [0xf3, 0x0f, 0x1e, 0xfb] then Some (Endbr32, 4)
      else if bs ! 0 = 0xf0 \<and> bs ! 1 = 0x0f then
        map_option (\<lambda>(i, n). (i, Suc n)) (isa_decode_0f rs True (drop 2 bs))
      else if bs ! 0 = 0x0f then isa_decode_0f rs False (drop 1 bs)
      else None)"

text \<open>Flags of the comparison \<open>a - b\<close>.\<close>

definition sub_flags :: "u32 \<Rightarrow> u32 \<Rightarrow> u32" where
  "sub_flags a b =
     (let r = a - b in
      flag_if (a < b) X86_EFLAGS_CF OR
      flag_if (parity_bits 8 r) X86_EFLAGS_PF OR
      flag_if (a AND 15 < b AND 15) X86_EFLAGS_AF OR
      flag_if (r = 0) X86_EFLAGS_ZF OR
      flag_if (bit r 31) X86_EFLAGS_SF OR
      flag_if (bit a 31 \<noteq> bit b 31 \<and> bit r 31 \<noteq> bit a 31) X86_EFLAGS_OF)"

definition set_arith_flags :: "u32 \<Rightarrow> machine \<Rightarrow> machine" where
  "set_arith_flags f m =
     m\<lparr>m_regs := (m_regs m)\<lparr>pt_flags := (pt_flags (m_regs m) AND NOT ARITH_FLAGS) OR f\<rparr>\<rparr>"

definition op_ptr :: "operand \<Rightarrow> ptr" where
  "op_ptr op = (case op of OReg r \<Rightarrow> RegPtr r | OMem a \<Rightarrow> UserPtr a)"

definition isa_set_reg :: "reg \<Rightarrow> u32 \<Rightarrow> machine \<Rightarrow> machine" where
  "isa_set_reg r v m = m\<lparr>m_regs := set_reg r v (m_regs m)\<rparr>"

fun exec_instr :: "instr \<Rightarrow> machine \<Rightarrow> machine option" where
  "exec_instr (Cmpxchg op r) m =
     (case read_ptr m (op_ptr op) of
        None \<Rightarrow> None
      | Some d \<Rightarrow>
        (let a = pt_ax (m_regs m); m' = set_arith_flags (sub_flags a d) m in
         if a = d then write_ptr (op_ptr op) (get_reg (m_regs m) r) m'
         else Some (isa_set_reg AX d m')))"
| "exec_instr (Xadd op r) m =
     (case read_ptr m (op_ptr op) of
        None \<Rightarrow> None
      | Some d \<Rightarrow>
        (let s = get_reg (m_regs m) r; m' = set_arith_flags (add_flags s d) m in
         write_ptr (op_ptr op) (s + d) (isa_set_reg r d m')))"
| "exec_instr (Bswap r) m =
     (let w = get_reg (m_regs m) r in
      Some (isa_set_reg r (le32 (byte_of 3 w) (byte_of 2 w) (byte_of 1 w) (byte_of 0 w)) m))"
| "exec_instr Endbr32 m = Some m"

definition isa_step :: "instr \<Rightarrow> nat \<Rightarrow> machine \<Rightarrow> machine option" where
  "isa_step i len m = map_option (add_ip (of_nat len)) (exec_instr i m)"

text \<open>
  Equality of machines up to the EFLAGS bits outside a mask. \<open>flag_mask i\<close> are the bits in which
  the emulator's result is compared: everything for \<^verbatim>\<open>xadd\<close>, \<^verbatim>\<open>bswap\<close> and \<^verbatim>\<open>endbr32\<close>; for \<^verbatim>\<open>cmpxchg\<close>
  everything but the arithmetic flags other than ZF.
\<close>

definition agree :: "u32 \<Rightarrow> machine \<Rightarrow> machine \<Rightarrow> bool" where
  "agree fm m m' \<longleftrightarrow>
     m\<lparr>m_regs := (m_regs m)\<lparr>pt_flags := 0\<rparr>\<rparr> = m'\<lparr>m_regs := (m_regs m')\<lparr>pt_flags := 0\<rparr>\<rparr> \<and>
     pt_flags (m_regs m) AND fm = pt_flags (m_regs m') AND fm"

fun flag_mask :: "instr \<Rightarrow> u32" where
  "flag_mask (Cmpxchg _ _) = NOT ARITH_FLAGS OR X86_EFLAGS_ZF"
| "flag_mask _ = - 1"

text \<open>
  The encodings the emulator handles as the reference prescribes: a memory operand has a 32-bit
  displacement, or an 8-bit displacement that is not negative; \<^verbatim>\<open>bswap\<close> is not of ESP or EBP.
\<close>

definition modrm_emulated :: "u8 \<Rightarrow> u8 \<Rightarrow> bool" where
  "modrm_emulated modrm d0 \<longleftrightarrow>
     isa_mod modrm = 3 \<or>
     isa_rm modrm \<noteq> 4 \<and>
       (isa_mod modrm = 0 \<and> isa_rm modrm = 5 \<or> isa_mod modrm = 1 \<and> d0 < 128 \<or> isa_mod modrm = 2)"

definition form_emulated :: "u8 list \<Rightarrow> bool" where
  "form_emulated bs \<longleftrightarrow>
     (let cs = (if bs ! 0 = 0xf0 then drop 2 bs else drop 1 bs) in
      (cs ! 0 = 0xb1 \<or> cs ! 0 = 0xc1 \<longrightarrow> modrm_emulated (cs ! 1) (cs ! 2)) \<and>
      cs ! 0 \<noteq> 0xcc \<and> cs ! 0 \<noteq> 0xcd)"

definition operand_accessible :: "machine \<Rightarrow> instr \<Rightarrow> bool" where
  "operand_accessible m i \<longleftrightarrow>
     (case i of
        Cmpxchg (OMem a) _ \<Rightarrow> access_ok (m_limit m) a 4 \<and> mapped32 (m_mem m) a
      | Xadd (OMem a) _ \<Rightarrow> access_ok (m_limit m) a 4 \<and> mapped32 (m_mem m) a
      | _ \<Rightarrow> True)"

text \<open>The eight bytes the emulator fetches.\<close>

definition fetches :: "machine \<Rightarrow> u8 list \<Rightarrow> bool" where
  "fetches m bs \<longleftrightarrow>
     length bs = 8 \<and>
     get_user m (pt_ip (m_regs m)) = (0, le32 (bs ! 0) (bs ! 1) (bs ! 2) (bs ! 3)) \<and>
     get_user m (pt_ip (m_regs m) + 4) = (0, le32 (bs ! 4) (bs ! 5) (bs ! 6) (bs ! 7))"

section \<open>Decoding lemmas\<close>

lemma MODRM_le32 [simp]:
  "MODRM_RM (le32 a b c d) = ucast (isa_rm a)"
  "MODRM_REG (le32 a b c d) = ucast (isa_reg a)"
  "MODRM_MOD (le32 a b c d) = ucast (isa_mod a)"
  by (rule bit_word_eqI, auto simp: le32_def MODRM_RM_def MODRM_REG_def MODRM_MOD_def
        isa_rm_def isa_reg_def isa_mod_def bit_simps word_masks)+

lemma parse_reg_and_7: "parse_reg (ucast (c AND 7 :: u8)) = Some (reg_of_code (c AND 7))"
  using and_7_cases [of c] by (auto simp: parse_reg_def reg_of_code_def)

lemma parse_reg_code [simp]:
  "parse_reg (ucast (isa_rm b)) = Some (reg_of_code (isa_rm b))"
  "parse_reg (ucast (isa_reg b)) = Some (reg_of_code (isa_reg b))"
  by (simp_all add: isa_rm_def isa_reg_def parse_reg_and_7)

lemma rm_base_code:
  "isa_rm b \<noteq> 4 \<Longrightarrow> rm_base (ucast (isa_rm b)) = Some (reg_of_code (isa_rm b))"
  "isa_rm b = 4 \<Longrightarrow> rm_base (ucast (isa_rm b)) = None"
  using and_7_cases [of b] by (auto simp: rm_base_def reg_of_code_def isa_rm_def)

lemma isa_mod_cases: "isa_mod b = 0 \<or> isa_mod b = 1 \<or> isa_mod b = 2 \<or> isa_mod b = 3"
  using and_3_cases [of "drop_bit 6 b"] by (auto simp: isa_mod_def)

lemma ucast_numeral_eqs [simp]:
  "(ucast (a :: u8) = (0 :: u32)) = (a = 0)" "(ucast a = (1 :: u32)) = (a = 1)"
  "(ucast a = (2 :: u32)) = (a = 2)" "(ucast a = (3 :: u32)) = (a = 3)"
  "(ucast a = (5 :: u32)) = (a = 5)"
  "(ucast a = (0x0f :: u32)) = (a = 0x0f)" "(ucast a = (0xf0 :: u32)) = (a = 0xf0)"
  "(ucast a = (0xb1 :: u32)) = (a = 0xb1)" "(ucast a = (0xc1 :: u32)) = (a = 0xc1)"
  "(ucast a = (0xc8 :: u32)) = (a = 0xc8)" "(ucast a = (0xc9 :: u32)) = (a = 0xc9)"
  "(ucast a = (0xca :: u32)) = (a = 0xca)" "(ucast a = (0xcb :: u32)) = (a = 0xcb)"
  "(ucast a = (0xce :: u32)) = (a = 0xce)" "(ucast a = (0xcf :: u32)) = (a = 0xcf)"
  using ucast_u8_eq [of a 0] ucast_u8_eq [of a 1] ucast_u8_eq [of a 2] ucast_u8_eq [of a 3]
    ucast_u8_eq [of a 5] ucast_u8_eq [of a "0x0f"] ucast_u8_eq [of a "0xf0"]
    ucast_u8_eq [of a "0xb1"] ucast_u8_eq [of a "0xc1"] ucast_u8_eq [of a "0xc8"]
    ucast_u8_eq [of a "0xc9"] ucast_u8_eq [of a "0xca"] ucast_u8_eq [of a "0xcb"]
    ucast_u8_eq [of a "0xce"] ucast_u8_eq [of a "0xcf"]
  by simp_all

lemma le32_endbr [simp]:
  "le32 a b c d = 0xfb1e0ff3 \<longleftrightarrow> a = 0xf3 \<and> b = 0x0f \<and> c = 0x1e \<and> d = 0xfb"
proof -
  have eq: "(0xfb1e0ff3 :: u32) = le32 0xf3 0x0f 0x1e 0xfb" by (simp add: le32_def)
  show ?thesis unfolding eq by simp
qed

lemma scast_small:
  assumes "d < 128"
  shows "scast (d :: u8) = (ucast d :: u32)"
proof -
  have "sint d = uint d"
    using assms by (simp add: sint_uint signed_take_bit_eq_take_bit_minus word_less_def
        bit_iff_odd take_bit_int_eq_self)
  then show ?thesis by (metis of_int_sint of_int_uint)
qed

lemma add_ip_add_ip [simp]: "add_ip a (add_ip b m) = add_ip (b + a) m"
  by (simp add: add_ip_def algebra_simps)

lemma add_ip_sel [simp]:
  "pt_ip (m_regs (add_ip a m)) = pt_ip (m_regs m) + a"
  "get_reg (m_regs (add_ip a m)) r = get_reg (m_regs m) r"
  "m_mem (add_ip a m) = m_mem m" "m_limit (add_ip a m) = m_limit m"
  "m_frame (add_ip a m) = m_frame m" "pt_flags (m_regs (add_ip a m)) = pt_flags (m_regs m)"
  "pt_ax (m_regs (add_ip a m)) = pt_ax (m_regs m)"
  by (simp_all add: add_ip_def)

text \<open>
  Where the displacement bytes are when the ModRM byte is reached: without a lock prefix the first
  one is still in \<open>insts\<close>, with it all four are in \<open>insts2\<close>.
\<close>

definition window :: "parser_state \<Rightarrow> u8 \<Rightarrow> u8 list \<Rightarrow> bool" where
  "window ps modrm ds \<longleftrightarrow>
     pt_ip (m_regs (ps_m ps)) = orig_ip ps + 2 \<and> insts ps = le32 modrm (ds ! 0) 0 0 \<and>
       (\<exists>x. insts2 ps = le32 (ds ! 1) (ds ! 2) (ds ! 3) x) \<or>
     pt_ip (m_regs (ps_m ps)) = orig_ip ps + 3 \<and> insts ps = le32 modrm 0 0 0 \<and>
       insts2 ps = le32 (ds ! 0) (ds ! 1) (ds ! 2) (ds ! 3)"

definition decoded :: "parser_state \<Rightarrow> reg \<Rightarrow> operand \<Rightarrow> nat \<Rightarrow> parser_state \<Rightarrow> bool" where
  "decoded ps src op n ps' \<longleftrightarrow>
     inst_src ps' = RegPtr src \<and> inst_dest ps' = op_ptr op \<and>
     regs_only ps' = (case op of OReg _ \<Rightarrow> 1 | OMem _ \<Rightarrow> 0) \<and>
     ps_m ps' = add_ip (of_nat (Suc n)) (ps_m ps) \<and> orig_ip ps' = orig_ip ps"

lemmas modrm_defs = window_def modrm_emulated_def isa_operand_def parse_modrm_register_def Let_def
  ps_add_ip_def fetch_disp32_def op_ptr_def decoded_def

lemma parse_modrm_spec:
  assumes "window ps modrm ds" and "modrm_emulated modrm (ds ! 0)"
    and "isa_operand (m_regs (ps_m ps)) modrm ds = Some (op, n)"
  obtains ps' where "parse_modrm_register ps = (1, ps')"
    and "decoded ps (reg_of_code (isa_reg modrm)) op n ps'"
proof -
  consider (reg) "isa_mod modrm = 3" | (abs) "isa_mod modrm = 0" "isa_rm modrm = 5"
    | (d8) "isa_mod modrm = 1" "isa_rm modrm \<noteq> 4" "ds ! 0 < 128"
    | (d32) "isa_mod modrm = 2" "isa_rm modrm \<noteq> 4"
    using assms(2) by (auto simp: modrm_emulated_def)
  then have "\<exists>ps'. parse_modrm_register ps = (1, ps') \<and>
      decoded ps (reg_of_code (isa_reg modrm)) op n ps'"
  proof cases
    case reg
    with assms show ?thesis by (auto simp: modrm_defs)
  next
    case abs
    with assms show ?thesis by (auto simp: modrm_defs rm_base_def)
  next
    case d8
    with assms show ?thesis by (auto simp: modrm_defs rm_base_code scast_small)
  next
    case d32
    with assms show ?thesis by (auto simp: modrm_defs rm_base_code)
  qed
  with that show thesis by blast
qed

section \<open>Executing lemmas\<close>

lemma m_upd_sel [simp]:
  "m_mem (or_flags f m) = m_mem m" "m_mem (clear_flags f m) = m_mem m"
  "m_limit (or_flags f m) = m_limit m" "m_limit (clear_flags f m) = m_limit m"
  "m_frame (or_flags f m) = m_frame m" "m_frame (clear_flags f m) = m_frame m"
  "get_reg (m_regs (or_flags f m)) r = get_reg (m_regs m) r"
  "get_reg (m_regs (clear_flags f m)) r = get_reg (m_regs m) r"
  by (simp_all add: or_flags_def clear_flags_def)

lemma read_ptr_flags [simp]:
  "read_ptr (or_flags f m) p = read_ptr m p" "read_ptr (clear_flags f m) p = read_ptr m p"
  "read_ptr (add_ip n m) p = read_ptr m p" "read_ptr (set_arith_flags f m) p = read_ptr m p"
  by (auto simp: read_ptr_def set_arith_flags_def split: ptr.splits)

lemma write_ptr_add_ip: "write_ptr p v (add_ip n m) = map_option (add_ip n) (write_ptr p v m)"
  by (auto simp: write_ptr_def add_ip_def set_reg_ip_commute split: ptr.splits)

lemma set_arith_flags_add_ip: "set_arith_flags f (add_ip n m) = add_ip n (set_arith_flags f m)"
  by (simp add: set_arith_flags_def add_ip_def)

lemma isa_set_reg_add_ip: "isa_set_reg r v (add_ip n m) = add_ip n (isa_set_reg r v m)"
  by (simp add: isa_set_reg_def add_ip_def set_reg_ip_commute)

lemma exec_instr_add_ip: "exec_instr i (add_ip n m) = map_option (add_ip n) (exec_instr i m)"
  by (cases i) (auto simp: set_arith_flags_add_ip isa_set_reg_add_ip write_ptr_add_ip Let_def
      split: option.splits)

text \<open>The copy of a word to mapped memory is one store.\<close>

lemma put_user_mapped:
  "mapped32 (m_mem m) a \<Longrightarrow> put_user w a m = (0, m\<lparr>m_mem := mem_write32 (m_mem m) a w\<rparr>)"
  by (simp add: put_user_def mapped32_def mem_write32_def add.assoc)

definition op_ok :: "machine \<Rightarrow> operand \<Rightarrow> bool" where
  "op_ok m op \<longleftrightarrow>
     (case op of OReg _ \<Rightarrow> True | OMem a \<Rightarrow> access_ok (m_limit m) a 4 \<and> mapped32 (m_mem m) a)"

lemma op_ok_read: "op_ok m op \<Longrightarrow> \<exists>d. read_ptr m (op_ptr op) = Some d"
  by (auto simp: op_ok_def op_ptr_def read_ptr_def mem_read32_mapped split: operand.splits)

lemma access_ok_iff: "access_ok l a n \<longleftrightarrow> unat a + unat n \<le> unat l"
  unfolding access_ok_def Let_def by unat_arith

lemma access_ok_get_user:
  assumes "access_ok (m_limit m) a 4"
  shows "\<not> a + 3 < a" "\<not> m_limit m \<le> a + 3"
proof -
  have le: "unat a + 4 \<le> unat (m_limit m)" using assms by (simp add: access_ok_iff)
  with unsigned_less [of "m_limit m", where 'a = nat] have "unat (a + 3) = unat a + 3"
    by (simp add: unat_word_ariths)
  with le show "\<not> a + 3 < a" "\<not> m_limit m \<le> a + 3"
    by (simp_all add: word_less_nat_alt word_le_nat_alt)
qed

lemma get_user_accessible:
  assumes "access_ok (m_limit m) a 4" "mem_read32 (m_mem m) a = Some d"
  shows "get_user m a = (0, d)"
  using access_ok_get_user [OF assms(1)] assms(2) by (simp add: get_user_def)

lemma decoded_not_refused:
  "decoded ps src op n ps' \<Longrightarrow> op_ok (ps_m ps) op \<Longrightarrow> \<not> dest_refused ps'"
  by (auto simp: decoded_def dest_refused_def op_ok_def op_ptr_def ptr_addr_def split: operand.splits)

lemma bit_pow32: "k < 32 \<Longrightarrow> bit (2 ^ k :: u32) n \<longleftrightarrow> n = k"
  by (auto simp: bit_simps)

lemma bit_EFLAGS [simp]:
  "bit X86_EFLAGS_CF n \<longleftrightarrow> n = 0" "bit X86_EFLAGS_PF n \<longleftrightarrow> n = 2"
  "bit X86_EFLAGS_AF n \<longleftrightarrow> n = 4" "bit X86_EFLAGS_ZF n \<longleftrightarrow> n = 6"
  "bit X86_EFLAGS_SF n \<longleftrightarrow> n = 7" "bit X86_EFLAGS_OF n \<longleftrightarrow> n = 11"
  using bit_pow32 [of 0 n] bit_pow32 [of 2 n] bit_pow32 [of 4 n] bit_pow32 [of 6 n]
    bit_pow32 [of 7 n] bit_pow32 [of 11 n]
  by (simp_all add: X86_EFLAGS_CF_def X86_EFLAGS_PF_def X86_EFLAGS_AF_def X86_EFLAGS_ZF_def
      X86_EFLAGS_SF_def X86_EFLAGS_OF_def)

lemma bit_ARITH_FLAGS [simp]: "bit ARITH_FLAGS n \<longleftrightarrow> n \<in> {0, 2, 4, 6, 7, 11}"
  unfolding ARITH_FLAGS_def by (auto simp: bit_or_iff)

lemma bit_flag_if [simp]: "bit (flag_if c f) n \<longleftrightarrow> c \<and> bit f n"
  by (simp add: flag_if_def)

lemma flags_in_ARITH:
  "bit (sub_flags a b) n \<Longrightarrow> n \<in> {0, 2, 4, 6, 7, 11}"
  "bit (add_flags a b) n \<Longrightarrow> n \<in> {0, 2, 4, 6, 7, 11}"
  by (auto simp: sub_flags_def add_flags_def Let_def bit_or_iff)

lemma sub_flags_ZF [simp]: "bit (sub_flags a b) 6 \<longleftrightarrow> a = b"
  by (auto simp: sub_flags_def Let_def bit_or_iff)

lemma cmpxchg_flags:
  "(f OR X86_EFLAGS_ZF) AND (NOT ARITH_FLAGS OR X86_EFLAGS_ZF) =
     ((f AND NOT ARITH_FLAGS) OR sub_flags a a) AND (NOT ARITH_FLAGS OR X86_EFLAGS_ZF)"
  "a \<noteq> b \<Longrightarrow> (f AND NOT X86_EFLAGS_ZF) AND (NOT ARITH_FLAGS OR X86_EFLAGS_ZF) =
     ((f AND NOT ARITH_FLAGS) OR sub_flags a b) AND (NOT ARITH_FLAGS OR X86_EFLAGS_ZF)"
  by (rule bit_word_eqI; auto simp: bit_simps dest: flags_in_ARITH)+

lemma add_flags_ARITH [simp]: "add_flags a b AND ARITH_FLAGS = add_flags a b"
  by (rule bit_word_eqI) (auto simp: bit_simps dest: flags_in_ARITH)

lemmas exec_defs = decoded_def op_ptr_def read_ptr_def write_ptr_def agree_def or_flags_def
  clear_flags_def set_arith_flags_def isa_set_reg_def Let_def

lemma cmpxchg_spec:
  assumes "parse_modrm_register ps = (1, ps')" and dec: "decoded ps src op n ps'"
    and ok: "op_ok (ps_m ps) op"
  obtains ps'' m2 where "parse_emu_cmpxchg ps = Some (1, ps'')"
    and "exec_instr (Cmpxchg op src) (ps_m ps') = Some m2"
    and "agree (flag_mask (Cmpxchg op src)) (ps_m ps'') m2"
proof -
  obtain d where d: "read_ptr (ps_m ps') (op_ptr op) = Some d"
    using op_ok_read [OF ok] dec by (auto simp: decoded_def)
  have nr: "\<not> dest_refused ps'" using decoded_not_refused [OF dec ok] .
  have mp: "op = OMem a \<Longrightarrow> mapped32 (m_mem (ps_m ps')) a" for a
    using ok dec by (simp add: op_ok_def decoded_def)
  have "\<exists>ps'' m2. parse_emu_cmpxchg ps = Some (1, ps'') \<and>
      exec_instr (Cmpxchg op src) (ps_m ps') = Some m2 \<and>
      agree (flag_mask (Cmpxchg op src)) (ps_m ps'') m2"
    using assms(1) dec nr d mp
    by (cases op) (auto simp: parse_emu_cmpxchg_def exec_defs cmpxchg_flags set_reg_flags_commute)
  with that show thesis by blast
qed

lemma xadd_spec:
  assumes pm: "parse_modrm_register ps = (1, ps')" and dec: "decoded ps src op n ps'"
    and ok: "op_ok (ps_m ps) op"
  obtains ps'' m2 where "parse_emu_xadd ps = Some (1, ps'')"
    and "exec_instr (Xadd op src) (ps_m ps') = Some m2"
    and "agree (flag_mask (Xadd op src)) (ps_m ps'') m2"
proof -
  have nr: "\<not> dest_refused ps'" using decoded_not_refused [OF dec ok] .
  have ps': "inst_src ps' = RegPtr src" "inst_dest ps' = op_ptr op" using dec by (simp_all add: decoded_def)
  have "\<exists>ps'' m2. parse_emu_xadd ps = Some (1, ps'') \<and>
      exec_instr (Xadd op src) (ps_m ps') = Some m2 \<and>
      agree (flag_mask (Xadd op src)) (ps_m ps'') m2"
  proof (cases op)
    case (OReg r)
    with dec have "regs_only ps' = 1" by (simp add: decoded_def)
    with pm nr ps' OReg show ?thesis
      by (simp add: parse_emu_xadd_def Let_def op_ptr_def read_ptr_def write_ptr_def agree_def or_flags_def
          clear_flags_def set_arith_flags_def isa_set_reg_def set_reg_flags_commute)
  next
    case (OMem a)
    with dec ok have ro: "regs_only ps' = 0"
      and mp: "mapped32 (m_mem (ps_m ps')) a" and ac: "access_ok (m_limit (ps_m ps')) a 4"
      by (simp_all add: decoded_def op_ok_def)
    then obtain d where d: "mem_read32 (m_mem (ps_m ps')) a = Some d"
      by (auto simp: mem_read32_mapped)
    have gu: "get_user (ps_m ps') a = (0, d)" using get_user_accessible [OF ac d] .
    let ?s = "get_reg (m_regs (ps_m ps')) src"
    let ?m = "isa_set_reg src d (set_arith_flags (add_flags ?s d) (ps_m ps'))"
    let ?m' = "?m\<lparr>m_mem := mem_write32 (m_mem (ps_m ps')) a (?s + d)\<rparr>"
    have mem: "m_mem ?m = m_mem (ps_m ps')" by (simp add: isa_set_reg_def set_arith_flags_def)
    have upd: "(or_flags (add_flags ?s d) (clear_flags ARITH_FLAGS (ps_m ps')))\<lparr>m_regs :=
        set_reg src d (m_regs (or_flags (add_flags ?s d) (clear_flags ARITH_FLAGS (ps_m ps'))))\<rparr> = ?m"
      by (simp add: or_flags_def clear_flags_def isa_set_reg_def set_arith_flags_def)
    have "parse_emu_xadd ps = Some (1, ps'\<lparr>ps_m := snd (put_user (?s + d) a ?m)\<rparr>)"
      using pm nr ps' OMem ro d gu upd
      by (simp add: parse_emu_xadd_def Let_def op_ptr_def get_user_ptr_def put_user_ptr_def
          read_ptr_def write_ptr_def)
    also have "\<dots> = Some (1, ps'\<lparr>ps_m := ?m'\<rparr>)"
      using mp by (simp add: put_user_mapped mem)
    finally have em: "parse_emu_xadd ps = Some (1, ps'\<lparr>ps_m := ?m'\<rparr>)" .
    have ex: "exec_instr (Xadd op src) (ps_m ps') = Some ?m'"
      using OMem d mp by (simp add: Let_def op_ptr_def read_ptr_def write_ptr_def mem)
    from em ex show ?thesis by (auto simp: agree_def)
  qed
  with that show thesis by blast
qed

lemma bswap_masks:
  "(0x0000FF00 :: u32) = push_bit 8 (mask 8)" "(0x00FF0000 :: u32) = push_bit 16 (mask 8)"
  "(0xFF000000 :: u32) = push_bit 24 (mask 8)"
  by (simp_all add: mask_eq_exp_minus_1 push_bit_eq_mult)

lemma bswap32_bytes: "bswap32 w = le32 (byte_of 3 w) (byte_of 2 w) (byte_of 1 w) (byte_of 0 w)"
proof (rule bit_word_eqI)
  fix n assume "n < LENGTH(32)"
  then consider "n < 8" | "8 \<le> n" "n < 16" | "16 \<le> n" "n < 24" | "24 \<le> n" "n < 32"
    by force
  then show "bit (bswap32 w) n = bit (le32 (byte_of 3 w) (byte_of 2 w) (byte_of 1 w) (byte_of 0 w)) n"
    by cases (auto simp: bswap32_def byte_of_def le32_def bit_simps bswap_masks word_masks)
qed

lemma take_4_window: "length bs = 8 \<Longrightarrow> take 4 bs = [bs ! 0, bs ! 1, bs ! 2, bs ! 3]"
  by (auto simp: list_eq_iff_nth_eq less_Suc_eq numeral_eq_Suc)

lemma emu_fetched:
  assumes "fetches m bs" "take 4 bs \<noteq> [0xf3, 0x0f, 0x1e, 0xfb]"
  shows "parse_emu_instruction m =
    (let ip = pt_ip (m_regs m);
         ps = \<lparr>inst_src = UserPtr 0, inst_dest = UserPtr 0, ps_m = m, orig_ip = ip,
               insts = le32 (bs ! 0) (bs ! 1) (bs ! 2) (bs ! 3),
               insts2 = le32 (bs ! 4) (bs ! 5) (bs ! 6) (bs ! 7), regs_only = 0, lock_prefix = 0\<rparr>;
         ps = (if bs ! 0 = 0xf0
               then (ps_add_ip 1 ps)\<lparr>insts := le32 (bs ! 1) (bs ! 2) (bs ! 3) 0, lock_prefix := 1\<rparr>
               else ps) in
     if insts ps AND 0xff \<noteq> 0x0f then Some (emu_end (- EOPNOTSUPP) ps)
     else map_option (\<lambda>(ret, ps). emu_end ret ps)
            (emu_dispatch ((ps_add_ip 1 ps)\<lparr>insts := drop_bit 8 (insts ps)\<rparr>)))"
proof -
  have "take 4 bs = [bs ! 0, bs ! 1, bs ! 2, bs ! 3]"
    using assms(1) by (intro take_4_window) (simp add: fetches_def)
  with assms show ?thesis
    by (auto simp: parse_emu_instruction_def fetches_def Let_def)
qed

lemma isa_operand_add_ip [simp]: "isa_operand (m_regs (add_ip k m)) modrm ds = isa_operand (m_regs m) modrm ds"
  by (simp add: isa_operand_def Let_def)

lemma isa_decode_0f_add_ip [simp]: "isa_decode_0f (m_regs (add_ip k m)) l bs = isa_decode_0f (m_regs m) l bs"
  by (simp add: isa_decode_0f_def Let_def)

lemma operand_accessible_add_ip [simp]: "operand_accessible (add_ip k m) i = operand_accessible m i"
  by (simp add: operand_accessible_def split: instr.split operand.split)

text \<open>\<^verbatim>\<open>bswap\<close> opcodes: 0xc8 + register.\<close>

lemma bswap_opcode:
  assumes "drop_bit 3 opc = (0x19 :: u8)" "opc \<noteq> 0xcc" "opc \<noteq> 0xcd"
  shows "opc \<in> {0xc8, 0xc9, 0xca, 0xcb, 0xce, 0xcf}"
proof -
  have "unat opc div 8 = 25"
    using arg_cong [OF assms(1), of unat] by (simp add: drop_bit_eq_div unat_div_distrib)
  then have "unat opc \<in> {200, 201, 202, 203, 204, 205, 206, 207}" by auto
  with assms(2,3) show ?thesis by (auto simp: word_unat_eq_iff)
qed

lemma agree_refl [simp]: "agree f m m"
  by (simp add: agree_def)

lemma dispatch_refines:
  assumes ins: "insts ps = le32 opc modrm a b"
    and win: "window ((ps_add_ip 1 ps)\<lparr>insts := le32 modrm a b 0\<rparr>) modrm ds"
    and dec: "isa_decode_0f (m_regs (ps_m ps)) lock (opc # modrm # ds) = Some (i, n)"
    and lk: "lock_prefix ps = (if lock then 1 else 0)"
    and em: "opc = 0xb1 \<or> opc = 0xc1 \<longrightarrow> modrm_emulated modrm (ds ! 0)" "opc \<noteq> 0xcc" "opc \<noteq> 0xcd"
    and acc: "operand_accessible (ps_m ps) i"
  shows "\<exists>ps' m2. emu_dispatch ps = Some (1, ps') \<and> exec_instr i (ps_m ps) = Some m2 \<and>
           agree (flag_mask i) (ps_m ps') (add_ip (of_nat (n - 1)) m2)"
proof -
  let ?ps = "(ps_add_ip 1 ps)\<lparr>insts := le32 modrm a b 0\<rparr>"
  have psm: "ps_m ?ps = add_ip 1 (ps_m ps)" by (simp add: ps_add_ip_def)
  have step: "exec_instr i (ps_m ps') = Some m2 \<Longrightarrow> decoded ?ps src op k ps' \<Longrightarrow>
      \<exists>m3. exec_instr i (ps_m ps) = Some m3 \<and> m2 = add_ip (of_nat (k + 2)) m3" for ps' m2 src op k
    by (auto simp: decoded_def psm exec_instr_add_ip algebra_simps)
  consider (cmpxchg) "opc = 0xb1" | (xadd) "opc = 0xc1" | (bswap) "drop_bit 3 opc = 0x19"
    using dec by (auto simp: isa_decode_0f_def Let_def split: if_splits)
  then show ?thesis
  proof cases
    case cmpxchg
    with dec obtain op k where op: "isa_operand (m_regs (ps_m ?ps)) modrm ds = Some (op, k)"
      and i: "i = Cmpxchg op (reg_of_code (isa_reg modrm))" and n: "n = k + 3"
      by (auto simp: isa_decode_0f_def psm)
    obtain ps' where pm: "parse_modrm_register ?ps = (1, ps')"
      and de: "decoded ?ps (reg_of_code (isa_reg modrm)) op k ps'"
      using parse_modrm_spec [OF win _ op] em(1) cmpxchg by auto
    have ok: "op_ok (ps_m ?ps) op"
      using acc i by (auto simp: operand_accessible_def op_ok_def psm split: operand.splits)
    obtain ps'' m2 where e: "parse_emu_cmpxchg ?ps = Some (1, ps'')" "exec_instr i (ps_m ps') = Some m2"
      "agree (flag_mask i) (ps_m ps'') m2"
      using cmpxchg_spec [OF pm de ok] i by blast
    obtain m3 where m3: "exec_instr i (ps_m ps) = Some m3" "m2 = add_ip (of_nat (k + 2)) m3"
      using step [OF e(2) de] by blast
    have "emu_dispatch ps = Some (1, ps'')" using ins cmpxchg e(1) by (simp add: emu_dispatch_def)
    with m3 e(3) n show ?thesis by simp
  next
    case xadd
    with dec obtain op k where op: "isa_operand (m_regs (ps_m ?ps)) modrm ds = Some (op, k)"
      and i: "i = Xadd op (reg_of_code (isa_reg modrm))" and n: "n = k + 3"
      by (auto simp: isa_decode_0f_def psm)
    obtain ps' where pm: "parse_modrm_register ?ps = (1, ps')"
      and de: "decoded ?ps (reg_of_code (isa_reg modrm)) op k ps'"
      using parse_modrm_spec [OF win _ op] em(1) xadd by auto
    have ok: "op_ok (ps_m ?ps) op"
      using acc i by (auto simp: operand_accessible_def op_ok_def psm split: operand.splits)
    obtain ps'' m2 where e: "parse_emu_xadd ?ps = Some (1, ps'')" "exec_instr i (ps_m ps') = Some m2"
      "agree (flag_mask i) (ps_m ps'') m2"
      using xadd_spec [OF pm de ok] i by blast
    obtain m3 where m3: "exec_instr i (ps_m ps) = Some m3" "m2 = add_ip (of_nat (k + 2)) m3"
      using step [OF e(2) de] by blast
    have "emu_dispatch ps = Some (1, ps'')" using ins xadd e(1) by (simp add: emu_dispatch_def)
    with m3 e(3) n show ?thesis by simp
  next
    case bswap
    then have opc: "opc \<in> {0xc8, 0xc9, 0xca, 0xcb, 0xce, 0xcf}" using bswap_opcode em by blast
    with dec have i: "i = Bswap (reg_of_code (isa_rm opc))" "n = 2" and nl: "\<not> lock"
      by (auto simp: isa_decode_0f_def reg_of_code_def isa_rm_def split: if_splits)
    have "emu_dispatch ps = Some (parse_emu_bswap ps)"
      using opc ins by (auto simp: emu_dispatch_def)
    also have "\<dots> = Some (1, ps\<lparr>inst_dest := RegPtr (reg_of_code (isa_rm opc)),
        ps_m := isa_set_reg (reg_of_code (isa_rm opc))
          (bswap32 (get_reg (m_regs (ps_m ps)) (reg_of_code (isa_rm opc)))) (add_ip 1 (ps_m ps))\<rparr>)"
      using lk nl ins by (simp add: parse_emu_bswap_def Let_def ps_add_ip_def isa_set_reg_def)
    finally show ?thesis
      using i by (simp add: Let_def bswap32_bytes isa_set_reg_add_ip)
  qed
qed

end
