(* ===== verification/I486_Props.thy ===== *)
theory I486_Props
  imports I486_Spec
begin

unbundle bit_operations_syntax

text \<open>The properties of the i486 instruction emulator.\<close>

section \<open>Frame lemmas of the parser\<close>

text \<open>The decoder changes the machine only by advancing the instruction pointer, by 1 to 5 bytes.\<close>

definition advanced :: "parser_state \<Rightarrow> parser_state \<Rightarrow> bool" where
  "advanced ps ps' \<longleftrightarrow>
     (\<exists>k. ps_m ps' = add_ip k (ps_m ps)) \<and> orig_ip ps' = orig_ip ps \<and> lock_prefix ps' = lock_prefix ps"

lemma add_ip_0 [simp]: "add_ip 0 m = m"
  by (simp add: add_ip_def)

lemma advanced_refl: "advanced ps ps"
  by (auto simp: advanced_def intro: exI [of _ 0])

lemma advanced_trans: "advanced a b \<Longrightarrow> advanced b c \<Longrightarrow> advanced a c"
  by (auto simp: advanced_def)

lemma advanced_add_ip [intro]: "advanced ps qs \<Longrightarrow> advanced ps (ps_add_ip k qs)"
  by (auto simp: advanced_def ps_add_ip_def)

lemma advanced_upd [intro]:
  "advanced ps qs \<Longrightarrow> advanced ps (qs\<lparr>insts := w\<rparr>)" "advanced ps qs \<Longrightarrow> advanced ps (qs\<lparr>inst_src := p\<rparr>)"
  "advanced ps qs \<Longrightarrow> advanced ps (qs\<lparr>inst_dest := p\<rparr>)" "advanced ps qs \<Longrightarrow> advanced ps (qs\<lparr>regs_only := r\<rparr>)"
  by (auto simp: advanced_def)

lemma advanced_fetch_disp32 [intro]: "advanced ps qs \<Longrightarrow> advanced ps (fetch_disp32 k qs)"
  by (auto simp: fetch_disp32_def Let_def)

lemma advanced_modrm: "advanced ps (snd (parse_modrm_register ps))"
  unfolding parse_modrm_register_def Let_def
  by (auto split: option.split simp: advanced_refl intro!: advanced_upd advanced_add_ip advanced_fetch_disp32)

lemma modrm_src: "parse_modrm_register ps = (r, ps') \<Longrightarrow> 0 \<le> r \<Longrightarrow> \<exists>s. inst_src ps' = RegPtr s"
  unfolding parse_modrm_register_def Let_def fetch_disp32_def ps_add_ip_def
  by (auto split: option.splits if_splits)

lemma modrm_dest:
  "parse_modrm_register ps = (r, ps') \<Longrightarrow> 0 \<le> r \<Longrightarrow>
   regs_only ps' = 1 \<and> (\<exists>d. inst_dest ps' = RegPtr d) \<or> regs_only ps' = 0"
  unfolding parse_modrm_register_def Let_def fetch_disp32_def ps_add_ip_def
  by (auto split: option.splits if_splits)

text \<open>What an emulation step may do to a machine.\<close>

definition confined :: "machine \<Rightarrow> machine \<Rightarrow> bool" where
  "confined m m' \<longleftrightarrow>
     m_limit m' = m_limit m \<and> m_frame m' = m_frame m \<and>
     (\<forall>a. m_mem m' a \<noteq> m_mem m a \<longrightarrow> a < m_limit m) \<and> dom (m_mem m') = dom (m_mem m)"

lemma confined_add_ip [simp]: "confined (add_ip k m) m' = confined m m'" "confined m (add_ip k m') = confined m m'"
  by (simp_all add: confined_def)

lemma confined_refl [simp]: "confined m m"
  by (simp add: confined_def)

lemma confined_flags [simp]:
  "confined m (or_flags f m') = confined m m'" "confined m (clear_flags f m') = confined m m'"
  "confined m (m'\<lparr>m_regs := r\<rparr>) = confined m m'"
  by (simp_all add: confined_def)

lemma access_ok_bytes:
  assumes "access_ok l p 4" "a \<in> {p, p + 1, p + 2, p + 3}"
  shows "a < l"
proof -
  have le: "unat p + 4 \<le> unat l" using assms(1) by (simp add: access_ok_iff)
  have "unat (p + k) = unat p + unat k" if "unat k < 4" for k :: u32
    using le that unsigned_less [of l, where 'a = nat] by (simp add: unat_word_ariths)
  then have "unat (p + 1) = unat p + 1" "unat (p + 2) = unat p + 2" "unat (p + 3) = unat p + 3"
    by simp_all
  with assms(2) le show ?thesis by (auto simp: word_less_nat_alt)
qed

lemma confined_mem_write:
  assumes "access_ok (m_limit m) p 4" "mapped32 (m_mem m') p" "confined m m'"
  shows "confined m (m'\<lparr>m_mem := mem_write32 (m_mem m') p w\<rparr>)"
  using assms access_ok_bytes [OF assms(1)]
  by (auto simp: confined_def dom_mem_write32) (metis (no_types, lifting) insertCI mem_write32_other)

lemma write_ptr_confined:
  assumes "write_ptr p v m' = Some m''" "confined m m'"
    and "\<And>a. p = UserPtr a \<Longrightarrow> access_ok (m_limit m) a 4"
  shows "confined m m''"
  using assms by (auto simp: write_ptr_def confined_mem_write split: ptr.splits if_splits)

lemma not_refused_access:
  "\<not> dest_refused ps \<Longrightarrow> regs_only ps = 0 \<Longrightarrow> inst_dest ps = UserPtr a \<Longrightarrow>
    access_ok (m_limit (ps_m ps)) a 4"
  by (simp add: dest_refused_def ptr_addr_def)
lemma copy_to_user_confined:
  "copy_to_user mem p bs = (k, mem') \<Longrightarrow> dom mem' = dom mem \<and> (\<forall>a. mem' a \<noteq> mem a \<longrightarrow> a \<in> (\<lambda>i. p + of_nat i) ` {..<length bs})"
proof (induction mem p bs arbitrary: k rule: copy_to_user.induct)
  case (2 m to b bs)
  show ?case
  proof (cases "m to = None")
    case False
    with "2.prems" have "copy_to_user (m(to \<mapsto> b)) (to + 1) bs = (k, mem')" by simp
    from "2.IH" [OF False this] have "dom mem' = dom (m(to \<mapsto> b))"
      and *: "\<forall>a. mem' a \<noteq> (m(to \<mapsto> b)) a \<longrightarrow> a \<in> (\<lambda>i. to + 1 + of_nat i) ` {..<length bs}" by auto
    have img: "(\<lambda>i. to + of_nat i) ` {..<length (b # bs)} = insert to ((\<lambda>i. to + 1 + of_nat i) ` {..<length bs})"
      by (auto simp: lessThan_Suc_eq_insert_0 image_image algebra_simps)
    with * False \<open>dom mem' = _\<close> show ?thesis by (auto simp: img)
  qed (use 2 in auto)
qed auto

lemma put_user_confined:
  assumes "access_ok (m_limit m) a 4" "confined m m'"
  shows "confined m (snd (put_user w a m'))"
proof -
  obtain k mem where c: "copy_to_user (m_mem m') a [byte_of 0 w, byte_of 1 w, byte_of 2 w, byte_of 3 w] = (k, mem)"
    by fastforce
  have "x < m_limit m" if "mem x \<noteq> m_mem m' x" for x
    using copy_to_user_confined [OF c] that access_ok_bytes [OF assms(1)]
    by (fastforce simp: lessThan_Suc numeral_eq_Suc)
  with assms(2) copy_to_user_confined [OF c] c show ?thesis
    by (auto simp: put_user_def confined_def Let_def) metis
qed

lemma emu_cmpxchg_frame:
  assumes "parse_emu_cmpxchg ps = Some (r, ps')"
  shows "confined (ps_m ps) (ps_m ps') \<and> orig_ip ps' = orig_ip ps \<and> (r < 0 \<longrightarrow> advanced ps ps')"
proof -
  obtain r0 qs where q: "parse_modrm_register ps = (r0, qs)" by fastforce
  have adv: "advanced ps qs" using advanced_modrm [of ps] q by simp
  then obtain k where k: "ps_m qs = add_ip k (ps_m ps)" and o: "orig_ip qs = orig_ip ps"
    by (auto simp: advanced_def)
  have "confined (ps_m ps) (ps_m ps')" if "0 \<le> r0" "\<not> dest_refused qs"
    using assms q that modrm_dest [OF q that(1)] not_refused_access [OF that(2)]
    by (auto simp: parse_emu_cmpxchg_def Let_def k split: option.splits if_splits elim!: write_ptr_confined)
  with assms q adv k o show ?thesis
    by (auto simp: parse_emu_cmpxchg_def Let_def split: option.splits if_splits)
qed

lemma emu_xadd_frame:
  assumes "parse_emu_xadd ps = Some (r, ps')"
  shows "confined (ps_m ps) (ps_m ps') \<and> orig_ip ps' = orig_ip ps \<and> (r < 0 \<longrightarrow> advanced ps ps')"
proof -
  obtain r0 qs where q: "parse_modrm_register ps = (r0, qs)" by fastforce
  have adv: "advanced ps qs" using advanced_modrm [of ps] q by simp
  then obtain k where k: "ps_m qs = add_ip k (ps_m ps)" and o: "orig_ip qs = orig_ip ps"
    by (auto simp: advanced_def)
  have "confined (ps_m ps) (ps_m ps')" if "0 \<le> r0" "\<not> dest_refused qs"
    using assms q that modrm_dest [OF q that(1)] modrm_src [OF q that(1)] not_refused_access [OF that(2)]
    by (auto simp: parse_emu_xadd_def Let_def k put_user_ptr_def write_ptr_def
       split: option.splits if_splits ptr.splits intro!: put_user_confined)
  with assms q adv k o show ?thesis
    by (auto simp: parse_emu_xadd_def Let_def split: option.splits if_splits)
qed

lemma emu_bswap_frame:
  "confined (ps_m ps) (ps_m (snd (parse_emu_bswap ps)))"
  "orig_ip (snd (parse_emu_bswap ps)) = orig_ip ps"
  "fst (parse_emu_bswap ps) < 0 \<Longrightarrow> advanced ps (snd (parse_emu_bswap ps))"
  by (auto simp: parse_emu_bswap_def Let_def ps_add_ip_def advanced_refl split: option.splits)

lemma emu_dispatch_cases:
  assumes "emu_dispatch ps = Some (r, ps')"
  defines "q \<equiv> (ps_add_ip 1 ps)\<lparr>insts := drop_bit 8 (insts ps)\<rparr>"
  shows "parse_emu_cmpxchg q = Some (r, ps') \<or> parse_emu_xadd q = Some (r, ps') \<or>
    parse_emu_bswap ps = (r, ps') \<or> r = - EOPNOTSUPP \<and> ps' = ps"
proof -
  define w where "w = insts ps AND 0xff"
  have "emu_dispatch ps = (if w = 0xb1 then parse_emu_cmpxchg q else if w = 0xc1 then parse_emu_xadd q
      else if w = 0xc8 \<or> w = 0xc9 \<or> w = 0xca \<or> w = 0xcb \<or> w = 0xce \<or> w = 0xcf
      then Some (parse_emu_bswap ps) else Some (- EOPNOTSUPP, ps))"
    unfolding w_def q_def emu_dispatch_def Let_def by (rule refl)
  with assms(1) show ?thesis
    by (cases "w = 0xb1"; cases "w = 0xc1"; cases "w = 0xc8 \<or> w = 0xc9 \<or> w = 0xca \<or> w = 0xcb \<or> w = 0xce \<or> w = 0xcf") simp_all
qed
lemma emu_dispatch_frame:
  assumes "emu_dispatch ps = Some (r, ps')"
  shows "confined (ps_m ps) (ps_m ps') \<and> orig_ip ps' = orig_ip ps \<and> (r < 0 \<longrightarrow> advanced ps ps')"
proof -
  let ?q = "(ps_add_ip 1 ps)\<lparr>insts := drop_bit 8 (insts ps)\<rparr>"
  have a: "advanced ps ?q" by (intro advanced_upd advanced_add_ip advanced_refl)
  have q: "ps_m ?q = add_ip 1 (ps_m ps)" "orig_ip ?q = orig_ip ps" by (simp_all add: ps_add_ip_def)
  from assms consider "parse_emu_cmpxchg ?q = Some (r, ps')" | "parse_emu_xadd ?q = Some (r, ps')"
    | "parse_emu_bswap ps = (r, ps')" | "r = - EOPNOTSUPP" "ps' = ps"
    using emu_dispatch_cases by blast
  then show ?thesis
  proof cases
    case 1
    from emu_cmpxchg_frame [OF this] q show ?thesis by (auto dest: advanced_trans [OF a])
  next
    case 2
    from emu_xadd_frame [OF this] q show ?thesis by (auto dest: advanced_trans [OF a])
  next
    case 3
    then show ?thesis using emu_bswap_frame [of ps] by simp
  next
    case 4
    then show ?thesis by (simp add: advanced_refl)
  qed
qed

lemma emu_end_restores:
  assumes "advanced ps ps'" "ps_m ps = add_ip k m" "orig_ip ps = pt_ip (m_regs m)" "r < 0"
  shows "emu_end r ps' = (r, m)"
  using assms by (auto simp: advanced_def emu_end_def Let_def add_ip_def)

text \<open>The two outcomes of the emulator after the fetch.\<close>

lemma emu_cases:
  assumes "parse_emu_instruction m = Some (r, m')"
  obtains (fault) "r = - ENOMEM" "m' = m" | (endbr) "r = 1" "m' = add_ip 4 m"
  | (refused) "r = - EOPNOTSUPP" "m' = m"
  | (run) ps ps' k where "emu_dispatch ps = Some (r, ps')" "m' = snd (emu_end r ps')"
      "ps_m ps = add_ip k m" "orig_ip ps = pt_ip (m_regs m)" "k = 1 \<or> k = 2"
proof -
  obtain r1 w1 r2 w2 where g: "get_user m (pt_ip (m_regs m)) = (r1, w1)"
    "get_user m (pt_ip (m_regs m) + 4) = (r2, w2)" by fastforce
  let ?ps = "\<lparr>inst_src = UserPtr 0, inst_dest = UserPtr 0, ps_m = m, orig_ip = pt_ip (m_regs m),
     insts = w1, insts2 = w2, regs_only = 0, lock_prefix = 0\<rparr>"
  let ?qs = "if w1 AND 0xff = 0xf0
     then (ps_add_ip 1 ?ps)\<lparr>insts := drop_bit 8 w1, lock_prefix := 1\<rparr> else ?ps"
  let ?ds = "(ps_add_ip 1 ?qs)\<lparr>insts := drop_bit 8 (insts ?qs)\<rparr>"
  have adv: "\<exists>k. ps_m ?ds = add_ip k m \<and> (k = 1 \<or> k = 2)" "orig_ip ?ds = pt_ip (m_regs m)"
    by (auto simp: ps_add_ip_def)
  have "r1 = - EFAULT \<or> r2 = - EFAULT \<or> w1 = 0xfb1e0ff3 \<or> insts ?qs AND 0xff \<noteq> 0x0f \<or>
      (\<exists>ps'. emu_dispatch ?ds = Some (r, ps') \<and> m' = snd (emu_end r ps'))"
    using assms g by (auto simp: parse_emu_instruction_def Let_def emu_end_def split: if_splits)
  then show thesis
  proof (elim disjE exE conjE)
    fix ps' assume "emu_dispatch ?ds = Some (r, ps')" "m' = snd (emu_end r ps')"
    with adv show thesis using run by blast
  qed (use assms g in \<open>auto simp: parse_emu_instruction_def Let_def emu_end_def ps_add_ip_def add_ip_def
      intro: fault endbr refused run split: if_splits\<close>)
qed
section \<open>Instruction lengths\<close>

lemma modrm_ip:
  assumes "parse_modrm_register ps = (r, ps')" "0 \<le> r"
    and "pt_ip (m_regs (ps_m ps)) = orig_ip ps + k" "k = 2 \<or> k = 3"
  shows "\<exists>j\<in>{k + 1, k + 2, k + 5}. pt_ip (m_regs (ps_m ps')) = orig_ip ps + j"
  using assms unfolding parse_modrm_register_def Let_def fetch_disp32_def ps_add_ip_def
  by (auto split: option.splits if_splits)

lemma put_user_ptr_ip [simp]: "pt_ip (m_regs (snd (put_user_ptr x p m))) = pt_ip (m_regs m)"
  by (auto simp: put_user_ptr_def put_user_def Let_def split: ptr.split prod.split)

lemma write_ptr_ip: "write_ptr p v m = Some m' \<Longrightarrow> pt_ip (m_regs m') = pt_ip (m_regs m)"
  by (auto simp: write_ptr_def split: ptr.splits if_splits)

lemma flags_ip [simp]:
  "pt_ip (m_regs (or_flags f m)) = pt_ip (m_regs m)" "pt_ip (m_regs (clear_flags f m)) = pt_ip (m_regs m)"
  by (simp_all add: or_flags_def clear_flags_def)

lemma cmpxchg_ip:
  assumes "parse_emu_cmpxchg ps = Some (r, ps')" "0 < r"
  shows "\<exists>r0 qs. parse_modrm_register ps = (r0, qs) \<and> 0 \<le> r0 \<and>
    pt_ip (m_regs (ps_m ps')) = pt_ip (m_regs (ps_m qs))"
proof -
  obtain r0 qs where q: "parse_modrm_register ps = (r0, qs)" by fastforce
  with assms show ?thesis
    by (auto simp: parse_emu_cmpxchg_def Let_def split: option.splits if_splits dest!: write_ptr_ip)
qed

lemma xadd_ip:
  assumes "parse_emu_xadd ps = Some (r, ps')" "0 < r"
  shows "\<exists>r0 qs. parse_modrm_register ps = (r0, qs) \<and> 0 \<le> r0 \<and>
    pt_ip (m_regs (ps_m ps')) = pt_ip (m_regs (ps_m qs))"
proof -
  obtain r0 qs where q: "parse_modrm_register ps = (r0, qs)" by fastforce
  with assms show ?thesis
    by (auto simp: parse_emu_xadd_def Let_def split: option.splits if_splits dest!: write_ptr_ip)
qed

lemma modrm_mod0:
  assumes "insts ps = le32 modrm a b c" "isa_mod modrm = 0" "isa_rm modrm \<noteq> 4" "isa_rm modrm \<noteq> 5"
  shows "\<exists>ps'. parse_modrm_register ps = (1, ps') \<and> regs_only ps' = 0 \<and>
     inst_dest ps' = RegPtr (reg_of_code (isa_rm modrm)) \<and>
     m_limit (ps_m ps') = m_limit (ps_m ps) \<and> m_frame (ps_m ps') = m_frame (ps_m ps)"
  using assms by (simp add: parse_modrm_register_def Let_def rm_base_code ps_add_ip_def)

lemma slot_refused:
  assumes "l \<le> f" "f \<le> 0xffffff00"
  shows "\<not> access_ok l (f + slot_offset r) 4"
proof -
  have off: "unat (slot_offset r) \<le> 60" by (cases r) simp_all
  have "unat f \<le> 0xffffff00" "unat l \<le> unat f" using assms by (simp_all add: word_le_nat_alt)
  with off have "unat (f + slot_offset r) = unat f + unat (slot_offset r)"
    by (simp add: unat_word_ariths)
  with \<open>unat l \<le> unat f\<close> show ?thesis by (simp add: access_ok_iff)
qed

lemma scast_ucast_256:
  assumes "128 \<le> (d :: u8)"
  shows "(ucast d :: u32) = scast d + 256"
proof -
  have "uint d div 128 = 1" "take_bit 8 (uint d) = uint d"
    using assms unsigned_less [of d, where 'a = int] by (simp_all add: word_le_def take_bit_int_eq_self)
  then have "uint d = sint d + 256"
    by (simp add: sint_uint signed_take_bit_eq_take_bit_minus bit_iff_odd)
  then have "(of_int (uint d) :: u32) = of_int (sint d) + 256" by simp
  then show ?thesis by simp
qed

section \<open>Refinement of the instruction set\<close>

text \<open>
  The parser state in which the emulator reaches the opcode switch, for a window that decodes to
  anything but \<^verbatim>\<open>endbr32\<close>.
\<close>

definition at_dispatch :: "machine \<Rightarrow> u8 list \<Rightarrow> instr \<Rightarrow> nat \<Rightarrow> bool \<Rightarrow> u8 list \<Rightarrow> parser_state \<Rightarrow> bool" where
  "at_dispatch m bs i len lock cs q \<longleftrightarrow>
     (\<exists>a b. insts q = le32 (cs ! 0) (cs ! 1) a b \<and>
       window ((ps_add_ip 1 q)\<lparr>insts := le32 (cs ! 1) a b 0\<rparr>) (cs ! 1) (drop 2 cs)) \<and>
     isa_decode_0f (m_regs m) lock cs = Some (i, len - (if lock then 1 else 0)) \<and>
     lock_prefix q = (if lock then 1 else 0) \<and> orig_ip q = pt_ip (m_regs m) \<and>
     ps_m q = add_ip (if lock then 2 else 1) m \<and> 2 \<le> len - (if lock then 1 else 0) \<and>
     cs = drop (if lock then 2 else 1) bs \<and> (lock \<longleftrightarrow> bs ! 0 = 0xf0)"

lemma emu_reaches_dispatch:
  assumes f: "fetches m bs" and ne: "take 4 bs \<noteq> [0xf3, 0x0f, 0x1e, 0xfb]"
    and dec: "isa_decode (m_regs m) bs = Some (i, len)"
  obtains q lock cs where "at_dispatch m bs i len lock cs q"
    and "parse_emu_instruction m = map_option (\<lambda>(ret, ps). emu_end ret ps) (emu_dispatch q)"
proof (cases "bs ! 0 = 0xf0")
  case True
  let ?q = "\<lparr>inst_src = UserPtr 0, inst_dest = UserPtr 0, ps_m = add_ip 2 m, orig_ip = pt_ip (m_regs m),
     insts = le32 (bs ! 2) (bs ! 3) 0 0, insts2 = le32 (bs ! 4) (bs ! 5) (bs ! 6) (bs ! 7),
     regs_only = 0, lock_prefix = 1\<rparr>"
  from True ne dec obtain k where b1: "bs ! 1 = 0x0f" and k: "len = Suc k"
    and de: "isa_decode_0f (m_regs m) True (drop 2 bs) = Some (i, k)"
    by (auto simp: isa_decode_def split: if_splits)
  have "2 \<le> k" using de by (auto simp: isa_decode_0f_def Let_def split: if_splits)
  then have "at_dispatch m bs i len True (drop 2 bs) ?q"
    using f de k True by (auto simp: at_dispatch_def window_def ps_add_ip_def fetches_def)
  moreover have "parse_emu_instruction m = map_option (\<lambda>(ret, ps). emu_end ret ps) (emu_dispatch ?q)"
    using True b1 by (simp add: emu_fetched [OF f ne] Let_def ps_add_ip_def)
  ultimately show thesis using that by blast
next
  case False
  let ?q = "\<lparr>inst_src = UserPtr 0, inst_dest = UserPtr 0, ps_m = add_ip 1 m, orig_ip = pt_ip (m_regs m),
     insts = le32 (bs ! 1) (bs ! 2) (bs ! 3) 0, insts2 = le32 (bs ! 4) (bs ! 5) (bs ! 6) (bs ! 7),
     regs_only = 0, lock_prefix = 0\<rparr>"
  from False ne dec have b0: "bs ! 0 = 0x0f"
    and de: "isa_decode_0f (m_regs m) False (drop 1 bs) = Some (i, len)"
    by (auto simp: isa_decode_def split: if_splits)
  have "2 \<le> len" using de by (auto simp: isa_decode_0f_def Let_def split: if_splits)
  then have "at_dispatch m bs i len False (drop 1 bs) ?q"
    using f de False
    by (auto simp: at_dispatch_def window_def ps_add_ip_def fetches_def simp flip: numeral_2_eq_2)
  moreover have "parse_emu_instruction m = map_option (\<lambda>(ret, ps). emu_end ret ps) (emu_dispatch ?q)"
    using b0 by (simp add: emu_fetched [OF f ne] Let_def ps_add_ip_def)
  ultimately show thesis using that by blast
qed

lemma at_dispatch_cs: "at_dispatch m bs i len lock cs q \<Longrightarrow> length bs = 8 \<Longrightarrow> cs = cs ! 0 # cs ! 1 # drop 2 cs"
  by (auto simp: at_dispatch_def Cons_nth_drop_Suc numeral_eq_Suc)

lemma fetched_dispatch:
  assumes f: "fetches m bs" and ne: "take 4 bs \<noteq> [0xf3, 0x0f, 0x1e, 0xfb]"
    and dec: "isa_decode (m_regs m) bs = Some (i, len)" and fe: "form_emulated bs"
    and acc: "operand_accessible m i"
  shows "\<exists>m' m2. parse_emu_instruction m = Some (1, m') \<and> isa_step i len m = Some m2 \<and>
           agree (flag_mask i) m' m2"
proof -
  obtain q lock cs where at: "at_dispatch m bs i len lock cs q"
    and pe: "parse_emu_instruction m = map_option (\<lambda>(ret, ps). emu_end ret ps) (emu_dispatch q)"
    using emu_reaches_dispatch [OF f ne dec] .
  let ?l = "if lock then 1 else 0 :: nat"
  have l: "length bs = 8" using f by (simp add: fetches_def)
  have cs: "cs = cs ! 0 # cs ! 1 # drop 2 cs" using at_dispatch_cs [OF at l] .
  from at obtain a b where ins: "insts q = le32 (cs ! 0) (cs ! 1) a b"
    and win: "window ((ps_add_ip 1 q)\<lparr>insts := le32 (cs ! 1) a b 0\<rparr>) (cs ! 1) (drop 2 cs)"
    unfolding at_dispatch_def by blast
  from at have de: "isa_decode_0f (m_regs m) lock cs = Some (i, len - ?l)"
    and psm: "ps_m q = add_ip (if lock then 2 else 1) m"
    unfolding at_dispatch_def by blast+
  have "\<exists>ps' m2. emu_dispatch q = Some (1, ps') \<and> exec_instr i (ps_m q) = Some m2 \<and>
      agree (flag_mask i) (ps_m ps') (add_ip (of_nat (len - ?l - 1)) m2)"
  proof (rule dispatch_refines [OF ins win])
    show "isa_decode_0f (m_regs (ps_m q)) lock (cs ! 0 # cs ! 1 # drop 2 cs) = Some (i, len - ?l)"
      unfolding cs [symmetric] psm using de by simp
  qed (use at acc fe l in \<open>auto simp: at_dispatch_def form_emulated_def\<close>)
  moreover have "ps_m q = add_ip (1 + of_nat ?l) m" "len = Suc (len - ?l - 1) + ?l"
    using at by (auto simp: at_dispatch_def)
  ultimately show ?thesis
    by (auto simp: pe emu_end_def isa_step_def exec_instr_add_ip)
qed

text \<open>
  The common part of the two instructions with a ModRM byte: the window reaches
  \<open>parse_emu_cmpxchg\<close> or \<open>parse_emu_xadd\<close> with the ModRM byte and its displacement in place.
\<close>

definition modrm_byte :: "u8 list \<Rightarrow> u8" where
  "modrm_byte bs = bs ! (if bs ! 0 = 0xf0 then 3 else 2)"

definition disp_bytes :: "u8 list \<Rightarrow> u8 list" where
  "disp_bytes bs = drop (if bs ! 0 = 0xf0 then 4 else 3) bs"

lemma modrm_dispatch:
  assumes f: "fetches m bs" and dec: "isa_decode (m_regs m) bs = Some (i, len)"
    and op: "i = Cmpxchg opd s \<or> i = Xadd opd s"
  obtains q p n k where
    "parse_emu_instruction m = map_option (\<lambda>(ret, ps). emu_end ret ps) (emu_dispatch q)"
    "ps_m q = add_ip k m" "orig_ip q = pt_ip (m_regs m)"
    "emu_dispatch q = parse_emu_cmpxchg p \<or> emu_dispatch q = parse_emu_xadd p"
    "window p (modrm_byte bs) (disp_bytes bs)" "ps_m p = add_ip (k + 1) m"
    "isa_operand (m_regs (ps_m p)) (modrm_byte bs) (disp_bytes bs) = Some (opd, n)"
    "s = reg_of_code (isa_reg (modrm_byte bs))"
    "form_emulated bs \<longrightarrow> modrm_emulated (modrm_byte bs) (disp_bytes bs ! 0)"
proof -
  have "take 4 bs \<noteq> [0xf3, 0x0f, 0x1e, 0xfb]" using dec op by (auto simp: isa_decode_def)
  from emu_reaches_dispatch [OF f this dec] obtain q lock cs where at: "at_dispatch m bs i len lock cs q"
    and pe: "parse_emu_instruction m = map_option (\<lambda>(ret, ps). emu_end ret ps) (emu_dispatch q)" .
  let ?l = "if lock then 1 else 0 :: nat" and ?k = "if lock then 2 else 1 :: u32"
  have l: "length bs = 8" using f by (simp add: fetches_def)
  from at have cs: "cs = drop (if lock then 2 else 1) bs" and lk: "lock \<longleftrightarrow> bs ! 0 = 0xf0"
    and psm: "ps_m q = add_ip ?k m" and ip: "orig_ip q = pt_ip (m_regs m)"
    and de: "isa_decode_0f (m_regs m) lock cs = Some (i, len - ?l)"
    unfolding at_dispatch_def by blast+
  have md: "cs ! 1 = modrm_byte bs" and db: "drop 2 cs = disp_bytes bs"
    using l lk by (auto simp: cs modrm_byte_def disp_bytes_def numeral_eq_Suc)
  from at obtain a b where ins: "insts q = le32 (cs ! 0) (modrm_byte bs) a b"
    and win: "window ((ps_add_ip 1 q)\<lparr>insts := le32 (modrm_byte bs) a b 0\<rparr>) (modrm_byte bs) (disp_bytes bs)"
    unfolding at_dispatch_def md db by blast
  let ?p = "(ps_add_ip 1 q)\<lparr>insts := le32 (modrm_byte bs) a b 0\<rparr>"
  have opc: "cs ! 0 = 0xb1 \<or> cs ! 0 = 0xc1"
    using de op by (auto simp: isa_decode_0f_def Let_def split: if_splits)
  have p: "ps_m ?p = add_ip (?k + 1) m" by (simp add: ps_add_ip_def psm)
  have "\<exists>n. isa_operand (m_regs m) (modrm_byte bs) (disp_bytes bs) = Some (opd, n)"
    and s: "s = reg_of_code (isa_reg (modrm_byte bs))"
    using de op opc by (auto simp: isa_decode_0f_def Let_def md db simp flip: One_nat_def)
  then obtain n where n: "isa_operand (m_regs (ps_m ?p)) (modrm_byte bs) (disp_bytes bs) = Some (opd, n)"
    by (auto simp: p)
  have em: "form_emulated bs \<longrightarrow> modrm_emulated (modrm_byte bs) (disp_bytes bs ! 0)"
    using opc l lk by (auto simp: form_emulated_def cs Let_def modrm_byte_def disp_bytes_def numeral_eq_Suc)
  have "emu_dispatch q = parse_emu_cmpxchg ?p \<or> emu_dispatch q = parse_emu_xadd ?p"
    using opc by (auto simp: emu_dispatch_def ins)
  from that [OF pe psm ip this win p n s em] show thesis .
qed

lemma emu_refines:
  assumes "fetches m bs" and "isa_decode (m_regs m) bs = Some (i, len)" and "form_emulated bs"
    and "operand_accessible m i"
  shows "\<exists>m' m2. parse_emu_instruction m = Some (1, m') \<and> isa_step i len m = Some m2 \<and>
           agree (flag_mask i) m' m2"
proof (cases "take 4 bs = [0xf3, 0x0f, 0x1e, 0xfb]")
  case True
  moreover have "length bs = 8" using assms(1) by (simp add: fetches_def)
  ultimately have "bs ! 0 = 0xf3" "bs ! 1 = 0x0f" "bs ! 2 = 0x1e" "bs ! 3 = 0xfb"
    using take_4_window [of bs] by auto
  with True assms(1,2) show ?thesis
    by (auto simp: isa_decode_def fetches_def parse_emu_instruction_def isa_step_def Let_def)
next
  case False
  from fetched_dispatch [OF assms(1) this assms(2-4)] show ?thesis .
qed

text \<open>
  What \<open>agree\<close> leaves open, \<^verbatim>\<open>cmpxchg\<close>'s flags other than ZF: the emulator does not compute them, they keep
  their values from before the trap. \<open>emulated_result i m m2\<close> is \<open>m2\<close> with those flags taken from \<open>m\<close>.
\<close>

definition stale_flags :: u32 where
  "stale_flags = X86_EFLAGS_CF OR X86_EFLAGS_PF OR X86_EFLAGS_AF OR X86_EFLAGS_SF OR X86_EFLAGS_OF"

definition emulated_result :: "instr \<Rightarrow> machine \<Rightarrow> machine \<Rightarrow> machine" where
  "emulated_result i m m2 =
     (case i of
        Cmpxchg _ _ \<Rightarrow>
          m2\<lparr>m_regs := (m_regs m2)\<lparr>pt_flags :=
            (pt_flags (m_regs m2) AND NOT stale_flags) OR (pt_flags (m_regs m) AND stale_flags)\<rparr>\<rparr>
      | _ \<Rightarrow> m2)"

lemma bit_stale_flags [simp]: "bit stale_flags n \<longleftrightarrow> n \<in> {0, 2, 4, 7, 11}"
  unfolding stale_flags_def by (auto simp: bit_or_iff)

lemma write_ptr_flags: "write_ptr p v m = Some m' \<Longrightarrow> pt_flags (m_regs m') = pt_flags (m_regs m)"
  by (auto simp: write_ptr_def split: ptr.splits if_splits)

lemma stale_ZF: "(f OR X86_EFLAGS_ZF) AND stale_flags = f AND stale_flags"
  "f AND NOT X86_EFLAGS_ZF AND stale_flags = f AND stale_flags"
  by (rule bit_word_eqI, auto simp: bit_simps)+

lemma cmpxchg_keeps_flags:
  assumes "parse_emu_cmpxchg ps = Some (r, ps')"
  shows "pt_flags (m_regs (ps_m ps')) AND stale_flags = pt_flags (m_regs (ps_m ps)) AND stale_flags"
proof -
  obtain r0 qs where q: "parse_modrm_register ps = (r0, qs)" by fastforce
  have "pt_flags (m_regs (ps_m qs)) = pt_flags (m_regs (ps_m ps))"
    using advanced_modrm [of ps] q by (auto simp: advanced_def)
  then show ?thesis using assms q
    by (auto simp: parse_emu_cmpxchg_def Let_def or_flags_def clear_flags_def stale_ZF and.assoc
        split: option.splits if_splits dest!: write_ptr_flags)
qed

lemma agree_all: "agree (- 1) m m' \<Longrightarrow> m = m'"
  by (cases m; cases m'; cases "m_regs m"; cases "m_regs m'") (auto simp: agree_def)

lemma agree_stale:
  assumes "agree (NOT ARITH_FLAGS OR X86_EFLAGS_ZF) m' m2"
    and "pt_flags (m_regs m') AND stale_flags = pt_flags (m_regs m) AND stale_flags"
  shows "m' = emulated_result (Cmpxchg opd r) m m2"
proof -
  have "pt_flags (m_regs m') = (pt_flags (m_regs m2) AND NOT stale_flags) OR (pt_flags (m_regs m) AND stale_flags)"
  proof (rule bit_word_eqI)
    fix n
    have "bit (pt_flags (m_regs m')) n = bit (pt_flags (m_regs m2)) n" if "n \<notin> {0, 2, 4, 7, 11}" "n < 32"
      using assms(1) that by (auto simp: agree_def bit_eq_iff bit_simps)
    moreover have "bit (pt_flags (m_regs m')) n = bit (pt_flags (m_regs m)) n" if "n \<in> {0, 2, 4, 7, 11}"
      using arg_cong [OF assms(2), of "\<lambda>w. bit w n"] that by (simp add: bit_and_iff)
    moreover assume "n < LENGTH(32)"
    ultimately show "bit (pt_flags (m_regs m')) n =
        bit ((pt_flags (m_regs m2) AND NOT stale_flags) OR (pt_flags (m_regs m) AND stale_flags)) n"
      by (cases "n \<in> {0, 2, 4, 7, 11}") (simp_all add: bit_or_iff bit_and_iff bit_not_iff)
  qed
  then show ?thesis using assms(1)
    by (cases m'; cases m2; cases "m_regs m'"; cases "m_regs m2") (auto simp: agree_def emulated_result_def)
qed

lemma emu_cmpxchg_keeps:
  assumes f: "fetches m bs" and dec: "isa_decode (m_regs m) bs = Some (Cmpxchg opd r, len)"
    and run: "parse_emu_instruction m = Some (1, m')"
  shows "pt_flags (m_regs m') AND stale_flags = pt_flags (m_regs m) AND stale_flags"
proof -
  have "take 4 bs \<noteq> [0xf3, 0x0f, 0x1e, 0xfb]" using dec by (auto simp: isa_decode_def)
  from emu_reaches_dispatch [OF f this dec] obtain q lock cs where
    at: "at_dispatch m bs (Cmpxchg opd r) len lock cs q"
    and pe: "parse_emu_instruction m = map_option (\<lambda>(ret, ps). emu_end ret ps) (emu_dispatch q)" .
  have opc: "cs ! 0 = 0xb1" "\<exists>a b. insts q = le32 (cs ! 0) (cs ! 1) a b" "\<exists>k. ps_m q = add_ip k m"
    using at by (auto simp: at_dispatch_def isa_decode_0f_def Let_def split: if_splits)
  define p where "p = (ps_add_ip 1 q)\<lparr>insts := drop_bit 8 (insts q)\<rparr>"
  have p: "emu_dispatch q = parse_emu_cmpxchg p" "\<exists>k. ps_m p = add_ip k m"
    using opc by (auto simp: emu_dispatch_def ps_add_ip_def p_def)
  obtain ps' where e: "parse_emu_cmpxchg p = Some (1, ps')" "m' = ps_m ps'"
    using run unfolding pe p(1) by (auto simp: emu_end_def Let_def split: if_splits)
  have "pt_flags (m_regs (ps_m p)) = pt_flags (m_regs m)" using p(2) by auto
  then show ?thesis using cmpxchg_keeps_flags [OF e(1)] unfolding e(2) by simp
qed

text \<open>The exact result of an emulated instruction.\<close>

lemma emu_exact:
  assumes "fetches m bs" and "isa_decode (m_regs m) bs = Some (i, len)" and "form_emulated bs"
    and "operand_accessible m i"
  shows "\<exists>m2. isa_step i len m = Some m2 \<and> parse_emu_instruction m = Some (1, emulated_result i m m2)"
proof -
  obtain m' m2 where r: "parse_emu_instruction m = Some (1, m')" "isa_step i len m = Some m2" "agree (flag_mask i) m' m2"
    using emu_refines [OF assms] by blast
  have "m' = emulated_result i m m2"
  proof (cases i)
    case (Cmpxchg opd q)
    then show ?thesis using r agree_stale emu_cmpxchg_keeps [OF assms(1)] assms(2) by auto
  qed (use r(3) in \<open>auto simp: emulated_result_def dest: agree_all\<close>)
  then show ?thesis using r by blast
qed

text \<open>
  C1: On every fetched window that encodes one of the supported instructions in a form the emulator
  covers, with an accessible memory operand, the emulator succeeds and leaves the machine as the
  instruction set prescribes: same registers, memory and instruction pointer, and the same EFLAGS
  bits in the instruction's mask.
\<close>

theorem emu_refines_isa:
  assumes "fetches m bs" and "isa_decode (m_regs m) bs = Some (i, len)" and "form_emulated bs"
    and "operand_accessible m i"
  shows "\<exists>m' m2. parse_emu_instruction m = Some (1, m') \<and> isa_step i len m = Some m2 \<and>
           agree (flag_mask i) m' m2"
  using assms by (rule emu_refines)

lemma emu_error_unchanged:
  assumes "parse_emu_instruction m = Some (r, m')" and "r < 0"
  shows "m' = m"
  using assms(1)
proof (cases rule: emu_cases)
  case (run ps ps' k)
  with assms(2) emu_dispatch_frame [OF run(1)] have "advanced ps ps'" by simp
  with run(2-4) assms(2) show ?thesis by (simp add: emu_end_restores)
qed (use assms(2) in simp_all)

text \<open>
  C2: When the emulator reports an error, the trap frame and the memory are exactly as they were
  before the trap, so the default trap handling sees the original state.
\<close>

theorem emu_failure_rolls_back:
  assumes "parse_emu_instruction m = Some (r, m')" and "r < 0"
  shows "m' = m"
  using assms by (rule emu_error_unchanged)

text \<open>
  C3: Whatever the instruction bytes are, the emulator changes memory only below the task's address
  limit, maps or unmaps nothing, and leaves the limit and the frame's place alone.
\<close>

theorem emu_confined:
  assumes "parse_emu_instruction m = Some (r, m')"
  shows "confined m m'"
  using assms
proof (cases rule: emu_cases)
  case (run ps ps' k)
  with emu_dispatch_frame [OF run(1)] show ?thesis
    by (auto simp: emu_end_def Let_def)
qed simp_all

text \<open>
  C4: After a successful emulation the instruction pointer stands 2 to 8 bytes further, at one of the
  lengths the supported encodings have.
\<close>

theorem emu_advances_ip:
  assumes "parse_emu_instruction m = Some (r, m')" and "0 < r"
  shows "\<exists>j\<in>{2, 3, 4, 5, 7, 8}. pt_ip (m_regs m') = pt_ip (m_regs m) + j"
  using assms(1)
proof (cases rule: emu_cases)
  case (run ps ps' k)
  let ?q = "(ps_add_ip 1 ps)\<lparr>insts := drop_bit 8 (insts ps)\<rparr>"
  have q: "pt_ip (m_regs (ps_m ?q)) = orig_ip ?q + (k + 1)" "orig_ip ?q = pt_ip (m_regs m)"
    "k + 1 = 2 \<or> k + 1 = 3"
    using run(3-5) by (auto simp: ps_add_ip_def algebra_simps)
  have m': "m' = ps_m ps'" using run(2) assms(2) by (simp add: emu_end_def Let_def)
  have len: "\<exists>j\<in>{k + 2, k + 3, k + 6}. pt_ip (m_regs (ps_m qs)) = pt_ip (m_regs m) + j"
    if "parse_modrm_register ?q = (r0, qs)" "0 \<le> r0" for r0 qs
    using modrm_ip [OF that q(1,3)] q(2) by (simp add: algebra_simps)
  from emu_dispatch_cases [OF run(1)] assms(2)
  consider "parse_emu_cmpxchg ?q = Some (r, ps')" | "parse_emu_xadd ?q = Some (r, ps')"
    | "parse_emu_bswap ps = (r, ps')" by auto
  then show ?thesis
  proof cases
    case 1
    with cmpxchg_ip [OF 1 assms(2)] len run(5) show ?thesis unfolding m' by fastforce
  next
    case 2
    with xadd_ip [OF 2 assms(2)] len run(5) show ?thesis unfolding m' by fastforce
  next
    case 3
    with assms(2) run(3,5) show ?thesis unfolding m'
      by (auto simp: parse_emu_bswap_def Let_def ps_add_ip_def split: if_splits option.splits)
  qed
qed (use assms(2) in simp_all)

text \<open>
  C5: A \<^verbatim>\<open>cmpxchg\<close> or \<^verbatim>\<open>xadd\<close> whose memory operand is a plain base register (mod 0, such as \<^verbatim>\<open>[ecx]\<close>)
  is never emulated under the user address limit: the parser takes the address of the saved register instead of
  its value, the access check refuses that kernel address, and the call returns \<^verbatim>\<open>-ENOMEM\<close>.
\<close>

theorem emu_base_operand_refused:
  assumes "fetches m bs" and "isa_decode (m_regs m) bs = Some (i, len)"
    and "i = Cmpxchg (OMem a) s \<or> i = Xadd (OMem a) s"
    and "isa_mod (modrm_byte bs) = 0" and "isa_rm (modrm_byte bs) \<noteq> 5"
    and "m_limit m \<le> m_frame m" and "m_frame m \<le> 0xffffff00"
  shows "a = get_reg (m_regs m) (reg_of_code (isa_rm (modrm_byte bs))) \<and>
         parse_emu_instruction m = Some (- ENOMEM, m)"
proof -
  obtain q p n k where pe: "parse_emu_instruction m = map_option (\<lambda>(ret, ps). emu_end ret ps) (emu_dispatch q)"
    and q: "ps_m q = add_ip k m" "orig_ip q = pt_ip (m_regs m)"
    and di: "emu_dispatch q = parse_emu_cmpxchg p \<or> emu_dispatch q = parse_emu_xadd p"
    and p: "window p (modrm_byte bs) (disp_bytes bs)" "ps_m p = add_ip (k + 1) m"
    and opd: "isa_operand (m_regs (ps_m p)) (modrm_byte bs) (disp_bytes bs) = Some (OMem a, n)"
    using modrm_dispatch [OF assms(1-3)] by metis
  have a: "a = get_reg (m_regs m) (reg_of_code (isa_rm (modrm_byte bs)))" and rm: "isa_rm (modrm_byte bs) \<noteq> 4"
    using opd assms(4,5) p(2) by (auto simp: isa_operand_def Let_def split: if_splits)
  obtain x y z where "insts p = le32 (modrm_byte bs) x y z" using p(1) by (auto simp: window_def)
  from modrm_mod0 [OF this assms(4) rm assms(5)] obtain ps' where
    "parse_modrm_register p = (1, ps')" "dest_refused ps'"
    using slot_refused [OF assms(6,7)] p(2) by (auto simp: dest_refused_def ptr_addr_def)
  with di have d: "emu_dispatch q = Some (- ENOMEM, ps')"
    by (auto simp: parse_emu_cmpxchg_def parse_emu_xadd_def)
  with emu_dispatch_frame [OF d] have "advanced q ps'" by simp
  from emu_end_restores [OF this q] d show ?thesis by (simp add: pe a)
qed

text \<open>
  C6: For an operand with an 8-bit displacement the parser computes the address of the instruction
  set only when the displacement is not negative: the byte is zero-extended, so a negative one yields
  an address 256 too high.
\<close>

theorem modrm_disp8_zero_extended:
  assumes "window ps modrm ds" and "isa_mod modrm = 1"
    and "isa_operand (m_regs (ps_m ps)) modrm ds = Some (OMem ea, n)"
  shows "\<exists>ps'. parse_modrm_register ps = (1, ps') \<and>
           inst_dest ps' = UserPtr (ea + (if 128 \<le> ds ! 0 then 256 else 0))"
proof -
  have rm: "isa_rm modrm \<noteq> 4" and ea: "ea = get_reg (m_regs (ps_m ps)) (reg_of_code (isa_rm modrm)) + scast (ds ! 0)"
    using assms(2,3) by (auto simp: isa_operand_def Let_def split: if_splits)
  have "(ucast (ds ! 0) :: u32) = scast (ds ! 0) + (if 128 \<le> ds ! 0 then 256 else 0)"
    using scast_ucast_256 scast_small by (simp add: not_le)
  with assms rm ea show ?thesis
    by (auto simp: modrm_defs rm_base_code algebra_simps)
qed

text \<open>
  C7: When the memory operand of an emulated form lies below the address limit but is not mapped,
  the emulator dereferences it in kernel mode without an exception table entry: the call does not
  return an error code but faults.
\<close>

theorem emu_unmapped_operand_faults:
  assumes "fetches m bs" and "isa_decode (m_regs m) bs = Some (i, len)" and "form_emulated bs"
    and "i = Cmpxchg (OMem a) s \<or> i = Xadd (OMem a) s"
    and "access_ok (m_limit m) a 4" and "mem_read32 (m_mem m) a = None"
  shows "parse_emu_instruction m = None"
proof -
  obtain q p n k where pe: "parse_emu_instruction m = map_option (\<lambda>(ret, ps). emu_end ret ps) (emu_dispatch q)"
    and di: "emu_dispatch q = parse_emu_cmpxchg p \<or> emu_dispatch q = parse_emu_xadd p"
    and p: "window p (modrm_byte bs) (disp_bytes bs)" "ps_m p = add_ip (k + 1) m"
    and opd: "isa_operand (m_regs (ps_m p)) (modrm_byte bs) (disp_bytes bs) = Some (OMem a, n)"
    and em: "form_emulated bs \<longrightarrow> modrm_emulated (modrm_byte bs) (disp_bytes bs ! 0)"
    using modrm_dispatch [OF assms(1,2,4)] by metis
  from em assms(3) have "modrm_emulated (modrm_byte bs) (disp_bytes bs ! 0)" by simp
  from parse_modrm_spec [OF p(1) this opd] obtain ps' where pm: "parse_modrm_register p = (1, ps')"
    and d: "inst_src ps' = RegPtr (reg_of_code (isa_reg (modrm_byte bs)))" "inst_dest ps' = UserPtr a"
      "ps_m ps' = add_ip (of_nat (Suc n)) (ps_m p)"
    by (auto simp: decoded_def op_ptr_def)
  have "\<not> dest_refused ps'" "read_ptr (ps_m ps') (inst_dest ps') = None"
    using assms(5,6) d p(2) by (simp_all add: dest_refused_def ptr_addr_def read_ptr_def)
  moreover have "read_ptr (or_flags f (clear_flags g (ps_m ps'))) (inst_dest ps') = None" for f g
    using assms(6) d p(2) by (simp add: read_ptr_def)
  ultimately have "emu_dispatch q = None"
    using di pm by (auto simp: parse_emu_cmpxchg_def parse_emu_xadd_def Let_def split: option.split)
  then show ?thesis by (simp add: pe)
qed

section \<open>Concrete runs\<close>

text \<open>
  A task with eight bytes of code at \<open>0x1000\<close>, a mapped word at \<open>0x2000\<close>, \<open>TASK_SIZE\<close> as its limit
  and its frame on a kernel stack.
\<close>

fun load_bytes :: "u32 \<Rightarrow> u8 list \<Rightarrow> memory \<Rightarrow> memory" where
  "load_bytes a [] m = m"
| "load_bytes a (b # bs) m = load_bytes (a + 1) bs (m(a \<mapsto> b))"

definition demo_regs :: pt_regs where
  "demo_regs = \<lparr>pt_bx = 0, pt_cx = 0x2000, pt_dx = 111, pt_si = 0, pt_di = 0, pt_bp = 0, pt_ax = 666,
     pt_ds = 0x7b, pt_es = 0x7b, pt_fs = 0, pt_gs = 0, pt_orig_ax = 0, pt_ip = 0x1000, pt_cs = 0x73,
     pt_flags = 0x202, pt_sp = 0xbffff000, pt_ss = 0x7b\<rparr>"

definition demo :: "u8 list \<Rightarrow> machine" where
  "demo code = \<lparr>m_regs = demo_regs,
     m_mem = load_bytes 0x2000 [0x9a, 0x02, 0, 0] (load_bytes 0x1000 code Map.empty),
     m_limit = 0xc0000000, m_frame = 0xc1000000\<rparr>"

definition demo_cmpxchg :: "u8 list" where
  "demo_cmpxchg = [0xf0, 0x0f, 0xb1, 0x15, 0x00, 0x20, 0x00, 0x00]"

definition demo_base :: "u8 list" where
  "demo_base = [0x0f, 0xc1, 0x11, 0x90, 0x90, 0x90, 0x90, 0x90]"

definition demo_unmapped :: "u8 list" where
  "demo_unmapped = [0x0f, 0xb1, 0x15, 0x00, 0x30, 0x00, 0x00, 0x90]"

lemma demo_cmpxchg_runs:
  "fetches (demo demo_cmpxchg) demo_cmpxchg"
  "isa_decode (m_regs (demo demo_cmpxchg)) demo_cmpxchg = Some (Cmpxchg (OMem 0x2000) DX, 8)"
  "form_emulated demo_cmpxchg" "operand_accessible (demo demo_cmpxchg) (Cmpxchg (OMem 0x2000) DX)"
  by code_simp+

theorem emu_refines_isa_witness:
  "\<exists>m' m2. parse_emu_instruction (demo demo_cmpxchg) = Some (1, m') \<and>
     isa_step (Cmpxchg (OMem 0x2000) DX) 8 (demo demo_cmpxchg) = Some m2 \<and>
     agree (flag_mask (Cmpxchg (OMem 0x2000) DX)) m' m2"
  using emu_refines_isa [OF demo_cmpxchg_runs] .

lemma demo_runs:
  "map_option fst (parse_emu_instruction (demo demo_base)) = Some (- ENOMEM)"
  "map_option fst (parse_emu_instruction (demo demo_cmpxchg)) = Some 1"
  by code_simp+

theorem emu_failure_rolls_back_witness:
  "\<exists>m'. parse_emu_instruction (demo demo_base) = Some (- ENOMEM, m') \<and> m' = demo demo_base"
  using demo_runs(1) emu_failure_rolls_back [of "demo demo_base" "- ENOMEM"] by auto

theorem emu_confined_witness:
  "\<exists>m'. parse_emu_instruction (demo demo_cmpxchg) = Some (1, m') \<and> confined (demo demo_cmpxchg) m'"
  using demo_runs(2) emu_confined [of "demo demo_cmpxchg" 1] by auto

theorem emu_advances_ip_witness:
  "\<exists>m'. parse_emu_instruction (demo demo_cmpxchg) = Some (1, m') \<and>
     (\<exists>j\<in>{2, 3, 4, 5, 7, 8}. pt_ip (m_regs m') = 0x1000 + j)"
proof -
  have ip: "pt_ip (m_regs (demo demo_cmpxchg)) = 0x1000" by (simp add: demo_def demo_regs_def)
  show ?thesis using demo_runs(2) emu_advances_ip [of "demo demo_cmpxchg" 1] unfolding ip by auto
qed

lemma demo_base_runs:
  "fetches (demo demo_base) demo_base"
  "isa_decode (m_regs (demo demo_base)) demo_base = Some (Xadd (OMem 0x2000) DX, 3)"
  "isa_mod (modrm_byte demo_base) = 0" "isa_rm (modrm_byte demo_base) \<noteq> 5"
  "m_limit (demo demo_base) \<le> m_frame (demo demo_base)" "m_frame (demo demo_base) \<le> 0xffffff00"
  by code_simp+

theorem emu_base_operand_refused_witness:
  "parse_emu_instruction (demo demo_base) = Some (- ENOMEM, demo demo_base)"
  using emu_base_operand_refused [OF demo_base_runs(1,2) _ demo_base_runs(3-6)] by simp

text \<open>The parser state at the ModRM byte of \<^verbatim>\<open>cmpxchg [ecx-8], edx\<close> (\<open>0f b1 51 f8\<close>).\<close>

definition demo_disp8 :: parser_state where
  "demo_disp8 = \<lparr>inst_src = UserPtr 0, inst_dest = UserPtr 0, ps_m = add_ip 2 (demo []),
     orig_ip = 0x1000, insts = le32 0x51 0xf8 0 0, insts2 = 0, regs_only = 0, lock_prefix = 0\<rparr>"

lemma demo_disp8_runs:
  "window demo_disp8 0x51 [0xf8, 0, 0, 0]" "isa_mod 0x51 = 1"
  "isa_operand (m_regs (ps_m demo_disp8)) 0x51 [0xf8, 0, 0, 0] = Some (OMem 0x1ff8, 1)"
proof -
  have "insts2 demo_disp8 = le32 0 0 0 0" by (simp add: demo_disp8_def le32_def)
  then show "window demo_disp8 0x51 [0xf8, 0, 0, 0]"
    by (auto simp: window_def demo_disp8_def demo_def demo_regs_def)
qed code_simp+

theorem modrm_disp8_zero_extended_witness:
  "\<exists>ps'. parse_modrm_register demo_disp8 = (1, ps') \<and> inst_dest ps' = UserPtr 0x20f8"
  using modrm_disp8_zero_extended [OF demo_disp8_runs] by simp

lemma demo_unmapped_runs:
  "fetches (demo demo_unmapped) demo_unmapped"
  "isa_decode (m_regs (demo demo_unmapped)) demo_unmapped = Some (Cmpxchg (OMem 0x3000) DX, 7)"
  "form_emulated demo_unmapped" "access_ok (m_limit (demo demo_unmapped)) 0x3000 4"
  "mem_read32 (m_mem (demo demo_unmapped)) 0x3000 = None"
  by code_simp+

theorem emu_unmapped_operand_faults_witness:
  "parse_emu_instruction (demo demo_unmapped) = None"
  using emu_unmapped_operand_faults [OF demo_unmapped_runs(1-3) _ demo_unmapped_runs(4,5)] by simp

end
