(* ===== verification/Lib_Sort.thy ===== *)
theory Lib_Sort
  imports Kernel_Prelude "HOL-Library.Multiset"
begin

text \<open>
  The kernel's in-place heapsort (\<^verbatim>\<open>lib/sort.c\<close>) and binary search (\<^verbatim>\<open>lib/bsearch.c\<close>). The C code
  scales its indices by the element size; here they count elements, and an array is a list. The
  comparison function is a parameter, its laws are the locale \<open>comparator\<close>.
\<close>

section \<open>Heapsort\<close>

definition swap_elems :: "nat \<Rightarrow> nat \<Rightarrow> 'a list \<Rightarrow> 'a list" where
  "swap_elems i j xs = xs[i := xs ! j, j := xs ! i]"

text \<open>The inner loop, common to both phases: \<open>n\<close> is the size of the heap, \<open>r\<close> the sinking element.\<close>

function sift :: "('a \<Rightarrow> 'a \<Rightarrow> int) \<Rightarrow> nat \<Rightarrow> nat \<Rightarrow> 'a list \<Rightarrow> 'a list" where
  "sift cmp n r xs =
     (if r * 2 + 1 < n then
        (let c = r * 2 + 1;
             c = (if c < n - 1 \<and> cmp (xs ! c) (xs ! (c + 1)) < 0 then c + 1 else c) in
         if 0 \<le> cmp (xs ! r) (xs ! c) then xs else sift cmp n c (swap_elems r c xs))
      else xs)"
  by pat_completeness auto
termination by (relation "measure (\<lambda>(cmp, n, r, xs). n - r)") auto

declare sift.simps [simp del]

text \<open>The heapify loop, for the indices below \<open>i\<close> downwards.\<close>

primrec heapify :: "('a \<Rightarrow> 'a \<Rightarrow> int) \<Rightarrow> nat \<Rightarrow> nat \<Rightarrow> 'a list \<Rightarrow> 'a list" where
  "heapify cmp n 0 xs = xs"
| "heapify cmp n (Suc i) xs = heapify cmp n i (sift cmp n i xs)"

primrec sort_loop :: "('a \<Rightarrow> 'a \<Rightarrow> int) \<Rightarrow> nat \<Rightarrow> 'a list \<Rightarrow> 'a list" where
  "sort_loop cmp 0 xs = xs"
| "sort_loop cmp (Suc i) xs = sort_loop cmp i (sift cmp (Suc i) 0 (swap_elems 0 (Suc i) xs))"

definition kernel_sort :: "('a \<Rightarrow> 'a \<Rightarrow> int) \<Rightarrow> 'a list \<Rightarrow> 'a list" where
  "kernel_sort cmp xs =
     (let num = length xs in sort_loop cmp (num - 1) (heapify cmp num (num div 2) xs))"

section \<open>Binary search\<close>

function bsearch_loop :: "('k \<Rightarrow> 'a \<Rightarrow> int) \<Rightarrow> 'k \<Rightarrow> 'a list \<Rightarrow> nat \<Rightarrow> nat \<Rightarrow> nat option" where
  "bsearch_loop cmp key xs start fin =
     (if start < fin then
        (let mid = start + (fin - start) div 2; result = cmp key (xs ! mid) in
         if result < 0 then bsearch_loop cmp key xs start mid
         else if 0 < result then bsearch_loop cmp key xs (mid + 1) fin
         else Some mid)
      else None)"
  by pat_completeness auto
termination by (relation "measure (\<lambda>(cmp, key, xs, s, e). e - s)") auto

declare bsearch_loop.simps [simp del]

definition bsearch :: "('k \<Rightarrow> 'a \<Rightarrow> int) \<Rightarrow> 'k \<Rightarrow> 'a list \<Rightarrow> nat option" where
  "bsearch cmp key xs = bsearch_loop cmp key xs 0 (length xs)"

section \<open>The sort permutes\<close>

lemma length_swap_elems [simp]: "length (swap_elems i j xs) = length xs"
  by (simp add: swap_elems_def)

lemma nth_swap_elems:
  "i < length xs \<Longrightarrow> j < length xs \<Longrightarrow> k < length xs \<Longrightarrow>
   swap_elems i j xs ! k = (if k = j then xs ! i else if k = i then xs ! j else xs ! k)"
  by (simp add: swap_elems_def nth_list_update)

lemma mset_swap_elems [simp]:
  "i < length xs \<Longrightarrow> j < length xs \<Longrightarrow> mset (swap_elems i j xs) = mset xs"
  by (simp add: swap_elems_def mset_swap)

lemma drop_swap_elems [simp]: "i < n \<Longrightarrow> j < n \<Longrightarrow> drop n (swap_elems i j xs) = drop n xs"
  by (simp add: swap_elems_def)

lemma take_swap_elems:
  "i < n \<Longrightarrow> j < n \<Longrightarrow> n \<le> length xs \<Longrightarrow> take n (swap_elems i j xs) = swap_elems i j (take n xs)"
  by (simp add: swap_elems_def take_update_swap)

lemma sift_frame:
  "n \<le> length xs \<Longrightarrow> length (sift cmp n r xs) = length xs \<and> drop n (sift cmp n r xs) = drop n xs \<and>
     mset (take n (sift cmp n r xs)) = mset (take n xs)"
proof (induction cmp n r xs rule: sift.induct)
  case (1 cmp n r xs)
  define c where "c = (if r * 2 + 1 < n - 1 \<and> cmp (xs ! (r * 2 + 1)) (xs ! (r * 2 + 1 + 1)) < 0
    then r * 2 + 1 + 1 else r * 2 + 1)"
  have s: "sift cmp n r xs = (if r * 2 + 1 < n then
      (if 0 \<le> cmp (xs ! r) (xs ! c) then xs else sift cmp n c (swap_elems r c xs)) else xs)"
    unfolding c_def by (subst sift.simps) (simp add: Let_def)
  show ?case
  proof (cases "r * 2 + 1 < n \<and> cmp (xs ! r) (xs ! c) < 0")
    case True
    then have "r < n" "c < n" by (auto simp: c_def)
    moreover have "length (sift cmp n c (swap_elems r c xs)) = length xs \<and>
        drop n (sift cmp n c (swap_elems r c xs)) = drop n (swap_elems r c xs) \<and>
        mset (take n (sift cmp n c (swap_elems r c xs))) = mset (take n (swap_elems r c xs))"
      using 1 True unfolding c_def [symmetric] by (auto simp: c_def)
    ultimately show ?thesis using True 1(2) s by (simp add: take_swap_elems)
  qed (use s in auto)
qed

lemma sift_length [simp]: "n \<le> length xs \<Longrightarrow> length (sift cmp n r xs) = length xs"
  using sift_frame by blast

lemma sift_mset [simp]: "n \<le> length xs \<Longrightarrow> mset (sift cmp n r xs) = mset xs"
  by (metis append_take_drop_id mset_append sift_frame)

lemma heapify_mset: "n \<le> length xs \<Longrightarrow> mset (heapify cmp n i xs) = mset xs \<and> length (heapify cmp n i xs) = length xs"
  by (induction i arbitrary: xs) simp_all

lemma sort_loop_mset: "i < length xs \<Longrightarrow> mset (sort_loop cmp i xs) = mset xs"
proof (induction i arbitrary: xs)
  case (Suc i)
  have "0 < length xs" using Suc(2) by linarith
  then have "mset (sift cmp (Suc i) 0 (swap_elems 0 (Suc i) xs)) = mset xs"
    "length (sift cmp (Suc i) 0 (swap_elems 0 (Suc i) xs)) = length xs"
    using Suc(2) by simp_all
  with Suc show ?case by simp
qed simp

lemma mset_kernel_sort [simp]: "mset (kernel_sort cmp xs) = mset xs"
  by (cases xs) (simp_all add: kernel_sort_def Let_def sort_loop_mset heapify_mset)

lemma length_kernel_sort [simp]: "length (kernel_sort cmp xs) = length xs"
  by (metis mset_kernel_sort size_mset)

lemma set_kernel_sort [simp]: "set (kernel_sort cmp xs) = set xs"
  by (metis mset_kernel_sort set_mset_mset)

section \<open>The sort sorts\<close>

text \<open>
  The contract of a comparison function on the elements it is used on: the sign is a total
  preorder, \<open>0 \<le> cmp x y\<close> reading as "not below".
\<close>

definition is_child :: "nat \<Rightarrow> nat \<Rightarrow> bool" where
  "is_child i c \<longleftrightarrow> c = i * 2 + 1 \<or> c = i * 2 + 2"

definition heap_from :: "('a \<Rightarrow> 'a \<Rightarrow> int) \<Rightarrow> nat \<Rightarrow> nat \<Rightarrow> 'a list \<Rightarrow> bool" where
  "heap_from cmp k n xs \<longleftrightarrow> (\<forall>i c. k \<le> i \<longrightarrow> is_child i c \<longrightarrow> c < n \<longrightarrow> 0 \<le> cmp (xs ! i) (xs ! c))"

text \<open>A heap but for the element at \<open>r\<close>, which is on its way down.\<close>

definition heap_except :: "('a \<Rightarrow> 'a \<Rightarrow> int) \<Rightarrow> nat \<Rightarrow> nat \<Rightarrow> nat \<Rightarrow> 'a list \<Rightarrow> bool" where
  "heap_except cmp k r n xs \<longleftrightarrow>
     (\<forall>i c. k \<le> i \<longrightarrow> i \<noteq> r \<longrightarrow> is_child i c \<longrightarrow> c < n \<longrightarrow> 0 \<le> cmp (xs ! i) (xs ! c)) \<and>
     (\<forall>p c. k \<le> p \<longrightarrow> is_child p r \<longrightarrow> is_child r c \<longrightarrow> c < n \<longrightarrow> 0 \<le> cmp (xs ! p) (xs ! c))"

lemma is_child_parent: "is_child i c \<Longrightarrow> is_child j c \<Longrightarrow> i = j"
  by (auto simp: is_child_def)

lemma is_child_less: "is_child i c \<Longrightarrow> i < c"
  by (auto simp: is_child_def)

lemma is_child_sibling: "is_child i c \<Longrightarrow> is_child i d \<Longrightarrow> d = c \<or> {c, d} = {i * 2 + 1, i * 2 + 2}"
  by (auto simp: is_child_def)

locale comparator =
  fixes cmp :: "'a \<Rightarrow> 'a \<Rightarrow> int" and A :: "'a set"
  assumes cmp_total: "x \<in> A \<Longrightarrow> y \<in> A \<Longrightarrow> cmp x y < 0 \<Longrightarrow> 0 \<le> cmp y x"
    and cmp_trans: "x \<in> A \<Longrightarrow> y \<in> A \<Longrightarrow> z \<in> A \<Longrightarrow> 0 \<le> cmp x y \<Longrightarrow> 0 \<le> cmp y z \<Longrightarrow> 0 \<le> cmp x z"
begin

lemma cmp_refl: "x \<in> A \<Longrightarrow> 0 \<le> cmp x x"
  using cmp_total [of x x] by linarith

text \<open>The child the loop picks is not below its sibling.\<close>

lemma larger_child:
  assumes "set xs \<subseteq> A" "n \<le> length xs" "r * 2 + 1 < n"
  defines "c \<equiv> (if r * 2 + 1 < n - 1 \<and> cmp (xs ! (r * 2 + 1)) (xs ! (r * 2 + 1 + 1)) < 0
    then r * 2 + 1 + 1 else r * 2 + 1)"
  shows "is_child r c" "c < n" "is_child r d \<Longrightarrow> d < n \<Longrightarrow> 0 \<le> cmp (xs ! c) (xs ! d)"
proof -
  have A: "k < n \<Longrightarrow> xs ! k \<in> A" for k using assms(1,2) by auto
  show "is_child r c" "c < n" using assms(3) by (auto simp: c_def is_child_def)
  assume d: "is_child r d" "d < n"
  show "0 \<le> cmp (xs ! c) (xs ! d)"
  proof (cases "d = c")
    case True
    with d A show ?thesis by (simp add: cmp_refl)
  next
    case False
    with d A assms(3) show ?thesis
      by (auto simp: c_def is_child_def cmp_total split: if_splits)
  qed
qed

lemma sink_step:
  assumes A: "set xs \<subseteq> A" and n: "n \<le> length xs" and k: "k \<le> r"
    and ex: "heap_except cmp k r n xs" and c: "is_child r c" "c < n"
    and larger: "\<And>d. is_child r d \<Longrightarrow> d < n \<Longrightarrow> 0 \<le> cmp (xs ! c) (xs ! d)"
    and lt: "cmp (xs ! r) (xs ! c) < 0"
  shows "heap_except cmp k c n (swap_elems r c xs)"
proof -
  have rc: "r < c" "r < n" "r < length xs" "c < length xs" using is_child_less [OF c(1)] c n by auto
  have nth: "i < n \<Longrightarrow> swap_elems r c xs ! i = (if i = c then xs ! r else if i = r then xs ! c else xs ! i)" for i
    using rc n by (simp add: nth_swap_elems)
  have ge: "0 \<le> cmp (xs ! c) (xs ! r)" using cmp_total [OF _ _ lt] A rc by (meson nth_mem subsetD)
  have "0 \<le> cmp (swap_elems r c xs ! i) (swap_elems r c xs ! d)"
    if i: "k \<le> i" "i \<noteq> c" "is_child i d" "d < n" for i d
  proof -
    have "i < n" using is_child_less [OF i(3)] i(4) by simp
    consider "i = r" | "i \<noteq> r" "d = r" | "i \<noteq> r" "d \<noteq> r" by blast
    then show ?thesis
    proof cases
      case 1
      with ge larger i show ?thesis using rc is_child_less [OF i(3)] by (auto simp: nth)
    next
      case 2
      with ex i c have "0 \<le> cmp (xs ! i) (xs ! c)" unfolding heap_except_def by blast
      with 2 i rc \<open>i < n\<close> show ?thesis by (simp add: nth)
    next
      case 3
      with i c have "d \<noteq> c" using is_child_parent by blast
      moreover have "0 \<le> cmp (xs ! i) (xs ! d)" using ex i 3 unfolding heap_except_def by blast
      ultimately show ?thesis using 3 i \<open>i < n\<close> by (simp add: nth)
    qed
  qed
  moreover have "0 \<le> cmp (swap_elems r c xs ! p) (swap_elems r c xs ! d)"
    if p: "k \<le> p" "is_child p c" "is_child c d" "d < n" for p d
  proof -
    have "p = r" using is_child_parent [OF p(2) c(1)] .
    moreover have "0 \<le> cmp (xs ! c) (xs ! d)"
      using ex p rc k unfolding heap_except_def by (metis le_less_trans less_imp_le less_irrefl)
    ultimately show ?thesis using is_child_less [OF p(3)] p(4) rc by (simp add: nth)
  qed
  ultimately show ?thesis unfolding heap_except_def by blast
qed

lemma sink_stop:
  assumes A: "set xs \<subseteq> A" and n: "n \<le> length xs" and ex: "heap_except cmp k r n xs"
    and stop: "\<And>d. is_child r d \<Longrightarrow> d < n \<Longrightarrow> 0 \<le> cmp (xs ! r) (xs ! d)"
  shows "heap_from cmp k n xs"
  using ex stop unfolding heap_from_def heap_except_def by blast

lemma sift_heap:
  "set xs \<subseteq> A \<Longrightarrow> n \<le> length xs \<Longrightarrow> k \<le> r \<Longrightarrow> heap_except cmp k r n xs \<Longrightarrow>
   heap_from cmp k n (sift cmp n r xs)"
proof (induction "n - r" arbitrary: r xs rule: less_induct)
  case less
  define c where "c = (if r * 2 + 1 < n - 1 \<and> cmp (xs ! (r * 2 + 1)) (xs ! (r * 2 + 1 + 1)) < 0
    then r * 2 + 1 + 1 else r * 2 + 1)"
  have s: "sift cmp n r xs = (if r * 2 + 1 < n then
      (if 0 \<le> cmp (xs ! r) (xs ! c) then xs else sift cmp n c (swap_elems r c xs)) else xs)"
    unfolding c_def by (subst sift.simps) (simp add: Let_def)
  note lc = larger_child [of xs n r, folded c_def, OF less.prems(1,2)]
  have A: "k < n \<Longrightarrow> xs ! k \<in> A" for k using less.prems by auto
  consider "\<not> r * 2 + 1 < n" | "r * 2 + 1 < n" "0 \<le> cmp (xs ! r) (xs ! c)"
    | "r * 2 + 1 < n" "cmp (xs ! r) (xs ! c) < 0" by linarith
  then show ?case
  proof cases
    case 1
    then have "\<not> (is_child r d \<and> d < n)" for d by (auto simp: is_child_def)
    with 1 s less.prems show ?thesis using sink_stop [of xs n k r] by auto
  next
    case 2
    have "0 \<le> cmp (xs ! r) (xs ! d)" if "is_child r d" "d < n" for d
      using cmp_trans [of "xs ! r" "xs ! c" "xs ! d"] lc [OF 2(1)] that 2 A by simp
    with 2 s less.prems show ?thesis using sink_stop [of xs n k r] by auto
  next
    case 3
    note c = lc(1,2) [OF 3(1)]
    have rc: "r < c" using is_child_less [OF c(1)] .
    then have "set (swap_elems r c xs) = set xs"
      using c(2) less.prems(2) by (metis mset_swap_elems order_less_trans order_less_le_trans set_mset_mset)
    moreover have "heap_except cmp k c n (swap_elems r c xs)"
      using sink_step [OF less.prems(1-4) c lc(3) 3(2)] 3(1) by blast
    ultimately have "heap_from cmp k n (sift cmp n c (swap_elems r c xs))"
      using less.hyps [of c "swap_elems r c xs"] less.prems rc c(2) by simp
    with 3 s show ?thesis by simp
  qed
qed

lemma heapify_heap:
  "set xs \<subseteq> A \<Longrightarrow> n \<le> length xs \<Longrightarrow> heap_from cmp i n xs \<Longrightarrow> heap_from cmp 0 n (heapify cmp n i xs)"
proof (induction i arbitrary: xs)
  case (Suc i)
  have "heap_except cmp i i n xs"
    using Suc.prems(3) unfolding heap_from_def heap_except_def
    by (metis Suc_leI is_child_less le_neq_implies_less not_le)
  then have "heap_from cmp i n (sift cmp n i xs)" using sift_heap Suc.prems by blast
  moreover have "set (sift cmp n i xs) = set xs" using Suc.prems(2) by (metis sift_mset set_mset_mset)
  ultimately show ?case using Suc by simp
qed simp

lemma heap_root:
  assumes "set xs \<subseteq> A" "n \<le> length xs" "heap_from cmp 0 n xs"
  shows "j < n \<Longrightarrow> 0 \<le> cmp (xs ! 0) (xs ! j)"
proof (induction j rule: less_induct)
  case (less j)
  have A: "k < n \<Longrightarrow> xs ! k \<in> A" for k using assms by auto
  show ?case
  proof (cases j)
    case 0
    with less.prems A show ?thesis by (simp add: cmp_refl)
  next
    case (Suc i)
    then have ch: "is_child (i div 2) j" by (auto simp: is_child_def)
    with assms(3) less.prems have "0 \<le> cmp (xs ! (i div 2)) (xs ! j)" by (simp add: heap_from_def)
    moreover have "i div 2 < j" using is_child_less [OF ch] .
    ultimately show ?thesis
      using less cmp_trans [of "xs ! 0" "xs ! (i div 2)" "xs ! j"] A by simp
  qed
qed

abbreviation "ordered \<equiv> sorted_wrt (\<lambda>x y. 0 \<le> cmp y x)"

definition tail_sorted :: "nat \<Rightarrow> 'a list \<Rightarrow> bool" where
  "tail_sorted i xs \<longleftrightarrow> heap_from cmp 0 i xs \<and> ordered (drop i xs) \<and>
     (\<forall>x\<in>set (take i xs). \<forall>y\<in>set (drop i xs). 0 \<le> cmp y x)"

lemma tail_sorted_step:
  assumes A: "set xs \<subseteq> A" and i: "Suc i < length xs" and t: "tail_sorted (Suc (Suc i)) xs"
  shows "tail_sorted (Suc i) (sift cmp (Suc i) 0 (swap_elems 0 (Suc i) xs))"
proof -
  let ?ys = "swap_elems 0 (Suc i) xs" and ?zs = "sift cmp (Suc i) 0 (swap_elems 0 (Suc i) xs)"
  have l: "0 < length xs" using i by linarith
  have nth: "k < length xs \<Longrightarrow> ?ys ! k = (if k = Suc i then xs ! 0 else if k = 0 then xs ! Suc i else xs ! k)" for k
    using i l by (simp add: nth_swap_elems)
  have heap: "heap_from cmp 0 (Suc (Suc i)) xs" and ord: "ordered (drop (Suc (Suc i)) xs)"
    using t by (simp_all add: tail_sorted_def)
  have le: "0 \<le> cmp y (xs ! k)" if "k < Suc (Suc i)" "y \<in> set (drop (Suc (Suc i)) xs)" for k y
  proof -
    have "xs ! k \<in> set (take (Suc (Suc i)) xs)" using that(1) i by (auto simp: in_set_conv_nth)
    with t that(2) show ?thesis by (simp add: tail_sorted_def)
  qed
  have dr: "drop (Suc i) ?ys = xs ! 0 # drop (Suc (Suc i)) xs"
    using i by (subst Cons_nth_drop_Suc [symmetric]) (simp_all add: nth)
  have sy: "set ?ys \<subseteq> A" using A i l by (metis mset_swap_elems set_mset_mset)
  have frame: "drop (Suc i) ?zs = drop (Suc i) ?ys" "mset (take (Suc i) ?zs) = mset (take (Suc i) ?ys)"
    using sift_frame [of "Suc i" ?ys cmp 0] i by auto
  have "heap_except cmp 0 0 (Suc i) ?ys"
    using heap i unfolding heap_except_def heap_from_def
    by (auto simp: nth dest: is_child_less) (metis Suc_lessD is_child_less le0 less_SucI less_trans nat_neq_iff not_less_eq nth)
  from sift_heap [OF sy _ _ this] i have "heap_from cmp 0 (Suc i) ?zs" by simp
  moreover have "ordered (drop (Suc i) ?zs)" using ord le by (auto simp: frame dr)
  moreover have "0 \<le> cmp y x" if "x \<in> set (take (Suc i) ?zs)" "y \<in> set (drop (Suc i) ?zs)" for x y
  proof -
    have "x \<in> set (take (Suc i) ?ys)" using that(1) frame(2) by (metis set_mset_mset)
    then obtain j where "j < Suc i" "x = ?ys ! j"
      using i by (auto simp: in_set_conv_nth)
    then have "x = xs ! (if j = 0 then Suc i else j)" "(if j = 0 then Suc i else j) < Suc (Suc i)"
      using i nth [of j] by simp_all
    with that(2) le heap_root [OF A _ heap] i show ?thesis by (auto simp: frame dr)
  qed
  ultimately show ?thesis by (simp add: tail_sorted_def)
qed

lemma sort_loop_sorted:
  "set xs \<subseteq> A \<Longrightarrow> i < length xs \<Longrightarrow> tail_sorted (Suc i) xs \<Longrightarrow> ordered (sort_loop cmp i xs)"
proof (induction i arbitrary: xs)
  case 0
  then show ?case by (cases xs) (auto simp: tail_sorted_def)
next
  case (Suc i)
  let ?zs = "sift cmp (Suc i) 0 (swap_elems 0 (Suc i) xs)"
  have l: "0 < length xs" using Suc.prems by linarith
  then have "mset ?zs = mset xs" using Suc.prems(2) by simp
  then have "set ?zs \<subseteq> A" using Suc.prems(1) by (metis set_mset_mset)
  with Suc tail_sorted_step [OF Suc.prems] show ?case by simp
qed

theorem kernel_sort_sorted:
  assumes "set xs \<subseteq> A"
  shows "ordered (kernel_sort cmp xs)"
proof (cases "xs = []")
  case False
  let ?n = "length xs" and ?ys = "heapify cmp (length xs) (length xs div 2) xs"
  have "heap_from cmp (?n div 2) ?n xs" by (auto simp: heap_from_def is_child_def)
  then have "heap_from cmp 0 ?n ?ys" using heapify_heap assms by blast
  moreover have "mset ?ys = mset xs" "length ?ys = ?n" using heapify_mset [of ?n xs] by auto
  moreover from this(1) have "set ?ys = set xs" by (metis set_mset_mset)
  ultimately show ?thesis using False assms sort_loop_sorted [of ?ys "?n - 1"]
    by (simp add: kernel_sort_def Let_def tail_sorted_def)
qed (simp add: kernel_sort_def)

end

section \<open>The search finds\<close>

lemma bsearch_loop_sound:
  "bsearch_loop cmp key xs a b = Some i \<Longrightarrow> a \<le> i \<and> i < b \<and> cmp key (xs ! i) = 0"
proof (induction cmp key xs a b rule: bsearch_loop.induct)
  case (1 cmp key xs a b)
  then show ?case
    by (subst (asm) (3) bsearch_loop.simps) (fastforce simp: Let_def split: if_splits)
qed

text \<open>What the search needs of the array: the sign of the comparison with the key falls along it.\<close>

definition key_sorted :: "('k \<Rightarrow> 'a \<Rightarrow> int) \<Rightarrow> 'k \<Rightarrow> 'a list \<Rightarrow> bool" where
  "key_sorted cmp key xs \<longleftrightarrow> sorted_wrt (\<lambda>x y. sgn (cmp key y) \<le> sgn (cmp key x)) xs"

lemma bsearch_loop_complete:
  "key_sorted cmp key xs \<Longrightarrow> b \<le> length xs \<Longrightarrow> bsearch_loop cmp key xs a b = None \<Longrightarrow>
   a \<le> i \<Longrightarrow> i < b \<Longrightarrow> cmp key (xs ! i) \<noteq> 0"
proof (induction cmp key xs a b rule: bsearch_loop.induct)
  case (1 cmp key xs a b)
  let ?m = "a + (b - a) div 2"
  have m: "a < b" "?m < b" using 1 by auto
  have mono: "j \<le> k \<Longrightarrow> k < b \<Longrightarrow> sgn (cmp key (xs ! k)) \<le> sgn (cmp key (xs ! j))" for j k
    using 1(3,4) by (cases "j = k") (auto simp: key_sorted_def sorted_wrt_iff_nth_less)
  consider "cmp key (xs ! ?m) < 0" | "0 < cmp key (xs ! ?m)" | "cmp key (xs ! ?m) = 0" by linarith
  then show ?case
  proof cases
    case 1
    then have "bsearch_loop cmp key xs a ?m = None"
      using "1.prems"(3) m by (subst (asm) bsearch_loop.simps) (simp add: Let_def)
    then have "i < ?m \<Longrightarrow> ?thesis" using "1.IH"(1) "1.prems" 1 m by simp
    moreover have "?m \<le> i \<Longrightarrow> ?thesis" using mono [of ?m i] 1 "1.prems"(5) by auto
    ultimately show ?thesis by linarith
  next
    case 2
    then have "bsearch_loop cmp key xs (?m + 1) b = None"
      using "1.prems"(3) m by (subst (asm) bsearch_loop.simps) (simp add: Let_def)
    then have "?m + 1 \<le> i \<Longrightarrow> ?thesis" using "1.IH"(2) "1.prems" 2 m by simp
    moreover have "i \<le> ?m \<Longrightarrow> ?thesis" using mono [of i ?m] 2 m by auto
    ultimately show ?thesis by linarith
  next
    case 3
    then show ?thesis using "1.prems"(3) m by (subst (asm) bsearch_loop.simps) (simp add: Let_def)
  qed
qed

section \<open>Properties\<close>

text \<open>
  C17: With a comparison function that is a total preorder on the elements, \<^verbatim>\<open>sort\<close> leaves the array
  a permutation of the input in ascending order.
\<close>

theorem kernel_sort_correct:
  assumes "\<And>x y. x \<in> set xs \<Longrightarrow> y \<in> set xs \<Longrightarrow> cmp x y < 0 \<Longrightarrow> 0 \<le> cmp y x"
    and "\<And>x y z. x \<in> set xs \<Longrightarrow> y \<in> set xs \<Longrightarrow> z \<in> set xs \<Longrightarrow>
           0 \<le> cmp x y \<Longrightarrow> 0 \<le> cmp y z \<Longrightarrow> 0 \<le> cmp x z"
  shows "mset (kernel_sort cmp xs) = mset xs \<and> sorted_wrt (\<lambda>x y. 0 \<le> cmp y x) (kernel_sort cmp xs)"
proof -
  have "comparator cmp (set xs)" using assms by unfold_locales blast+
  from comparator.kernel_sort_sorted [OF this] show ?thesis by simp
qed

theorem kernel_sort_correct_witness:
  "sorted_wrt (\<lambda>x y. 0 \<le> y - x) (kernel_sort (\<lambda>x y. x - y) [3, 1, 2 :: int])"
  using kernel_sort_correct [of "[3, 1, 2 :: int]" "\<lambda>x y. x - y"] by simp

text \<open>
  C18: On an array sorted for the key, \<^verbatim>\<open>bsearch\<close> returns the index of a matching element if there is
  one, and nothing otherwise.
\<close>

theorem bsearch_correct:
  assumes "key_sorted cmp key xs"
  shows "case bsearch cmp key xs of
           Some i \<Rightarrow> i < length xs \<and> cmp key (xs ! i) = 0
         | None \<Rightarrow> (\<forall>i. i < length xs \<longrightarrow> cmp key (xs ! i) \<noteq> 0)"
  using bsearch_loop_sound [of cmp key xs 0 "length xs"] bsearch_loop_complete [OF assms, of "length xs" 0]
  by (auto simp: bsearch_def split: option.split)

theorem bsearch_correct_witness:
  "case bsearch (\<lambda>k x. k - x) 5 [1, 5, 9 :: int] of
     Some i \<Rightarrow> i < 3 \<and> [1, 5, 9 :: int] ! i = 5 | None \<Rightarrow> False"
proof -
  have "key_sorted (\<lambda>k x. k - x) 5 [1, 5, 9 :: int]" by (simp add: key_sorted_def)
  from bsearch_correct [OF this] show ?thesis
    by (auto split: option.splits dest: spec [of _ 1])
qed

end
