(* ===== verification/Extable.thy ===== *)
theory Extable
  imports Lib_Sort I486_Emu
begin

text \<open>
  The kernel exception table (\<^verbatim>\<open>arch/x86/mm/extable.c\<close>, \<^verbatim>\<open>kernel/extable.c\<close>): entries with
  self-relative addresses, sorted once at boot and searched on every kernel fault. A table is a list
  of entries that lies at the address \<open>base\<close>; an entry takes eight bytes. Modules are not configured,
  so the main table is the only one.
\<close>

section \<open>Definitions\<close>

record exception_table_entry =
  ex_insn :: u32
  ex_fixup :: u32

text \<open>The addresses of the fields of entry \<open>i\<close>, and what the fields denote relative to them.\<close>

definition ex_insn_addr :: "u32 \<Rightarrow> nat \<Rightarrow> exception_table_entry \<Rightarrow> u32" where
  "ex_insn_addr base i x = (base + 8 * of_nat i) + ex_insn x"

definition ex_fixup_addr :: "u32 \<Rightarrow> nat \<Rightarrow> exception_table_entry \<Rightarrow> u32" where
  "ex_fixup_addr base i x = (base + 8 * of_nat i + 4) + ex_fixup x"

function search_extable ::
  "u32 \<Rightarrow> exception_table_entry list \<Rightarrow> int \<Rightarrow> int \<Rightarrow> u32 \<Rightarrow> nat option" where
  "search_extable base xs first_p last_p value =
     (if first_p \<le> last_p then
        (let mid = (last_p - first_p) div 2 + first_p;
             addr = ex_insn_addr base (nat mid) (xs ! nat mid) in
         if addr < value then search_extable base xs (mid + 1) last_p value
         else if value < addr then search_extable base xs first_p (mid - 1) value
         else Some (nat mid))
      else None)"
  by pat_completeness auto
termination by (relation "measure (\<lambda>(b, xs, f, l, v). nat (l - f + 1))") auto

declare search_extable.simps [simp del]

definition search_exception_tables :: "u32 \<Rightarrow> exception_table_entry list \<Rightarrow> u32 \<Rightarrow> nat option" where
  "search_exception_tables base xs addr = search_extable base xs 0 (int (length xs) - 1) addr"

definition cmp_ex :: "exception_table_entry \<Rightarrow> exception_table_entry \<Rightarrow> int" where
  "cmp_ex x y = sint (ex_insn x - ex_insn y)"

fun normalize :: "u32 \<Rightarrow> exception_table_entry list \<Rightarrow> exception_table_entry list" where
  "normalize i [] = []"
| "normalize i (p # ps) =
     p\<lparr>ex_insn := ex_insn p + i, ex_fixup := ex_fixup p + (i + 4)\<rparr> # normalize (i + 4 + 4) ps"

fun denormalize :: "u32 \<Rightarrow> exception_table_entry list \<Rightarrow> exception_table_entry list" where
  "denormalize i [] = []"
| "denormalize i (p # ps) =
     p\<lparr>ex_insn := ex_insn p - i, ex_fixup := ex_fixup p - (i + 4)\<rparr> # denormalize (i + 4 + 4) ps"

definition sort_extable :: "exception_table_entry list \<Rightarrow> exception_table_entry list" where
  "sort_extable xs = denormalize 0 (kernel_sort cmp_ex (normalize 0 xs))"

text \<open>
  The boot-time sort runs only when the link has not sorted the table: \<^verbatim>\<open>main_extable_sort_needed\<close> is cleared by
  \<^verbatim>\<open>scripts/sortextable\<close> in the configuration of the repository (\<^verbatim>\<open>CONFIG_BUILDTIME_EXTABLE_SORT\<close>), and is an
  argument here.
\<close>

definition sort_main_extable :: "u32 \<Rightarrow> exception_table_entry list \<Rightarrow> exception_table_entry list" where
  "sort_main_extable main_extable_sort_needed xs =
     (if main_extable_sort_needed \<noteq> 0 then sort_extable xs else xs)"

text \<open>
  \<^verbatim>\<open>fixup_exception\<close> returns whether it found an entry, the registers, and the thread's
  \<^verbatim>\<open>uaccess_err\<close>.
\<close>

definition uaccess_hack :: "exception_table_entry \<Rightarrow> bool" where
  "uaccess_hack x \<longleftrightarrow> 0x7ffffff0 - 4 \<le> sint (ex_fixup x - ex_insn x)"

definition fixup_exception ::
  "u32 \<Rightarrow> exception_table_entry list \<Rightarrow> pt_regs \<Rightarrow> bool \<Rightarrow> int \<times> pt_regs \<times> bool" where
  "fixup_exception base xs regs uaccess_err =
     (case search_exception_tables base xs (pt_ip regs) of
        Some i \<Rightarrow>
          (let new_ip = ex_fixup_addr base i (xs ! i) in
           if uaccess_hack (xs ! i) then (1, regs\<lparr>pt_ip := new_ip - 0x7ffffff0\<rparr>, True)
           else (1, regs\<lparr>pt_ip := new_ip\<rparr>, uaccess_err))
      | None \<Rightarrow> (0, regs, uaccess_err))"

definition early_fixup_exception :: "u32 \<Rightarrow> exception_table_entry list \<Rightarrow> u32 \<Rightarrow> int \<times> u32" where
  "early_fixup_exception base xs ip =
     (case search_exception_tables base xs ip of
        Some i \<Rightarrow> (if uaccess_hack (xs ! i) then (0, ip) else (1, ex_fixup_addr base i (xs ! i)))
      | None \<Rightarrow> (0, ip))"

text \<open>
  The assembler macros that make entries: \<^verbatim>\<open>_ASM_EXTABLE\<close> and, with the flag, \<^verbatim>\<open>_ASM_EXTABLE_EX\<close>; \<open>dot\<close>
  is the entry's address.
\<close>

definition ASM_EXTABLE :: "u32 \<Rightarrow> u32 \<times> u32 \<times> bool \<Rightarrow> exception_table_entry" where
  "ASM_EXTABLE dot = (\<lambda>(from, to, ex).
     \<lparr>ex_insn = from - dot, ex_fixup = to - (dot + 4) + (if ex then 0x7ffffff0 else 0)\<rparr>)"

fun link_extable :: "u32 \<Rightarrow> (u32 \<times> u32 \<times> bool) list \<Rightarrow> exception_table_entry list" where
  "link_extable dot [] = []"
| "link_extable dot (f # fs) = ASM_EXTABLE dot f # link_extable (dot + 8) fs"

section \<open>Sorting\<close>

text \<open>The entries the comparison is meant for: offsets within one GiB of the table.\<close>

definition near :: "exception_table_entry \<Rightarrow> bool" where
  "near e \<longleftrightarrow> - (2 ^ 30) \<le> sint (ex_insn e) \<and> sint (ex_insn e) < 2 ^ 30"

lemma cmp_ex_near:
  assumes "near x" "near y"
  shows "cmp_ex x y = sint (ex_insn x) - sint (ex_insn y)"
proof -
  have "ex_insn x - ex_insn y = word_of_int (sint (ex_insn x) - sint (ex_insn y))" by simp
  then have "cmp_ex x y = signed_take_bit 31 (sint (ex_insn x) - sint (ex_insn y))"
    unfolding cmp_ex_def by (metis sint_word_of_int_32)
  also have "\<dots> = sint (ex_insn x) - sint (ex_insn y)"
    using assms by (intro signed_take_bit_int_eq_self) (auto simp: near_def)
  finally show ?thesis .
qed

interpretation ex: comparator cmp_ex "{e. near e}"
  by unfold_locales (simp_all add: cmp_ex_near)

lemma length_normalize [simp]: "length (normalize i xs) = length xs"
  by (induction xs arbitrary: i) simp_all

lemma length_denormalize [simp]: "length (denormalize i xs) = length xs"
  by (induction xs arbitrary: i) simp_all

lemma normalize_denormalize [simp]: "normalize i (denormalize i xs) = xs"
  by (induction xs arbitrary: i) simp_all

lemma normalize_nth:
  "k < length xs \<Longrightarrow> normalize i xs ! k =
     (xs ! k)\<lparr>ex_insn := ex_insn (xs ! k) + (i + 8 * of_nat k), ex_fixup := ex_fixup (xs ! k) + (i + 8 * of_nat k + 4)\<rparr>"
  by (induction xs arbitrary: i k) (auto simp: nth_Cons' algebra_simps gr0_conv_Suc)

lemma normalize_addrs:
  assumes "k < length xs"
  shows "ex_insn_addr base k (xs ! k) = base + ex_insn (normalize 0 xs ! k)"
    "ex_fixup_addr base k (xs ! k) = base + ex_fixup (normalize 0 xs ! k)"
    "uaccess_hack (xs ! k) \<longleftrightarrow> 0x7ffffff0 - 4 \<le> sint (ex_fixup (normalize 0 xs ! k) - ex_insn (normalize 0 xs ! k) - 4)"
  using assms by (simp_all add: normalize_nth ex_insn_addr_def ex_fixup_addr_def uaccess_hack_def algebra_simps)

lemma normalize_sort_extable: "normalize 0 (sort_extable xs) = kernel_sort cmp_ex (normalize 0 xs)"
  by (simp add: sort_extable_def)

lemma length_sort_extable [simp]: "length (sort_extable xs) = length xs"
  by (simp add: sort_extable_def)

lemma uint_word_of_int_32: "uint (word_of_int k :: u32) = take_bit 32 k"
  by (simp add: unsigned_of_int)

text \<open>A normalized entry whose instruction address neither wraps nor lies too far away.\<close>

definition in_window :: "u32 \<Rightarrow> exception_table_entry \<Rightarrow> bool" where
  "in_window base e \<longleftrightarrow>
     near e \<and> 0 \<le> uint base + sint (ex_insn e) \<and> uint base + sint (ex_insn e) < 2 ^ 32"

lemma uint_in_window:
  assumes "in_window base e"
  shows "uint (base + ex_insn e) = uint base + sint (ex_insn e)"
proof -
  have "base + ex_insn e = word_of_int (uint base + sint (ex_insn e))" by simp
  then have "uint (base + ex_insn e) = take_bit 32 (uint base + sint (ex_insn e))"
    by (metis uint_word_of_int_32)
  with assms show ?thesis by (simp add: in_window_def take_bit_int_eq_self)
qed

definition insn_sorted :: "u32 \<Rightarrow> exception_table_entry list \<Rightarrow> bool" where
  "insn_sorted base xs \<longleftrightarrow>
     (\<forall>j k. j \<le> k \<longrightarrow> k < length xs \<longrightarrow> ex_insn_addr base j (xs ! j) \<le> ex_insn_addr base k (xs ! k))"

lemma sort_extable_sorted:
  assumes "\<forall>e\<in>set (normalize 0 xs). in_window base e"
  shows "insn_sorted base (sort_extable xs)"
  unfolding insn_sorted_def
proof (intro allI impI)
  fix j k :: nat assume jk: "j \<le> k" "k < length (sort_extable xs)"
  let ?zs = "kernel_sort cmp_ex (normalize 0 xs)"
  have w: "in_window base (?zs ! i)" if "i < length xs" for i
    using assms that by (metis length_kernel_sort length_normalize nth_mem set_kernel_sort)
  have "sorted_wrt (\<lambda>x y. 0 \<le> cmp_ex y x) ?zs"
    using assms by (intro ex.kernel_sort_sorted) (auto simp: in_window_def)
  then have "0 \<le> cmp_ex (?zs ! k) (?zs ! j)"
    using jk w [of k] by (cases "j = k") (auto simp: sorted_wrt_iff_nth_less in_window_def cmp_ex_near)
  then have "sint (ex_insn (?zs ! j)) \<le> sint (ex_insn (?zs ! k))"
    using w [of j] w [of k] jk by (simp add: cmp_ex_near in_window_def)
  then show "ex_insn_addr base j (sort_extable xs ! j) \<le> ex_insn_addr base k (sort_extable xs ! k)"
    using jk w [of j] w [of k]
    by (simp add: normalize_addrs normalize_sort_extable word_le_def uint_in_window)
qed

section \<open>Searching\<close>

lemma search_extable_sound:
  "search_extable base xs f l v = Some i \<Longrightarrow> 0 \<le> f \<Longrightarrow>
   f \<le> int i \<and> int i \<le> l \<and> ex_insn_addr base i (xs ! i) = v"
proof (induction base xs f l v rule: search_extable.induct)
  case (1 base xs f l v)
  let ?m = "(l - f) div 2 + f"
  have fl: "f \<le> l" using "1.prems"(1) by (subst (asm) search_extable.simps) (simp split: if_splits)
  then have m: "f \<le> ?m" "?m \<le> l" by auto
  consider "ex_insn_addr base (nat ?m) (xs ! nat ?m) < v" | "v < ex_insn_addr base (nat ?m) (xs ! nat ?m)"
    | "ex_insn_addr base (nat ?m) (xs ! nat ?m) = v" by fastforce
  then show ?case
  proof cases
    case 1
    then have "search_extable base xs (?m + 1) l v = Some i"
      using "1.prems"(1) fl by (subst (asm) search_extable.simps) (simp add: Let_def)
    moreover have "0 \<le> ?m + 1" using m "1.prems"(2) by linarith
    ultimately have "?m + 1 \<le> int i \<and> int i \<le> l \<and> ex_insn_addr base i (xs ! i) = v"
      by (rule "1.IH"(1) [OF fl refl refl 1])
    with m show ?thesis by linarith
  next
    case 2
    have nl: "\<not> ex_insn_addr base (nat ?m) (xs ! nat ?m) < v" using 2 by (rule order_less_not_sym)
    from 2 have "search_extable base xs f (?m - 1) v = Some i"
      using "1.prems"(1) fl nl by (subst (asm) search_extable.simps) (simp add: Let_def)
    then have "f \<le> int i \<and> int i \<le> ?m - 1 \<and> ex_insn_addr base i (xs ! i) = v"
      using "1.IH"(2) [OF fl refl refl nl 2] "1.prems"(2) by blast
    with m show ?thesis by linarith
  next
    case 3
    then have "i = nat ?m"
      using "1.prems"(1) fl by (subst (asm) search_extable.simps) (simp add: Let_def)
    with 3 m "1.prems"(2) show ?thesis by simp
  qed
qed

lemma search_extable_complete:
  "search_extable base xs f l v = None \<Longrightarrow> insn_sorted base xs \<Longrightarrow> 0 \<le> f \<Longrightarrow> l < int (length xs) \<Longrightarrow>
   f \<le> int i \<Longrightarrow> int i \<le> l \<Longrightarrow> ex_insn_addr base i (xs ! i) \<noteq> v"
proof (induction base xs f l v rule: search_extable.induct)
  case (1 base xs f l v)
  let ?m = "(l - f) div 2 + f" and ?a = "\<lambda>k. ex_insn_addr base k (xs ! k)"
  have fl: "f \<le> l" using "1.prems" by simp
  then have m: "f \<le> ?m" "?m \<le> l" by auto
  have mono: "?a j \<le> ?a k" if "j \<le> k" "int k \<le> l" for j k
    using "1.prems"(2,4) that by (simp add: insn_sorted_def)
  consider "?a (nat ?m) < v" | "v < ?a (nat ?m)" | "?a (nat ?m) = v" by fastforce
  then show ?case
  proof cases
    case 1
    then have "search_extable base xs (?m + 1) l v = None"
      using "1.prems"(1) fl by (subst (asm) search_extable.simps) (simp add: Let_def)
    moreover have "0 \<le> ?m + 1" using m "1.prems"(3) by linarith
    ultimately have "?m + 1 \<le> int i \<Longrightarrow> ?thesis"
      using "1.IH"(1) [OF fl refl refl 1] "1.prems"(2,4,6) by blast
    moreover have "?a i \<le> ?a (nat ?m)" if "int i \<le> ?m" using mono [of i "nat ?m"] that m "1.prems"(3) by simp
    ultimately show ?thesis using 1 by fastforce
  next
    case 2
    have nl: "\<not> ?a (nat ?m) < v" using 2 by (rule order_less_not_sym)
    from 2 have "search_extable base xs f (?m - 1) v = None"
      using "1.prems"(1) fl nl by (subst (asm) search_extable.simps) (simp add: Let_def)
    moreover have "?m - 1 < int (length xs)" using m "1.prems"(4) by linarith
    ultimately have "int i \<le> ?m - 1 \<Longrightarrow> ?thesis"
      using "1.IH"(2) [OF fl refl refl nl 2] "1.prems"(2,3,5) by blast
    moreover have "?a (nat ?m) \<le> ?a i" if "?m \<le> int i" using mono [of "nat ?m" i] that m "1.prems" by simp
    ultimately show ?thesis using 2 by fastforce
  next
    case 3
    then show ?thesis
      using "1.prems"(1) fl by (subst (asm) search_extable.simps) (simp add: Let_def)
  qed
qed

section \<open>From the assembler to the fault handler\<close>

text \<open>An entry made by the macros, relative to the start of the table.\<close>

definition linked :: "u32 \<Rightarrow> u32 \<times> u32 \<times> bool \<Rightarrow> exception_table_entry" where
  "linked base = (\<lambda>(from, to, ex).
     \<lparr>ex_insn = from - base, ex_fixup = to - base + (if ex then 0x7ffffff0 else 0)\<rparr>)"

text \<open>
  What the link provides: the faulting instruction is within reach of the table; an ordinary fixup is
  less than 1 GiB away from it, one that also reports the error follows it directly.
\<close>

definition link_ok :: "u32 \<Rightarrow> u32 \<times> u32 \<times> bool \<Rightarrow> bool" where
  "link_ok base f \<longleftrightarrow> in_window base (linked base f) \<and>
     (case f of (from, to, ex) \<Rightarrow>
        if ex then unat (to - from) \<le> 15 else - (2 ^ 30) \<le> sint (to - from) \<and> sint (to - from) < 2 ^ 30)"

lemma length_link_extable [simp]: "length (link_extable dot fs) = length fs"
  by (induction fs arbitrary: dot) simp_all

lemma normalize_link: "normalize i (link_extable (base + i) fs) = map (linked base) fs"
proof (induction fs arbitrary: i)
  case (Cons f fs)
  from Cons [of "i + 8"] show ?case
    by (cases f) (simp add: ASM_EXTABLE_def linked_def algebra_simps)
qed simp

lemma hack_linked:
  assumes "link_ok base (from, to, ex)"
  shows "0x7ffffff0 - 4 \<le> sint (ex_fixup (linked base (from, to, ex)) - ex_insn (linked base (from, to, ex)) - 4) \<longleftrightarrow> ex"
proof (cases ex)
  case True
  have "unat (to - from) \<le> 15" using assms True by (simp add: link_ok_def)
  then have "int (unat (to - from)) \<le> 15" by linarith
  then have "uint (to - from) \<le> 15" by simp
  then have "sint (to - from + 0x7fffffec) = uint (to - from) + 0x7fffffec"
    by (intro sint_32_eqI) simp_all
  with True show ?thesis by (simp add: linked_def algebra_simps)
next
  case False
  have "sint (to - from - 4) = sint (to - from) - 4"
    using assms False by (intro sint_32_eqI) (auto simp: link_ok_def)
  with False assms show ?thesis by (simp add: linked_def link_ok_def)
qed

lemma sorted_link_nth:
  fixes base :: u32
  assumes "i < length fs"
  defines "xs \<equiv> sort_extable (link_extable base fs)"
  obtains a b ex where "(a, b, ex) \<in> set fs" "normalize 0 xs ! i = linked base (a, b, ex)"
    "ex_insn_addr base i (xs ! i) = a"
    "ex_fixup_addr base i (xs ! i) = b + (if ex then 0x7ffffff0 else 0)"
proof -
  have nz: "normalize 0 xs = kernel_sort cmp_ex (map (linked base) fs)"
    using normalize_link [of 0 base fs] by (simp add: xs_def normalize_sort_extable)
  have l: "i < length xs" using assms by (metis length_kernel_sort length_map length_normalize nz)
  have "normalize 0 xs ! i \<in> linked base ` set fs"
    using l by (metis length_normalize list.set_map nth_mem nz set_kernel_sort)
  then obtain a b ex where f: "(a, b, ex) \<in> set fs" "normalize 0 xs ! i = linked base (a, b, ex)"
    by fastforce
  then show thesis using that [OF f] l by (simp add: normalize_addrs linked_def)
qed

lemma fixup_linked:
  assumes "\<forall>f\<in>set fs. link_ok base f" and "distinct (map fst fs)"
  shows "fixup_exception base (sort_extable (link_extable base fs)) regs err =
     (case map_of fs (pt_ip regs) of
        None \<Rightarrow> (0, regs, err)
      | Some (to, ex) \<Rightarrow> (1, regs\<lparr>pt_ip := to\<rparr>, err \<or> ex))"
proof -
  let ?xs = "sort_extable (link_extable base fs)"
  have nz: "normalize 0 ?xs = kernel_sort cmp_ex (map (linked base) fs)"
    using normalize_link [of 0 base fs] by (simp add: normalize_sort_extable)
  have len: "length ?xs = length fs" by (metis length_kernel_sort length_map length_normalize nz)
  have "\<forall>e\<in>set (normalize 0 (link_extable base fs)). in_window base e"
    using normalize_link [of 0 base fs] assms(1) by (auto simp: link_ok_def)
  from sort_extable_sorted [OF this] have sorted: "insn_sorted base ?xs" .
  show ?thesis
  proof (cases "search_exception_tables base ?xs (pt_ip regs)")
    case None
    have "pt_ip regs \<notin> fst ` set fs"
    proof
      assume "pt_ip regs \<in> fst ` set fs"
      then obtain to ex where f: "(pt_ip regs, to, ex) \<in> set fs" by fastforce
      then have "linked base (pt_ip regs, to, ex) \<in> set (normalize 0 ?xs)" by (simp add: nz)
      then obtain i where i: "i < length fs" "normalize 0 ?xs ! i = linked base (pt_ip regs, to, ex)"
        by (metis in_set_conv_nth len length_normalize)
      then have "ex_insn_addr base i (?xs ! i) = pt_ip regs" by (simp add: normalize_addrs len linked_def)
      moreover have "ex_insn_addr base i (?xs ! i) \<noteq> pt_ip regs"
        using search_extable_complete [OF None [unfolded search_exception_tables_def] sorted, of i] i len by simp
      ultimately show False by simp
    qed
    then have "map_of fs (pt_ip regs) = None" by (simp add: map_of_eq_None_iff)
    with None show ?thesis by (simp add: fixup_exception_def)
  next
    case (Some i)
    then have "search_extable base ?xs 0 (int (length ?xs) - 1) (pt_ip regs) = Some i"
      by (simp only: search_exception_tables_def)
    from search_extable_sound [OF this] have "int i \<le> int (length ?xs) - 1"
      and ip: "ex_insn_addr base i (?xs ! i) = pt_ip regs" by simp_all
    then have i: "i < length fs" using len by simp
    obtain a b ex where f: "(a, b, ex) \<in> set fs" "normalize 0 ?xs ! i = linked base (a, b, ex)"
      "ex_insn_addr base i (?xs ! i) = a" "ex_fixup_addr base i (?xs ! i) = b + (if ex then 0x7ffffff0 else 0)"
      using sorted_link_nth [OF i] .
    with ip assms(2) have "map_of fs (pt_ip regs) = Some (b, ex)" by (simp add: map_of_is_SomeI)
    moreover have "uaccess_hack (?xs ! i) \<longleftrightarrow> ex"
      using hack_linked [of base a b ex] assms(1) f(1,2) i len by (simp add: normalize_addrs)
    ultimately show ?thesis using Some f(4) by (simp add: fixup_exception_def)
  qed
qed

text \<open>
  C8: With the table as the assembler macros emit it, sorted at boot, a kernel fault is resumed at
  the fixup address recorded for the faulting instruction, with \<^verbatim>\<open>uaccess_err\<close> set exactly for the
  entries that ask for it, and a fault at any other address is not fixed up.
\<close>

theorem fixup_exception_linked:
  assumes "\<forall>f\<in>set fs. link_ok base f" and "distinct (map fst fs)"
  shows "fixup_exception base (sort_extable (link_extable base fs)) regs err =
     (case map_of fs (pt_ip regs) of
        None \<Rightarrow> (0, regs, err)
      | Some (to, ex) \<Rightarrow> (1, regs\<lparr>pt_ip := to\<rparr>, err \<or> ex))"
  using assms by (rule fixup_linked)

text \<open>A table of three entries out of order, the last one of the reporting kind.\<close>

definition demo_faults :: "(u32 \<times> u32 \<times> bool) list" where
  "demo_faults = [(0xc0102000, 0xc0300000, False), (0xc0101000, 0xc0300010, False), (0xc0101800, 0xc0101803, True)]"

lemma demo_faults_ok: "list_all (link_ok 0xc0400000) demo_faults" "distinct (map fst demo_faults)"
  by code_simp+

theorem fixup_exception_linked_witness:
  "\<forall>regs. fixup_exception 0xc0400000 (sort_extable (link_extable 0xc0400000 demo_faults))
     (regs\<lparr>pt_ip := 0xc0101800\<rparr>) False = (1, regs\<lparr>pt_ip := 0xc0101803\<rparr>, True)"
proof
  fix regs
  show "fixup_exception 0xc0400000 (sort_extable (link_extable 0xc0400000 demo_faults))
     (regs\<lparr>pt_ip := 0xc0101800\<rparr>) False = (1, regs\<lparr>pt_ip := 0xc0101803\<rparr>, True)"
    using fixup_exception_linked [of demo_faults "0xc0400000" "regs\<lparr>pt_ip := 0xc0101800\<rparr>" False] demo_faults_ok
    by (simp add: list_all_iff demo_faults_def)
qed

end
