(* ===== verification/Notifier.thy ===== *)
theory Notifier
  imports Kernel_Prelude
begin

text \<open>
  Notifier chains (\<^verbatim>\<open>kernel/notifier.c\<close>): singly linked lists of callbacks ordered by priority. The
  blocks live in a heap addressed by 32-bit pointers, 0 being \<^verbatim>\<open>NULL\<close>; the loops walk a pointer to
  a pointer, so a position in a chain is a slot, the head or the \<^verbatim>\<open>next\<close> field of a block. The loops
  need not end on a cyclic chain, hence \<open>partial_function\<close>; on the chains that registration can
  build they do.
\<close>

section \<open>Definitions\<close>

record nheap =
  nh_head :: u32
  nb_next :: "u32 \<Rightarrow> u32"
  nb_priority :: "u32 \<Rightarrow> int"

datatype nslot = Head | NextOf u32

fun slot_get :: "nheap \<Rightarrow> nslot \<Rightarrow> u32" where
  "slot_get h Head = nh_head h"
| "slot_get h (NextOf p) = nb_next h p"

fun slot_set :: "nslot \<Rightarrow> u32 \<Rightarrow> nheap \<Rightarrow> nheap" where
  "slot_set Head v h = h\<lparr>nh_head := v\<rparr>"
| "slot_set (NextOf p) v h = h\<lparr>nb_next := (nb_next h)(p := v)\<rparr>"

definition link_at :: "nslot \<Rightarrow> u32 \<Rightarrow> nheap \<Rightarrow> nheap" where
  "link_at nl n h = slot_set nl n (h\<lparr>nb_next := (nb_next h)(n := slot_get h nl)\<rparr>)"

partial_function (option) notifier_chain_register ::
  "nslot \<Rightarrow> u32 \<Rightarrow> nheap \<Rightarrow> (int \<times> nheap) option" where
  "notifier_chain_register nl n h =
     (let p = slot_get h nl in
      if p \<noteq> 0 then
        (if nb_priority h p < nb_priority h n then Some (0, link_at nl n h)
         else notifier_chain_register (NextOf p) n h)
      else Some (0, link_at nl n h))"

partial_function (option) notifier_chain_cond_register ::
  "nslot \<Rightarrow> u32 \<Rightarrow> nheap \<Rightarrow> (int \<times> nheap) option" where
  "notifier_chain_cond_register nl n h =
     (let p = slot_get h nl in
      if p \<noteq> 0 then
        (if p = n then Some (0, h)
         else if nb_priority h p < nb_priority h n then Some (0, link_at nl n h)
         else notifier_chain_cond_register (NextOf p) n h)
      else Some (0, link_at nl n h))"

partial_function (option) notifier_chain_unregister ::
  "nslot \<Rightarrow> u32 \<Rightarrow> nheap \<Rightarrow> (int \<times> nheap) option" where
  "notifier_chain_unregister nl n h =
     (let p = slot_get h nl in
      if p \<noteq> 0 then
        (if p = n then Some (0, slot_set nl (nb_next h n) h)
         else notifier_chain_unregister (NextOf p) n h)
      else Some (- ENOENT, h))"

definition NOTIFY_DONE :: u32 where "NOTIFY_DONE = 0x0000"
definition NOTIFY_OK :: u32 where "NOTIFY_OK = 0x0001"
definition NOTIFY_STOP_MASK :: u32 where "NOTIFY_STOP_MASK = 0x8000"
definition NOTIFY_BAD :: u32 where "NOTIFY_BAD = NOTIFY_STOP_MASK OR 0x0002"
definition NOTIFY_STOP :: u32 where "NOTIFY_STOP = NOTIFY_OK OR NOTIFY_STOP_MASK"

text \<open>
  The callbacks are a parameter: what block \<open>nb\<close> answers and does to the state when called with the
  event. The loop carries \<open>nr_to_call\<close> (negative: no limit), the number of calls made, and the last
  answer.
\<close>

partial_function (option) notifier_call_loop ::
  "(u32 \<Rightarrow> 'v \<Rightarrow> 's \<Rightarrow> u32 \<times> 's) \<Rightarrow> nheap \<Rightarrow> u32 \<Rightarrow> 'v \<Rightarrow> int \<Rightarrow> nat \<Rightarrow> u32 \<Rightarrow> 's \<Rightarrow> (u32 \<times> nat \<times> 's) option" where
  "notifier_call_loop call h nb v nr_to_call nr_calls ret s =
     (if nb \<noteq> 0 \<and> nr_to_call \<noteq> 0 then
        (let next_nb = nb_next h nb; (ret, s) = call nb v s; nr_calls = nr_calls + 1 in
         if ret AND NOTIFY_STOP_MASK = NOTIFY_STOP_MASK then Some (ret, nr_calls, s)
         else notifier_call_loop call h next_nb v (nr_to_call - 1) nr_calls ret s)
      else Some (ret, nr_calls, s))"

definition notifier_call_chain ::
  "(u32 \<Rightarrow> 'v \<Rightarrow> 's \<Rightarrow> u32 \<times> 's) \<Rightarrow> nheap \<Rightarrow> 'v \<Rightarrow> int \<Rightarrow> 's \<Rightarrow> (u32 \<times> nat \<times> 's) option" where
  "notifier_call_chain call h v nr_to_call s =
     notifier_call_loop call h (nh_head h) v nr_to_call 0 NOTIFY_DONE s"

text \<open>The atomic variants take the lock around the core routines and pass no limit.\<close>

definition atomic_notifier_chain_register :: "u32 \<Rightarrow> nheap \<Rightarrow> (int \<times> nheap) option" where
  "atomic_notifier_chain_register n h = notifier_chain_register Head n h"

definition atomic_notifier_chain_unregister :: "u32 \<Rightarrow> nheap \<Rightarrow> (int \<times> nheap) option" where
  "atomic_notifier_chain_unregister n h = notifier_chain_unregister Head n h"

definition atomic_notifier_call_chain ::
  "(u32 \<Rightarrow> 'v \<Rightarrow> 's \<Rightarrow> u32 \<times> 's) \<Rightarrow> nheap \<Rightarrow> 'v \<Rightarrow> 's \<Rightarrow> (u32 \<times> 's) option" where
  "atomic_notifier_call_chain call h v s =
     map_option (\<lambda>(ret, _, s). (ret, s)) (notifier_call_chain call h v (- 1) s)"

definition blocking_notifier_chain_cond_register :: "u32 \<Rightarrow> nheap \<Rightarrow> (int \<times> nheap) option" where
  "blocking_notifier_chain_cond_register n h = notifier_chain_cond_register Head n h"

section \<open>Chains as lists\<close>

primrec chain :: "(u32 \<Rightarrow> u32) \<Rightarrow> u32 \<Rightarrow> u32 list \<Rightarrow> bool" where
  "chain f p [] \<longleftrightarrow> p = 0"
| "chain f p (x # xs) \<longleftrightarrow> p = x \<and> x \<noteq> 0 \<and> chain f (f x) xs"

lemma chain_upd [simp]: "n \<notin> set xs \<Longrightarrow> chain (f(n := v)) p xs = chain f p xs"
  by (induction xs arbitrary: p) auto

lemma chain_unique: "chain f p xs \<Longrightarrow> chain f p ys \<Longrightarrow> xs = ys"
proof (induction xs arbitrary: p ys)
  case Nil
  then show ?case by (cases ys) auto
next
  case (Cons x xs)
  then show ?case by (cases ys) auto
qed

text \<open>Where registration puts a block: behind every block of at least its priority.\<close>

fun insort_nb :: "(u32 \<Rightarrow> int) \<Rightarrow> u32 \<Rightarrow> u32 list \<Rightarrow> u32 list" where
  "insort_nb prio n [] = [n]"
| "insort_nb prio n (x # xs) = (if prio x < prio n then n # x # xs else x # insort_nb prio n xs)"

abbreviation by_priority :: "(u32 \<Rightarrow> int) \<Rightarrow> u32 list \<Rightarrow> bool" where
  "by_priority prio \<equiv> sorted_wrt (\<lambda>x y. prio y \<le> prio x)"

lemma set_insort_nb [simp]: "set (insort_nb prio n xs) = insert n (set xs)"
  by (induction xs) auto

lemma distinct_insort_nb: "distinct xs \<Longrightarrow> n \<notin> set xs \<Longrightarrow> distinct (insort_nb prio n xs)"
  by (induction xs) auto

lemma by_priority_insort_nb: "by_priority prio xs \<Longrightarrow> by_priority prio (insort_nb prio n xs)"
  by (induction xs) (auto simp: not_less intro: order_trans)

fun slot_in :: "nslot \<Rightarrow> u32 set \<Rightarrow> bool" where
  "slot_in Head A \<longleftrightarrow> False"
| "slot_in (NextOf p) A \<longleftrightarrow> p \<in> A"

lemma slot_set_sel [simp]:
  "nb_priority (slot_set nl v h) = nb_priority h"
  "slot_get (slot_set nl v h) nl = v"
  by (cases nl; simp)+

text \<open>
  A chain from a slot on, and what an update through the slot may touch: the slot itself and the
  \<^verbatim>\<open>next\<close> fields of the blocks in \<open>A\<close>.
\<close>

definition framed :: "nslot \<Rightarrow> u32 set \<Rightarrow> nheap \<Rightarrow> nheap \<Rightarrow> bool" where
  "framed nl A h h' \<longleftrightarrow> nb_priority h' = nb_priority h \<and>
     (\<forall>sl. sl \<noteq> nl \<longrightarrow> \<not> slot_in sl A \<longrightarrow> slot_get h' sl = slot_get h sl)"

lemma link_at_chain:
  assumes "chain (nb_next h) (slot_get h nl) xs" "n \<notin> set xs" "n \<noteq> 0"
    "\<not> slot_in nl (insert n (set xs))"
  shows "chain (nb_next (link_at nl n h)) (slot_get (link_at nl n h) nl) (n # xs)"
    "framed nl {n} h (link_at nl n h)"
proof -
  show "chain (nb_next (link_at nl n h)) (slot_get (link_at nl n h) nl) (n # xs)"
    using assms by (cases nl) (auto simp: link_at_def)
  have "slot_get (link_at nl n h) sl = slot_get h sl" if "sl \<noteq> nl" "\<not> slot_in sl {n}" for sl
    using that by (cases nl; cases sl) (auto simp: link_at_def)
  then show "framed nl {n} h (link_at nl n h)" by (simp add: framed_def link_at_def)
qed

lemma framed_mono: "framed nl A h h' \<Longrightarrow> A \<subseteq> B \<Longrightarrow> framed nl B h h'"
proof -
  have "slot_in sl A \<Longrightarrow> A \<subseteq> B \<Longrightarrow> slot_in sl B" for sl by (cases sl) auto
  then show "framed nl A h h' \<Longrightarrow> A \<subseteq> B \<Longrightarrow> framed nl B h h'" by (auto simp: framed_def)
qed

text \<open>The induction step all three walks share: what holds from the next slot on holds from here.\<close>

lemma walk_step:
  assumes ch: "chain (nb_next h) (slot_get h nl) (x # xs)" and d: "distinct (x # xs)"
    and out: "\<not> slot_in nl (insert n (set (x # xs)))" and xn: "x \<noteq> n"
    and rest: "chain (nb_next h') (slot_get h' (NextOf x)) ys" "framed (NextOf x) (insert n (set xs)) h h'"
  shows "chain (nb_next h') (slot_get h' nl) (x # ys)" "framed nl (insert n (set (x # xs))) h h'"
proof -
  have nx: "nl \<noteq> NextOf x" using out by auto
  have no: "\<not> slot_in nl (insert n (set xs))" using out by (cases nl) auto
  have "slot_get h' nl = slot_get h nl" using rest(2) nx no by (simp add: framed_def)
  with ch rest(1) show "chain (nb_next h') (slot_get h' nl) (x # ys)" by simp
  have "slot_get h' sl = slot_get h sl" if "sl \<noteq> nl" "\<not> slot_in sl (insert n (set (x # xs)))" for sl
  proof -
    have "sl \<noteq> NextOf x" "\<not> slot_in sl (insert n (set xs))" using that(2) by (cases sl; auto)+
    with rest(2) show ?thesis by (simp add: framed_def)
  qed
  then show "framed nl (insert n (set (x # xs))) h h'" using rest(2) by (simp add: framed_def)
qed

lemma next_slot:
  "chain (nb_next h) (slot_get h nl) (x # xs) \<Longrightarrow> distinct (x # xs) \<Longrightarrow> x \<noteq> n \<Longrightarrow>
   chain (nb_next h) (slot_get h (NextOf x)) xs \<and> distinct xs \<and> \<not> slot_in (NextOf x) (insert n (set xs))"
  by simp

lemma register_chain:
  assumes "chain (nb_next h) (slot_get h nl) xs" "distinct xs" "n \<notin> set xs" "n \<noteq> 0"
    "\<not> slot_in nl (insert n (set xs))"
  shows "\<exists>h'. notifier_chain_register nl n h = Some (0, h') \<and>
     chain (nb_next h') (slot_get h' nl) (insort_nb (nb_priority h) n xs) \<and> framed nl (insert n (set xs)) h h'"
  using assms
proof (induction xs arbitrary: nl)
  case Nil
  then show ?case
    using link_at_chain [of h nl "[]" n] by (subst notifier_chain_register.simps) (simp add: Let_def)
next
  case (Cons x xs)
  have p: "slot_get h nl = x" "x \<noteq> 0" "x \<noteq> n" using Cons.prems by auto
  show ?case
  proof (cases "nb_priority h x < nb_priority h n")
    case True
    with p have "notifier_chain_register nl n h = Some (0, link_at nl n h)"
      by (subst notifier_chain_register.simps) (simp add: Let_def)
    moreover have "framed nl (insert n (set (x # xs))) h (link_at nl n h)"
      using framed_mono [OF link_at_chain(2) [OF Cons.prems(1,3,4,5)]] by blast
    ultimately show ?thesis using link_at_chain(1) [OF Cons.prems(1,3,4,5)] True by simp
  next
    case False
    from next_slot [OF Cons.prems(1,2) p(3)] Cons.IH [of "NextOf x"] Cons.prems(3,4)
    obtain h' where h': "notifier_chain_register (NextOf x) n h = Some (0, h')"
      "chain (nb_next h') (slot_get h' (NextOf x)) (insort_nb (nb_priority h) n xs)"
      "framed (NextOf x) (insert n (set xs)) h h'" by auto
    from walk_step [OF Cons.prems(1,2,5) p(3) h'(2,3)]
    have "chain (nb_next h') (slot_get h' nl) (x # insort_nb (nb_priority h) n xs)"
      "framed nl (insert n (set (x # xs))) h h'" .
    moreover have "notifier_chain_register nl n h = Some (0, h')"
      using p False h'(1) by (subst notifier_chain_register.simps) (simp add: Let_def)
    ultimately show ?thesis using False by simp
  qed
qed

lemma cond_register_fresh:
  assumes "chain (nb_next h) (slot_get h nl) xs" "n \<notin> set xs"
  shows "notifier_chain_cond_register nl n h = notifier_chain_register nl n h"
  using assms
proof (induction xs arbitrary: nl)
  case Nil
  then show ?case
    by (subst notifier_chain_register.simps, subst notifier_chain_cond_register.simps) (simp add: Let_def)
next
  case (Cons x xs)
  from Cons.IH [of "NextOf x"] Cons.prems
  have "notifier_chain_cond_register (NextOf x) n h = notifier_chain_register (NextOf x) n h" by simp
  with Cons.prems show ?case
    by (subst notifier_chain_register.simps, subst notifier_chain_cond_register.simps) (auto simp: Let_def)
qed

lemma cond_register_present:
  assumes "chain (nb_next h) (slot_get h nl) xs" "n \<in> set xs" "by_priority (nb_priority h) xs"
  shows "notifier_chain_cond_register nl n h = Some (0, h)"
  using assms
proof (induction xs arbitrary: nl)
  case (Cons x xs)
  have "notifier_chain_cond_register (NextOf x) n h = Some (0, h)" if "x \<noteq> n"
    using Cons.IH [of "NextOf x"] Cons.prems that by auto
  with Cons.prems show ?case
    by (subst notifier_chain_cond_register.simps) (auto simp: Let_def not_less)
qed simp

lemma unregister_absent:
  assumes "chain (nb_next h) (slot_get h nl) xs" "n \<notin> set xs"
  shows "notifier_chain_unregister nl n h = Some (- ENOENT, h)"
  using assms
proof (induction xs arbitrary: nl)
  case (Cons x xs)
  from Cons.IH [of "NextOf x"] Cons.prems show ?case
    by (subst notifier_chain_unregister.simps) (auto simp: Let_def)
qed (subst notifier_chain_unregister.simps, simp)

lemma unregister_chain:
  assumes "chain (nb_next h) (slot_get h nl) xs" "distinct xs" "n \<in> set xs"
    "\<not> slot_in nl (insert n (set xs))"
  shows "\<exists>h'. notifier_chain_unregister nl n h = Some (0, h') \<and>
     chain (nb_next h') (slot_get h' nl) (remove1 n xs) \<and> framed nl (insert n (set xs)) h h'"
  using assms
proof (induction xs arbitrary: nl)
  case (Cons x xs)
  have p: "slot_get h nl = x" "x \<noteq> 0" using Cons.prems by auto
  show ?case
  proof (cases "x = n")
    case True
    let ?h = "slot_set nl (nb_next h n) h"
    have "notifier_chain_unregister nl n h = Some (0, ?h)"
      using p True by (subst notifier_chain_unregister.simps) (simp add: Let_def)
    moreover have "chain (nb_next ?h) (slot_get ?h nl) xs"
      using Cons.prems True by (cases nl) auto
    moreover have "slot_get ?h sl = slot_get h sl" if "sl \<noteq> nl" for sl
      using that by (cases nl; cases sl) auto
    ultimately show ?thesis using True by (simp add: framed_def)
  next
    case False
    from next_slot [OF Cons.prems(1,2) False] Cons.IH [of "NextOf x"] Cons.prems(3) False
    obtain h' where h': "notifier_chain_unregister (NextOf x) n h = Some (0, h')"
      "chain (nb_next h') (slot_get h' (NextOf x)) (remove1 n xs)"
      "framed (NextOf x) (insert n (set xs)) h h'" by auto
    from walk_step [OF Cons.prems(1,2,4) False h'(2,3)]
    have "chain (nb_next h') (slot_get h' nl) (x # remove1 n xs)"
      "framed nl (insert n (set (x # xs))) h h'" .
    moreover have "notifier_chain_unregister nl n h = Some (0, h')"
      using p False h'(1) by (subst notifier_chain_unregister.simps) (simp add: Let_def)
    ultimately show ?thesis using False by simp
  qed
qed simp

section \<open>Reachable chains\<close>

text \<open>What the call loop does, on the list.\<close>

fun call_list :: "(u32 \<Rightarrow> 'v \<Rightarrow> 's \<Rightarrow> u32 \<times> 's) \<Rightarrow> 'v \<Rightarrow> int \<Rightarrow> nat \<Rightarrow> u32 \<Rightarrow> 's \<Rightarrow> u32 list \<Rightarrow> u32 \<times> nat \<times> 's" where
  "call_list call v nr k ret s [] = (ret, k, s)"
| "call_list call v nr k ret s (x # xs) =
     (if nr = 0 then (ret, k, s)
      else (let (ret, s) = call x v s in
            if ret AND NOTIFY_STOP_MASK = NOTIFY_STOP_MASK then (ret, Suc k, s)
            else call_list call v (nr - 1) (Suc k) ret s xs))"

lemma call_loop_list:
  "chain (nb_next h) p xs \<Longrightarrow>
   notifier_call_loop call h p v nr k ret s = Some (call_list call v nr k ret s xs)"
proof (induction xs arbitrary: p nr k ret s)
  case Nil
  then show ?case by (subst notifier_call_loop.simps) simp
next
  case (Cons x xs)
  then show ?case by (subst notifier_call_loop.simps) (auto simp: Let_def split: prod.split)
qed

definition on_chain :: "nheap \<Rightarrow> u32 \<Rightarrow> bool" where
  "on_chain h n \<longleftrightarrow> (\<exists>xs. chain (nb_next h) (nh_head h) xs \<and> n \<in> set xs)"

text \<open>
  The histories of a chain: it starts empty, blocks are registered that are not on it, registered
  conditionally, and unregistered.
\<close>

inductive nreach :: "nheap \<Rightarrow> bool" where
  nreach_init: "nh_head h = 0 \<Longrightarrow> nreach h"
| nreach_register: "nreach h \<Longrightarrow> n \<noteq> 0 \<Longrightarrow> \<not> on_chain h n \<Longrightarrow>
    notifier_chain_register Head n h = Some (r, h') \<Longrightarrow> nreach h'"
| nreach_cond_register: "nreach h \<Longrightarrow> n \<noteq> 0 \<Longrightarrow>
    notifier_chain_cond_register Head n h = Some (r, h') \<Longrightarrow> nreach h'"
| nreach_unregister: "nreach h \<Longrightarrow>
    notifier_chain_unregister Head n h = Some (r, h') \<Longrightarrow> nreach h'"

definition ordered_chain :: "nheap \<Rightarrow> u32 list \<Rightarrow> bool" where
  "ordered_chain h xs \<longleftrightarrow>
     chain (nb_next h) (nh_head h) xs \<and> distinct xs \<and> by_priority (nb_priority h) xs"

lemma ordered_register:
  assumes "ordered_chain h xs" "n \<notin> set xs" "n \<noteq> 0"
  obtains h' where "notifier_chain_register Head n h = Some (0, h')"
    "ordered_chain h' (insort_nb (nb_priority h) n xs)" "nb_priority h' = nb_priority h"
  using register_chain [of h Head xs n] assms that
  by (auto simp: ordered_chain_def framed_def distinct_insort_nb by_priority_insort_nb)

lemma ordered_unregister:
  assumes "ordered_chain h xs" "n \<in> set xs"
  obtains h' where "notifier_chain_unregister Head n h = Some (0, h')" "ordered_chain h' (remove1 n xs)"
    "nb_priority h' = nb_priority h"
proof -
  have "by_priority f ys \<Longrightarrow> by_priority f (remove1 n ys)" for f and ys :: "u32 list"
  proof (induction ys)
    case (Cons y ys)
    then show ?case using set_remove1_subset [of n ys] by auto
  qed simp
  then show thesis using unregister_chain [of h Head xs n] assms that
    by (auto simp: ordered_chain_def framed_def)
qed

lemma not_on_chain: "ordered_chain h xs \<Longrightarrow> on_chain h n \<longleftrightarrow> n \<in> set xs"
  unfolding ordered_chain_def on_chain_def by (metis chain_unique)

lemma nreach_ordered: "nreach h \<Longrightarrow> \<exists>xs. ordered_chain h xs"
proof (induction rule: nreach.induct)
  case (nreach_init h)
  then have "ordered_chain h []" by (simp add: ordered_chain_def)
  then show ?case ..
next
  case (nreach_register h n r h')
  then obtain xs where xs: "ordered_chain h xs" by blast
  with nreach_register(3) have "n \<notin> set xs" by (simp add: not_on_chain)
  from ordered_register [OF xs this nreach_register(2)] nreach_register(4) show ?case by auto
next
  case (nreach_cond_register h n r h')
  then obtain xs where xs: "ordered_chain h xs" by blast
  show ?case
  proof (cases "n \<in> set xs")
    case True
    with xs nreach_cond_register cond_register_present [of h Head xs n] show ?thesis
      by (auto simp: ordered_chain_def)
  next
    case False
    with xs nreach_cond_register(3) have "notifier_chain_register Head n h = Some (r, h')"
      using cond_register_fresh [of h Head xs n] by (simp add: ordered_chain_def)
    with ordered_register [OF xs False nreach_cond_register(2)] show ?thesis by auto
  qed
next
  case (nreach_unregister h n r h')
  then obtain xs where xs: "ordered_chain h xs" by blast
  show ?case
  proof (cases "n \<in> set xs")
    case True
    from ordered_unregister [OF xs this] nreach_unregister(2) show ?thesis by auto
  next
    case False
    with xs nreach_unregister(2) unregister_absent [of h Head xs n] show ?thesis
      by (auto simp: ordered_chain_def)
  qed
qed

text \<open>
  C9: On every chain that registrations, conditional registrations and removals can build, an event
  is delivered and the call returns: the blocks are distinct and called in descending priority, each
  once, up to the first that answers with the stop bit or to the limit.
\<close>

theorem notifier_call_chain_ordered:
  assumes "nreach h"
  shows "\<exists>xs. chain (nb_next h) (nh_head h) xs \<and> distinct xs \<and>
           sorted_wrt (\<lambda>x y. nb_priority h y \<le> nb_priority h x) xs \<and>
           notifier_call_chain call h v nr s = Some (call_list call v nr 0 NOTIFY_DONE s xs)"
proof -
  obtain xs where "ordered_chain h xs" using nreach_ordered [OF assms] by blast
  then show ?thesis
    unfolding ordered_chain_def notifier_call_chain_def using call_loop_list by metis
qed

text \<open>
  C10: Registering a block that is not on the chain and removing it again both succeed and give the
  original chain back.
\<close>

theorem notifier_register_unregister:
  assumes "nreach h" and "n \<noteq> 0" and "\<not> on_chain h n"
  shows "\<exists>h1 h2 xs. notifier_chain_register Head n h = Some (0, h1) \<and> on_chain h1 n \<and>
           notifier_chain_unregister Head n h1 = Some (0, h2) \<and> \<not> on_chain h2 n \<and>
           chain (nb_next h) (nh_head h) xs \<and> chain (nb_next h2) (nh_head h2) xs"
proof -
  obtain xs where xs: "ordered_chain h xs" using nreach_ordered [OF assms(1)] by blast
  with assms(3) have n: "n \<notin> set xs" by (simp add: not_on_chain)
  obtain h1 where h1: "notifier_chain_register Head n h = Some (0, h1)"
    "ordered_chain h1 (insort_nb (nb_priority h) n xs)"
    using ordered_register [OF xs n assms(2)] by blast
  moreover obtain h2 where h2: "notifier_chain_unregister Head n h1 = Some (0, h2)"
    "ordered_chain h2 (remove1 n (insort_nb (nb_priority h) n xs))"
    using ordered_unregister [OF h1(2), of n] by auto
  moreover have rem: "remove1 n (insort_nb (nb_priority h) n xs) = xs"
    using n by (induction xs) auto
  ultimately show ?thesis
    using xs n not_on_chain [OF h1(2), of n] not_on_chain [OF h2(2), of n] unfolding rem ordered_chain_def by auto
qed

text \<open>
  C11: The answer of an unregistration tells the truth: it is 0 for a block on the chain and
  \<^verbatim>\<open>-ENOENT\<close>, with nothing changed, for any other.
\<close>

theorem notifier_unregister_result:
  assumes "nreach h"
  shows "\<exists>h'. notifier_chain_unregister Head n h = Some (if on_chain h n then 0 else - ENOENT, h') \<and>
           (\<not> on_chain h n \<longrightarrow> h' = h)"
proof -
  obtain xs where xs: "ordered_chain h xs" using nreach_ordered [OF assms] by blast
  show ?thesis
  proof (cases "n \<in> set xs")
    case True
    with ordered_unregister [OF xs True] not_on_chain [OF xs] show ?thesis by auto
  next
    case False
    with unregister_absent [of h Head xs n] xs not_on_chain [OF xs] show ?thesis by (auto simp: ordered_chain_def)
  qed
qed

text \<open>A chain of two blocks, the one of higher priority registered second.\<close>

definition demo_nheap :: nheap where
  "demo_nheap = \<lparr>nh_head = 0, nb_next = (\<lambda>_. 0), nb_priority = (\<lambda>n. if n = 0x20 then 7 else 0)\<rparr>"

definition demo_nheap2 :: nheap where
  "demo_nheap2 = link_at Head 0x20 (link_at Head 0x10 demo_nheap)"

lemma demo_nreach: "nreach demo_nheap2"
proof (rule nreach_cond_register)
  show "nreach (link_at Head 0x10 demo_nheap)"
  proof (rule nreach_cond_register)
    show "nreach demo_nheap" by (rule nreach_init) (simp add: demo_nheap_def)
    show "notifier_chain_cond_register Head 0x10 demo_nheap = Some (0, link_at Head 0x10 demo_nheap)"
      by (subst notifier_chain_cond_register.simps) (simp add: demo_nheap_def)
  qed simp
  show "notifier_chain_cond_register Head 0x20 (link_at Head 0x10 demo_nheap) = Some (0, demo_nheap2)"
    by (subst notifier_chain_cond_register.simps) (simp add: demo_nheap_def demo_nheap2_def link_at_def)
qed simp

lemma demo_chain: "chain (nb_next demo_nheap2) (nh_head demo_nheap2) [0x20, 0x10]"
  by (simp add: demo_nheap2_def demo_nheap_def link_at_def)

definition demo_call :: "u32 \<Rightarrow> unit \<Rightarrow> u32 list \<Rightarrow> u32 \<times> u32 list" where
  "demo_call n v s = (if n = 0x20 then NOTIFY_STOP else NOTIFY_OK, n # s)"

theorem notifier_call_chain_ordered_witness:
  "notifier_call_chain demo_call demo_nheap2 () (- 1) [] = Some (NOTIFY_STOP, 1, [0x20])"
proof -
  obtain xs where "chain (nb_next demo_nheap2) (nh_head demo_nheap2) xs"
    "notifier_call_chain demo_call demo_nheap2 () (- 1) [] = Some (call_list demo_call () (- 1) 0 NOTIFY_DONE [] xs)"
    using notifier_call_chain_ordered [OF demo_nreach, where call = demo_call and v = "()" and nr = "- 1" and s = "[]"]
    by blast
  moreover from this(1) have "xs = [0x20, 0x10]" using chain_unique [OF _ demo_chain] by blast
  ultimately show ?thesis by (simp add: demo_call_def NOTIFY_STOP_def NOTIFY_OK_def NOTIFY_STOP_MASK_def)
qed

lemma demo_absent: "\<not> on_chain demo_nheap2 0x30"
proof
  assume "on_chain demo_nheap2 0x30"
  then obtain xs where "chain (nb_next demo_nheap2) (nh_head demo_nheap2) xs" "0x30 \<in> set xs"
    by (auto simp: on_chain_def)
  with chain_unique [OF this(1) demo_chain] show False by simp
qed

theorem notifier_register_unregister_witness:
  "\<exists>h1 h2. notifier_chain_register Head 0x30 demo_nheap2 = Some (0, h1) \<and>
     notifier_chain_unregister Head 0x30 h1 = Some (0, h2) \<and> chain (nb_next h2) (nh_head h2) [0x20, 0x10]"
proof -
  obtain h1 h2 xs where h: "notifier_chain_register Head 0x30 demo_nheap2 = Some (0, h1)"
    "notifier_chain_unregister Head 0x30 h1 = Some (0, h2)"
    "chain (nb_next demo_nheap2) (nh_head demo_nheap2) xs" "chain (nb_next h2) (nh_head h2) xs"
    using notifier_register_unregister [OF demo_nreach _ demo_absent] by auto
  with chain_unique [OF h(3) demo_chain] show ?thesis by auto
qed

theorem notifier_unregister_result_witness:
  "notifier_chain_unregister Head 0x30 demo_nheap2 = Some (- ENOENT, demo_nheap2)"
  using notifier_unregister_result [OF demo_nreach, of "0x30"] demo_absent by auto

end
