(* ===== verification/Traps.thy ===== *)
theory Traps
  imports I486_Props Extable Notifier "HOL-Library.Monad_Syntax"
begin

text \<open>
  The C-level trap handlers (\<^verbatim>\<open>arch/x86/kernel/traps.c\<close>), composed from the 486 emulator, the
  exception table and the notifier chain of the \<^verbatim>\<open>die\<close> events. The state is what the handlers
  read and write of the interrupted context and of the current task; signals and oopses are logged
  in the order they are raised. \<^verbatim>\<open>exception_enter\<close> and \<^verbatim>\<open>exception_exit\<close> are empty in this
  configuration. \<open>None\<close> stands for a fault inside the handler or a notifier walk that does not end.
\<close>

section \<open>State and environment\<close>

record siginfo =
  si_signo :: int
  si_errno :: int
  si_code :: int
  si_addr :: u32

record trap_state =
  ts_m :: machine
  ts_irq :: bool
  ts_preempt :: int
  ts_error_code :: int
  ts_trap_nr :: int
  ts_uaccess_err :: bool
  ts_dr6 :: u32
  ts_debugreg6 :: u32
  ts_blockstep :: bool
  ts_singlestep :: bool
  ts_ignore_fpu_irq :: bool
  ts_signals :: "(int \<times> siginfo option) list"
  ts_died :: "string list"

datatype die_val = DIE_INT3 | DIE_DEBUG | DIE_TRAP | DIE_GPF

record die_args =
  da_val :: die_val
  da_str :: string
  da_err :: int
  da_trapnr :: int
  da_signr :: int

text \<open>
  What lies outside: the registered \<^verbatim>\<open>die\<close> callbacks, the exception table, the FPU status registers
  as \<^verbatim>\<open>save_init_fpu\<close> leaves them, \<^verbatim>\<open>CR0.EM\<close>, the math emulator and \<^verbatim>\<open>math_state_restore\<close>.
\<close>

record trap_env =
  te_die_chain :: nheap
  te_call :: "u32 \<Rightarrow> die_args \<Rightarrow> trap_state \<Rightarrow> u32 \<times> trap_state"
  te_ex_base :: u32
  te_ex_table :: "exception_table_entry list"
  te_cwd :: u16
  te_swd :: u16
  te_mxcsr :: u16
  te_cr0_em :: bool
  te_math_emulate :: "trap_state \<Rightarrow> trap_state option"
  te_math_state_restore :: "trap_state \<Rightarrow> trap_state"

abbreviation ts_regs :: "trap_state \<Rightarrow> pt_regs" where "ts_regs s \<equiv> m_regs (ts_m s)"

definition set_regs :: "pt_regs \<Rightarrow> trap_state \<Rightarrow> trap_state" where
  "set_regs r s = s\<lparr>ts_m := (ts_m s)\<lparr>m_regs := r\<rparr>\<rparr>"

definition SI_FAULT :: int where "SI_FAULT = 3 * 2 ^ 16"
definition ILL_ILLOPN :: int where "ILL_ILLOPN = SI_FAULT + 2"
definition ILL_BADSTK :: int where "ILL_BADSTK = SI_FAULT + 8"
definition FPE_INTDIV :: int where "FPE_INTDIV = SI_FAULT + 1"
definition FPE_FLTDIV :: int where "FPE_FLTDIV = SI_FAULT + 3"
definition FPE_FLTOVF :: int where "FPE_FLTOVF = SI_FAULT + 4"
definition FPE_FLTUND :: int where "FPE_FLTUND = SI_FAULT + 5"
definition FPE_FLTRES :: int where "FPE_FLTRES = SI_FAULT + 6"
definition FPE_FLTINV :: int where "FPE_FLTINV = SI_FAULT + 7"
definition BUS_ADRALN :: int where "BUS_ADRALN = SI_FAULT + 1"
definition TRAP_BRKPT :: int where "TRAP_BRKPT = SI_FAULT + 1"
definition TRAP_TRACE :: int where "TRAP_TRACE = SI_FAULT + 2"
definition TRAP_HWBKPT :: int where "TRAP_HWBKPT = SI_FAULT + 4"

definition X86_TRAP_DE :: int where "X86_TRAP_DE = 0"
definition X86_TRAP_DB :: int where "X86_TRAP_DB = 1"
definition X86_TRAP_BP :: int where "X86_TRAP_BP = 3"
definition X86_TRAP_OF :: int where "X86_TRAP_OF = 4"
definition X86_TRAP_BR :: int where "X86_TRAP_BR = 5"
definition X86_TRAP_UD :: int where "X86_TRAP_UD = 6"
definition X86_TRAP_OLD_MF :: int where "X86_TRAP_OLD_MF = 9"
definition X86_TRAP_TS :: int where "X86_TRAP_TS = 10"
definition X86_TRAP_NP :: int where "X86_TRAP_NP = 11"
definition X86_TRAP_SS :: int where "X86_TRAP_SS = 12"
definition X86_TRAP_GP :: int where "X86_TRAP_GP = 13"
definition X86_TRAP_MF :: int where "X86_TRAP_MF = 16"
definition X86_TRAP_AC :: int where "X86_TRAP_AC = 17"
definition X86_TRAP_XF :: int where "X86_TRAP_XF = 19"
definition X86_TRAP_IRET :: int where "X86_TRAP_IRET = 32"

definition X86_EFLAGS_TF :: u32 where "X86_EFLAGS_TF = 0x100"
definition X86_EFLAGS_IF :: u32 where "X86_EFLAGS_IF = 0x200"

text \<open>Without \<^verbatim>\<open>CONFIG_VM86\<close> the mask is empty and the vm86 trap hook reports the trap as handled.\<close>

definition X86_VM_MASK :: u32 where "X86_VM_MASK = 0"
definition handle_vm86_trap :: int where "handle_vm86_trap = 0"

section \<open>Helpers\<close>

definition user_mode :: "pt_regs \<Rightarrow> bool" where
  "user_mode regs \<longleftrightarrow> pt_cs regs AND 3 = 3"

definition user_mode_vm :: "pt_regs \<Rightarrow> bool" where
  "user_mode_vm regs \<longleftrightarrow> 3 \<le> (pt_cs regs AND 3) OR (pt_flags regs AND X86_VM_MASK)"

definition conditional_sti :: "trap_state \<Rightarrow> trap_state" where
  "conditional_sti s = (if pt_flags (ts_regs s) AND X86_EFLAGS_IF \<noteq> 0 then s\<lparr>ts_irq := True\<rparr> else s)"

definition preempt_conditional_sti :: "trap_state \<Rightarrow> trap_state" where
  "preempt_conditional_sti s =
     (let s = s\<lparr>ts_preempt := ts_preempt s + 1\<rparr> in
      if pt_flags (ts_regs s) AND X86_EFLAGS_IF \<noteq> 0 then s\<lparr>ts_irq := True\<rparr> else s)"

definition preempt_conditional_cli :: "trap_state \<Rightarrow> trap_state" where
  "preempt_conditional_cli s =
     (let s = (if pt_flags (ts_regs s) AND X86_EFLAGS_IF \<noteq> 0 then s\<lparr>ts_irq := False\<rparr> else s) in
      s\<lparr>ts_preempt := ts_preempt s - 1\<rparr>)"

definition notify_die ::
  "trap_env \<Rightarrow> die_val \<Rightarrow> string \<Rightarrow> int \<Rightarrow> int \<Rightarrow> int \<Rightarrow> trap_state \<Rightarrow> (u32 \<times> trap_state) option" where
  "notify_die env val str err trap sig s =
     atomic_notifier_call_chain (te_call env) (te_die_chain env)
       \<lparr>da_val = val, da_str = str, da_err = err, da_trapnr = trap, da_signr = sig\<rparr> s"

definition die :: "string \<Rightarrow> trap_state \<Rightarrow> trap_state" where
  "die str s = s\<lparr>ts_died := ts_died s @ [str]\<rparr>"

definition force_sig_info :: "int \<Rightarrow> siginfo option \<Rightarrow> trap_state \<Rightarrow> trap_state" where
  "force_sig_info signr info s = s\<lparr>ts_signals := ts_signals s @ [(signr, info)]\<rparr>"

text \<open>\<^verbatim>\<open>fixup_exception(regs)\<close> on the handler's state.\<close>

definition try_fixup :: "trap_env \<Rightarrow> trap_state \<Rightarrow> int \<times> trap_state" where
  "try_fixup env s =
     (let (r, regs, ue) = fixup_exception (te_ex_base env) (te_ex_table env) (ts_regs s) (ts_uaccess_err s)
      in (r, (set_regs regs s)\<lparr>ts_uaccess_err := ue\<rparr>))"

definition set_fault :: "int \<Rightarrow> int \<Rightarrow> trap_state \<Rightarrow> trap_state" where
  "set_fault error_code trapnr s = s\<lparr>ts_error_code := error_code, ts_trap_nr := trapnr\<rparr>"

section \<open>Handlers\<close>

definition do_trap_no_signal ::
  "trap_env \<Rightarrow> int \<Rightarrow> string \<Rightarrow> int \<Rightarrow> trap_state \<Rightarrow> int \<times> trap_state" where
  "do_trap_no_signal env trapnr str error_code s =
     (if pt_flags (ts_regs s) AND X86_VM_MASK \<noteq> 0 then
        (if trapnr < X86_TRAP_UD \<and> handle_vm86_trap = 0 then (0, s) else (- 1, s))
      else if \<not> user_mode (ts_regs s) then
        (let (r, s) = try_fixup env s in
         (0, if r = 0 then die str (set_fault error_code trapnr s) else s))
      else (- 1, s))"

definition do_trap ::
  "trap_env \<Rightarrow> int \<Rightarrow> int \<Rightarrow> string \<Rightarrow> int \<Rightarrow> siginfo option \<Rightarrow> trap_state \<Rightarrow> trap_state" where
  "do_trap env trapnr signr str error_code info s =
     (let (r, s) = do_trap_no_signal env trapnr str error_code s in
      if r = 0 then s else force_sig_info signr info (set_fault error_code trapnr s))"

definition DO_ERROR ::
  "trap_env \<Rightarrow> int \<Rightarrow> int \<Rightarrow> string \<Rightarrow> siginfo option \<Rightarrow> int \<Rightarrow> trap_state \<Rightarrow> trap_state option" where
  "DO_ERROR env trapnr signr str info error_code s =
     do { (r, s) \<leftarrow> notify_die env DIE_TRAP str error_code trapnr signr s;
          if r = NOTIFY_STOP then Some s
          else Some (do_trap env trapnr signr str error_code info (conditional_sti s)) }"

definition do_divide_error :: "trap_env \<Rightarrow> int \<Rightarrow> trap_state \<Rightarrow> trap_state option" where
  "do_divide_error env err s = DO_ERROR env X86_TRAP_DE SIGFPE ''divide error''
     (Some \<lparr>si_signo = SIGFPE, si_errno = 0, si_code = FPE_INTDIV, si_addr = pt_ip (ts_regs s)\<rparr>) err s"

definition do_overflow :: "trap_env \<Rightarrow> int \<Rightarrow> trap_state \<Rightarrow> trap_state option" where
  "do_overflow env = DO_ERROR env X86_TRAP_OF SIGSEGV ''overflow'' None"

definition do_bounds :: "trap_env \<Rightarrow> int \<Rightarrow> trap_state \<Rightarrow> trap_state option" where
  "do_bounds env = DO_ERROR env X86_TRAP_BR SIGSEGV ''bounds'' None"

definition do_coprocessor_segment_overrun :: "trap_env \<Rightarrow> int \<Rightarrow> trap_state \<Rightarrow> trap_state option" where
  "do_coprocessor_segment_overrun env =
     DO_ERROR env X86_TRAP_OLD_MF SIGFPE ''coprocessor segment overrun'' None"

definition do_invalid_TSS :: "trap_env \<Rightarrow> int \<Rightarrow> trap_state \<Rightarrow> trap_state option" where
  "do_invalid_TSS env = DO_ERROR env X86_TRAP_TS SIGSEGV ''invalid TSS'' None"

definition do_segment_not_present :: "trap_env \<Rightarrow> int \<Rightarrow> trap_state \<Rightarrow> trap_state option" where
  "do_segment_not_present env = DO_ERROR env X86_TRAP_NP SIGBUS ''segment not present'' None"

definition do_stack_segment :: "trap_env \<Rightarrow> int \<Rightarrow> trap_state \<Rightarrow> trap_state option" where
  "do_stack_segment env = DO_ERROR env X86_TRAP_SS SIGBUS ''stack segment'' None"

definition do_alignment_check :: "trap_env \<Rightarrow> int \<Rightarrow> trap_state \<Rightarrow> trap_state option" where
  "do_alignment_check env = DO_ERROR env X86_TRAP_AC SIGBUS ''alignment check''
     (Some \<lparr>si_signo = SIGBUS, si_errno = 0, si_code = BUS_ADRALN, si_addr = 0\<rparr>)"

text \<open>The handler the 486 emulation hooks into.\<close>

definition do_invalid_op :: "trap_env \<Rightarrow> int \<Rightarrow> trap_state \<Rightarrow> trap_state option" where
  "do_invalid_op env error_code s =
     (let info = \<lparr>si_signo = SIGILL, si_errno = 0, si_code = ILL_ILLOPN, si_addr = pt_ip (ts_regs s)\<rparr> in
      do { (ret, m) \<leftarrow> parse_emu_instruction (ts_m s);
           let s = s\<lparr>ts_m := m\<rparr>;
           if 0 < ret then Some s
           else do { (r, s) \<leftarrow> notify_die env DIE_TRAP ''invalid opcode'' error_code X86_TRAP_UD SIGILL s;
                     if r = NOTIFY_STOP then Some s
                     else Some (do_trap env X86_TRAP_UD SIGILL ''invalid opcode'' error_code (Some info)
                                  (conditional_sti s)) } })"

definition do_general_protection :: "trap_env \<Rightarrow> int \<Rightarrow> trap_state \<Rightarrow> trap_state option" where
  "do_general_protection env error_code s =
     (let s = conditional_sti s in
      if pt_flags (ts_regs s) AND X86_VM_MASK \<noteq> 0 then Some (s\<lparr>ts_irq := True\<rparr>)
      else if \<not> user_mode (ts_regs s) then
        (let (r, s) = try_fixup env s in
         if r \<noteq> 0 then Some s
         else do { (r, s) \<leftarrow> notify_die env DIE_GPF ''general protection fault'' error_code X86_TRAP_GP SIGSEGV
                              (set_fault error_code X86_TRAP_GP s);
                   Some (if r \<noteq> NOTIFY_STOP then die ''general protection fault'' s else s) })
      else Some (force_sig_info SIGSEGV None (set_fault error_code X86_TRAP_GP s)))"

definition do_int3 :: "trap_env \<Rightarrow> int \<Rightarrow> trap_state \<Rightarrow> trap_state option" where
  "do_int3 env error_code s =
     do { (r, s) \<leftarrow> notify_die env DIE_INT3 ''int3'' error_code X86_TRAP_BP SIGTRAP s;
          if r = NOTIFY_STOP then Some s
          else Some (preempt_conditional_cli
                 (do_trap env X86_TRAP_BP SIGTRAP ''int3'' error_code None (preempt_conditional_sti s))) }"

definition DR6_RESERVED :: u32 where "DR6_RESERVED = 0xFFFF0FF0"
definition DR_TRAP_BITS :: u32 where "DR_TRAP_BITS = 0xf"
definition DR_STEP :: u32 where "DR_STEP = 0x4000"

definition get_si_code :: "u32 \<Rightarrow> int" where
  "get_si_code condition =
     (if condition AND DR_STEP \<noteq> 0 then TRAP_TRACE
      else if condition AND DR_TRAP_BITS \<noteq> 0 then TRAP_HWBKPT
      else TRAP_BRKPT)"

definition send_sigtrap :: "int \<Rightarrow> int \<Rightarrow> trap_state \<Rightarrow> trap_state" where
  "send_sigtrap error_code code s =
     force_sig_info SIGTRAP
       (Some \<lparr>si_signo = SIGTRAP, si_errno = 0, si_code = code,
              si_addr = (if user_mode_vm (ts_regs s) then pt_ip (ts_regs s) else 0)\<rparr>)
       (set_fault error_code X86_TRAP_DB s)"

text \<open>
  The error argument of the notification is \<^verbatim>\<open>PTR_ERR(&dr6)\<close>, the address of a local variable; it is
  the parameter \<open>dr6_ptr\<close>, and the trap number is the error code. \<^verbatim>\<open>kmemcheck\<close> is not configured.
\<close>

definition do_debug :: "trap_env \<Rightarrow> int \<Rightarrow> int \<Rightarrow> trap_state \<Rightarrow> trap_state option" where
  "do_debug env dr6_ptr error_code s =
     (let dr6 = ts_dr6 s AND NOT DR6_RESERVED;
          user_icebp = (dr6 = 0 \<and> user_mode (ts_regs s));
          s = s\<lparr>ts_dr6 := 0, ts_blockstep := False, ts_debugreg6 := dr6\<rparr> in
      do { (r, s) \<leftarrow> notify_die env DIE_DEBUG ''debug'' dr6_ptr error_code SIGTRAP s;
           if r = NOTIFY_STOP then Some s
           else
             (let s = preempt_conditional_sti s in
              if pt_flags (ts_regs s) AND X86_VM_MASK \<noteq> 0 then Some (preempt_conditional_cli s)
              else
                (let s = (if dr6 AND DR_STEP \<noteq> 0 \<and> \<not> user_mode (ts_regs s) then
                            (set_regs ((ts_regs s)\<lparr>pt_flags := pt_flags (ts_regs s) AND NOT X86_EFLAGS_TF\<rparr>) s)
                              \<lparr>ts_debugreg6 := ts_debugreg6 s AND NOT DR_STEP, ts_singlestep := True\<rparr>
                          else s);
                     code = get_si_code (ts_debugreg6 s);
                     s = (if ts_debugreg6 s AND (DR_STEP OR DR_TRAP_BITS) \<noteq> 0 \<or> user_icebp
                          then send_sigtrap error_code code s else s) in
                 Some (preempt_conditional_cli s))) })"

text \<open>Which signal code a set of pending, unmasked FPU exceptions gets; \<open>None\<close>: spurious.\<close>

definition fpe_code :: "u16 \<Rightarrow> int option" where
  "fpe_code err =
     (if err AND 0x001 \<noteq> 0 then Some FPE_FLTINV
      else if err AND 0x004 \<noteq> 0 then Some FPE_FLTDIV
      else if err AND 0x008 \<noteq> 0 then Some FPE_FLTOVF
      else if err AND 0x012 \<noteq> 0 then Some FPE_FLTUND
      else if err AND 0x020 \<noteq> 0 then Some FPE_FLTRES
      else None)"

definition math_error :: "trap_env \<Rightarrow> int \<Rightarrow> int \<Rightarrow> trap_state \<Rightarrow> trap_state option" where
  "math_error env error_code trapnr s =
     (let str = (if trapnr = X86_TRAP_MF then ''fpu exception'' else ''simd exception'') in
      do { (r, s) \<leftarrow> notify_die env DIE_TRAP str error_code trapnr SIGFPE s;
           if r = NOTIFY_STOP then Some s
           else
             (let s = conditional_sti s in
              if \<not> user_mode_vm (ts_regs s) then
                (let (r, s) = try_fixup env s in
                 Some (if r = 0 then die str (set_fault error_code trapnr s) else s))
              else
                (let s = set_fault error_code trapnr s;
                     err = (if trapnr = X86_TRAP_MF then te_swd env AND NOT (te_cwd env)
                            else NOT (drop_bit 7 (te_mxcsr env)) AND te_mxcsr env) in
                 case fpe_code err of
                   None \<Rightarrow> Some s
                 | Some code \<Rightarrow>
                     Some (force_sig_info SIGFPE
                       (Some \<lparr>si_signo = SIGFPE, si_errno = 0, si_code = code, si_addr = pt_ip (ts_regs s)\<rparr>) s))) })"

definition do_coprocessor_error :: "trap_env \<Rightarrow> int \<Rightarrow> trap_state \<Rightarrow> trap_state option" where
  "do_coprocessor_error env error_code s = math_error env error_code X86_TRAP_MF (s\<lparr>ts_ignore_fpu_irq := True\<rparr>)"

definition do_simd_coprocessor_error :: "trap_env \<Rightarrow> int \<Rightarrow> trap_state \<Rightarrow> trap_state option" where
  "do_simd_coprocessor_error env error_code s = math_error env error_code X86_TRAP_XF s"

definition do_spurious_interrupt_bug :: "int \<Rightarrow> trap_state \<Rightarrow> trap_state" where
  "do_spurious_interrupt_bug error_code s = conditional_sti s"

definition do_device_not_available :: "trap_env \<Rightarrow> int \<Rightarrow> trap_state \<Rightarrow> trap_state option" where
  "do_device_not_available env error_code s =
     (if te_cr0_em env then te_math_emulate env (conditional_sti s)
      else Some (conditional_sti (te_math_state_restore env s)))"

definition do_iret_error :: "trap_env \<Rightarrow> int \<Rightarrow> trap_state \<Rightarrow> trap_state option" where
  "do_iret_error env error_code s =
     do { (r, s) \<leftarrow> notify_die env DIE_TRAP ''iret exception'' error_code X86_TRAP_IRET SIGILL (s\<lparr>ts_irq := True\<rparr>);
          if r \<noteq> NOTIFY_STOP then
            Some (do_trap env X86_TRAP_IRET SIGILL ''iret exception'' error_code
              (Some \<lparr>si_signo = SIGILL, si_errno = 0, si_code = ILL_BADSTK, si_addr = 0\<rparr>) s)
          else Some s }"

section \<open>Properties\<close>

named_theorems trap_defs

lemmas [trap_defs] = do_trap_def do_trap_no_signal_def try_fixup_def set_fault_def force_sig_info_def
  die_def X86_VM_MASK_def Let_def

lemma conditional_sti_sel [simp]:
  "ts_m (conditional_sti s) = ts_m s" "ts_uaccess_err (conditional_sti s) = ts_uaccess_err s"
  by (simp_all add: conditional_sti_def)

lemma user_mode_vm_eq [simp]: "user_mode_vm regs = user_mode regs"
proof -
  have "(3 \<le> (w AND 3 :: u32)) = (w AND 3 = 3)" for w
    using word_and_le1 [of w 3] by (metis order.antisym order.refl)
  then show ?thesis by (simp add: user_mode_vm_def user_mode_def X86_VM_MASK_def)
qed

text \<open>
  C12: An invalid-opcode trap on an emulated instruction raises no signal, notification, oops, interrupt-flag or
  thread-state change, and leaves exactly the machine the instruction set prescribes, except that after
  \<^verbatim>\<open>cmpxchg\<close> the flags CF, PF, AF, SF and OF still have the values they had before the instruction.
\<close>

theorem invalid_op_transparent:
  assumes "fetches (ts_m s) bs" and "isa_decode (ts_regs s) bs = Some (i, len)"
    and "form_emulated bs" and "operand_accessible (ts_m s) i"
  shows "\<exists>m2. isa_step i len (ts_m s) = Some m2 \<and>
           do_invalid_op env err s = Some (s\<lparr>ts_m := emulated_result i (ts_m s) m2\<rparr>)"
  using emu_exact [OF assms] by (auto simp: do_invalid_op_def)

text \<open>
  C13: When the emulator refuses the instruction and no notifier claims the event, a user task gets
  exactly one \<^verbatim>\<open>SIGILL\<close> that carries the address of the instruction, on the registers and memory the
  trap left.
\<close>

theorem invalid_op_sigill:
  assumes "parse_emu_instruction (ts_m s) = Some (r, m')" and "r < 0" and "user_mode (ts_regs s)"
    and "notify_die env DIE_TRAP ''invalid opcode'' err X86_TRAP_UD SIGILL s = Some (a, s)"
    and "a \<noteq> NOTIFY_STOP"
  shows "\<exists>s'. do_invalid_op env err s = Some s' \<and> ts_m s' = ts_m s \<and> ts_died s' = ts_died s \<and>
     ts_trap_nr s' = X86_TRAP_UD \<and> ts_error_code s' = err \<and>
     ts_signals s' = ts_signals s @ [(SIGILL, Some \<lparr>si_signo = SIGILL, si_errno = 0, si_code = ILL_ILLOPN,
       si_addr = pt_ip (ts_regs s)\<rparr>)]"
proof -
  have "m' = ts_m s" using emu_error_unchanged assms(1,2) .
  with assms show ?thesis
    by (simp add: do_invalid_op_def trap_defs) (simp add: conditional_sti_def)
qed

text \<open>
  The handlers of the faults the kernel itself can take, with the trap number and the message each one
  reports.
\<close>

definition fault_handlers :: "trap_env \<Rightarrow> ((int \<Rightarrow> trap_state \<Rightarrow> trap_state option) \<times> int \<times> string) list" where
  "fault_handlers env =
     [(do_divide_error env, X86_TRAP_DE, ''divide error''),
      (do_overflow env, X86_TRAP_OF, ''overflow''),
      (do_bounds env, X86_TRAP_BR, ''bounds''),
      (do_coprocessor_segment_overrun env, X86_TRAP_OLD_MF, ''coprocessor segment overrun''),
      (do_invalid_TSS env, X86_TRAP_TS, ''invalid TSS''),
      (do_segment_not_present env, X86_TRAP_NP, ''segment not present''),
      (do_stack_segment env, X86_TRAP_SS, ''stack segment''),
      (do_alignment_check env, X86_TRAP_AC, ''alignment check''),
      (do_general_protection env, X86_TRAP_GP, ''general protection fault''),
      (do_int3 env, X86_TRAP_BP, ''int3''),
      (do_coprocessor_error env, X86_TRAP_MF, ''fpu exception''),
      (do_simd_coprocessor_error env, X86_TRAP_XF, ''simd exception''),
      (do_iret_error env, X86_TRAP_IRET, ''iret exception'')]"

text \<open>
  How a fault of the kernel must end, given the faulting instructions the assembler recorded with their
  fixup addresses: execution continues at the fixup with no other register, no memory and no
  fault record of the task touched, or the kernel reports its death with the fault recorded.
\<close>

definition kernel_fault_resolved ::
  "(u32 \<times> u32 \<times> bool) list \<Rightarrow> int \<Rightarrow> string \<Rightarrow> int \<Rightarrow> trap_state \<Rightarrow> trap_state \<Rightarrow> bool" where
  "kernel_fault_resolved fs nr str err s s' \<longleftrightarrow>
     ts_signals s' = ts_signals s \<and>
     (case map_of fs (pt_ip (ts_regs s)) of
        Some (to, ex) \<Rightarrow>
          ts_m s' = (ts_m s)\<lparr>m_regs := (ts_regs s)\<lparr>pt_ip := to\<rparr>\<rparr> \<and> (ts_uaccess_err s' \<longleftrightarrow> ts_uaccess_err s \<or> ex) \<and>
          ts_died s' = ts_died s \<and> ts_trap_nr s' = ts_trap_nr s \<and> ts_error_code s' = ts_error_code s
      | None \<Rightarrow>
          ts_m s' = ts_m s \<and> ts_uaccess_err s' = ts_uaccess_err s \<and>
          ts_died s' = ts_died s @ [str] \<and> ts_trap_nr s' = nr \<and> ts_error_code s' = err)"

definition linked_table :: "trap_env \<Rightarrow> (u32 \<times> u32 \<times> bool) list \<Rightarrow> bool" where
  "linked_table env fs \<longleftrightarrow>
     te_ex_table env = sort_extable (link_extable (te_ex_base env) fs) \<and>
     (\<forall>f\<in>set fs. link_ok (te_ex_base env) f) \<and> distinct (map fst fs)"

lemma try_fixup_linked:
  assumes "linked_table env fs"
  shows "try_fixup env s =
     (case map_of fs (pt_ip (ts_regs s)) of
        None \<Rightarrow> (0, s)
      | Some (to, ex) \<Rightarrow> (1, (set_regs ((ts_regs s)\<lparr>pt_ip := to\<rparr>) s)\<lparr>ts_uaccess_err := ts_uaccess_err s \<or> ex\<rparr>))"
  using assms fixup_linked [of fs "te_ex_base env" "ts_regs s" "ts_uaccess_err s"]
  by (auto simp: linked_table_def try_fixup_def set_regs_def split: option.split)

lemma do_trap_kernel:
  assumes "\<not> user_mode (ts_regs s)" "linked_table env fs"
  shows "kernel_fault_resolved fs nr str err s (do_trap env nr sg str err info s)"
  using assms(1)
  by (auto simp: do_trap_def do_trap_no_signal_def X86_VM_MASK_def try_fixup_linked [OF assms(2)] kernel_fault_resolved_def
      die_def set_fault_def set_regs_def split: option.split)

text \<open>Only the fields \<open>kernel_fault_resolved\<close> looks at matter.\<close>

definition same_record :: "trap_state \<Rightarrow> trap_state \<Rightarrow> bool" where
  "same_record s t \<longleftrightarrow>
     ts_m t = ts_m s \<and> ts_signals t = ts_signals s \<and> ts_uaccess_err t = ts_uaccess_err s \<and> ts_died t = ts_died s \<and>
     ts_trap_nr t = ts_trap_nr s \<and> ts_error_code t = ts_error_code s"

lemma same_record_sti:
  "same_record s (conditional_sti s)" "same_record s (preempt_conditional_sti s)" "same_record s (preempt_conditional_cli s)"
  "same_record s (s\<lparr>ts_irq := b\<rparr>)" "same_record s (s\<lparr>ts_ignore_fpu_irq := b\<rparr>)" "same_record s s"
  by (simp_all add: same_record_def conditional_sti_def preempt_conditional_sti_def preempt_conditional_cli_def Let_def)

lemma same_record_trans: "same_record s t \<Longrightarrow> same_record t u \<Longrightarrow> same_record s u"
  by (simp add: same_record_def)

lemma resolved_record:
  "same_record s t \<Longrightarrow> same_record t' s' \<Longrightarrow> kernel_fault_resolved fs nr str err t t' \<Longrightarrow> kernel_fault_resolved fs nr str err s s'"
  by (auto simp: same_record_def kernel_fault_resolved_def split: option.splits)

lemma do_trap_kernel_record:
  assumes "\<not> user_mode (ts_regs s)" "linked_table env fs" "same_record s t" "same_record (do_trap env nr sg str err info t) s'"
  shows "kernel_fault_resolved fs nr str err s s'"
proof (rule resolved_record [OF assms(3, 4)], rule do_trap_kernel [OF _ assms(2)])
  show "\<not> user_mode (ts_regs t)" using assms(1, 3) by (simp add: same_record_def)
qed

definition unclaimed :: "trap_env \<Rightarrow> bool" where
  "unclaimed env \<longleftrightarrow> (\<forall>val str err nr sg t. notify_die env val str err nr sg t = Some (NOTIFY_DONE, t))"

lemma notify_done_stop: "NOTIFY_DONE \<noteq> NOTIFY_STOP"
  by (simp add: NOTIFY_DONE_def NOTIFY_STOP_def NOTIFY_OK_def NOTIFY_STOP_MASK_def)

lemma DO_ERROR_kernel:
  assumes "unclaimed env" "linked_table env fs" "\<not> user_mode (ts_regs s)"
  shows "\<exists>s'. DO_ERROR env nr sg str info err s = Some s' \<and> kernel_fault_resolved fs nr str err s s'"
  using assms(1) do_trap_kernel_record [OF assms(3, 2) same_record_sti(1) same_record_sti(6)] notify_done_stop
  by (simp add: DO_ERROR_def unclaimed_def)

lemma math_error_kernel:
  assumes "unclaimed env" "linked_table env fs" "\<not> user_mode (ts_regs s)"
    and "str = (if nr = X86_TRAP_MF then ''fpu exception'' else ''simd exception'')"
  shows "\<exists>s'. math_error env err nr s = Some s' \<and> kernel_fault_resolved fs nr str err s s'"
  using assms(1, 3) notify_done_stop unfolding assms(4)
  by (auto simp: math_error_def unclaimed_def try_fixup_linked [OF assms(2)] kernel_fault_resolved_def die_def set_fault_def
      set_regs_def conditional_sti_def split: option.split)

lemma general_protection_kernel:
  assumes "unclaimed env" "linked_table env fs" "\<not> user_mode (ts_regs s)"
  shows "\<exists>s'. do_general_protection env err s = Some s' \<and>
    kernel_fault_resolved fs X86_TRAP_GP ''general protection fault'' err s s'"
  using assms(1, 3) notify_done_stop
  by (auto simp: do_general_protection_def unclaimed_def X86_VM_MASK_def try_fixup_linked [OF assms(2)] kernel_fault_resolved_def
      die_def set_fault_def set_regs_def conditional_sti_def split: option.split)

lemma int3_iret_kernel:
  assumes "unclaimed env" "linked_table env fs" "\<not> user_mode (ts_regs s)"
  shows "\<exists>s'. do_int3 env err s = Some s' \<and> kernel_fault_resolved fs X86_TRAP_BP ''int3'' err s s'"
    and "\<exists>s'. do_iret_error env err s = Some s' \<and> kernel_fault_resolved fs X86_TRAP_IRET ''iret exception'' err s s'"
  using assms(1) notify_done_stop do_trap_kernel_record [OF assms(3, 2) same_record_sti(2) same_record_sti(3)]
    do_trap_kernel_record [OF assms(3, 2) same_record_sti(4) same_record_sti(6)]
  by (simp_all add: do_int3_def do_iret_error_def unclaimed_def)

lemma coprocessor_error_kernel:
  assumes "unclaimed env" "linked_table env fs" "\<not> user_mode (ts_regs s)"
  shows "\<exists>s'. do_coprocessor_error env err s = Some s' \<and> kernel_fault_resolved fs X86_TRAP_MF ''fpu exception'' err s s'"
proof -
  let ?t = "s\<lparr>ts_ignore_fpu_irq := True\<rparr>"
  obtain s' where "math_error env err X86_TRAP_MF ?t = Some s'"
    "kernel_fault_resolved fs X86_TRAP_MF ''fpu exception'' err ?t s'"
    using math_error_kernel [OF assms(1, 2), of ?t "''fpu exception''" X86_TRAP_MF err] assms(3) by auto
  then show ?thesis using resolved_record [OF same_record_sti(5) same_record_sti(6)] by (auto simp: do_coprocessor_error_def)
qed

text \<open>
  C14: A fault taken in kernel mode never signals the current task, whichever of the handlers it reaches: with
  the exception table as the assembler macros emit it, sorted, and no notifier claiming the event, the
  handler returns, and the kernel either continues at the fixup recorded for the faulting instruction with
  the task's fault record untouched, or reports its death with the fault recorded and the machine unchanged.
\<close>

theorem kernel_fault_never_signals:
  assumes "(h, nr, str) \<in> set (fault_handlers env)" and "\<not> user_mode (ts_regs s)"
    and "linked_table env fs" and "unclaimed env"
  shows "\<exists>s'. h err s = Some s' \<and> kernel_fault_resolved fs nr str err s s'"
proof -
  note E = DO_ERROR_kernel [OF assms(4, 3, 2)] and G = general_protection_kernel [OF assms(4, 3, 2)]
    and I = int3_iret_kernel [OF assms(4, 3, 2)] and C = coprocessor_error_kernel [OF assms(4, 3, 2)]
  have "X86_TRAP_XF \<noteq> X86_TRAP_MF" by (simp add: X86_TRAP_XF_def X86_TRAP_MF_def)
  with math_error_kernel [OF assms(4, 3, 2), of "''simd exception''" X86_TRAP_XF err]
  have X: "\<exists>s'. math_error env err X86_TRAP_XF s = Some s' \<and> kernel_fault_resolved fs X86_TRAP_XF ''simd exception'' err s s'"
    by simp
  from assms(1) show ?thesis unfolding fault_handlers_def
    by (auto simp: do_divide_error_def do_overflow_def do_bounds_def do_coprocessor_segment_overrun_def do_invalid_TSS_def
        do_segment_not_present_def do_stack_segment_def do_alignment_check_def do_simd_coprocessor_error_def E G I C X)
qed

text \<open>
  C15: A single-step trap that hits kernel code and that no notifier claims is not reported: the trap flag is cleared, the step
  is remembered for the return to user mode, the debug status is consumed, no signal is sent and the
  preemption count is back where it was.
\<close>

theorem do_debug_kernel_step:
  assumes "ts_dr6 s AND NOT DR6_RESERVED = DR_STEP" and "\<not> user_mode (ts_regs s)"
    and "\<And>t. notify_die env DIE_DEBUG ''debug'' p err SIGTRAP t = Some (NOTIFY_DONE, t)"
  shows "\<exists>s'. do_debug env p err s = Some s' \<and> ts_signals s' = ts_signals s \<and> ts_singlestep s' \<and>
     \<not> bit (pt_flags (ts_regs s')) 8 \<and> ts_dr6 s' = 0 \<and> ts_debugreg6 s' = 0 \<and>
     ts_preempt s' = ts_preempt s \<and> pt_ip (ts_regs s') = pt_ip (ts_regs s)"
proof -
  have "\<not> bit (w AND NOT X86_EFLAGS_TF) 8" for w by (simp add: X86_EFLAGS_TF_def bit_simps)
  moreover have "user_mode (r\<lparr>pt_flags := f\<rparr>) = user_mode r" for r f by (simp add: user_mode_def)
  moreover have "NOTIFY_DONE \<noteq> NOTIFY_STOP"
    by (simp add: NOTIFY_DONE_def NOTIFY_STOP_def NOTIFY_OK_def NOTIFY_STOP_MASK_def)
  moreover have "DR_STEP AND DR_STEP \<noteq> 0" "DR_STEP \<noteq> 0" by (simp_all add: DR_STEP_def)
  ultimately show ?thesis
    using assms by (simp add: do_debug_def Let_def X86_VM_MASK_def preempt_conditional_sti_def
        preempt_conditional_cli_def set_regs_def)
qed






section \<open>Concrete runs\<close>

text \<open>A system with an empty notifier chain and the exception table of \<open>demo_faults\<close>.\<close>

definition demo_env :: trap_env where
  "demo_env = \<lparr>te_die_chain = demo_nheap, te_call = (\<lambda>_ _ s. (NOTIFY_DONE, s)), te_ex_base = 0xc0400000,
     te_ex_table = sort_extable (link_extable 0xc0400000 demo_faults), te_cwd = 0x037f, te_swd = 0x0004,
     te_mxcsr = 0x1f80, te_cr0_em = True, te_math_emulate = Some, te_math_state_restore = (\<lambda>s. s)\<rparr>"

definition demo_trap :: "machine \<Rightarrow> trap_state" where
  "demo_trap m = \<lparr>ts_m = m, ts_irq = False, ts_preempt = 0, ts_error_code = 0, ts_trap_nr = 0,
     ts_uaccess_err = False, ts_dr6 = 0xffff4ff0, ts_debugreg6 = 0, ts_blockstep = False,
     ts_singlestep = False, ts_ignore_fpu_irq = False, ts_signals = [], ts_died = []\<rparr>"

definition demo_kernel :: trap_state where
  "demo_kernel = demo_trap ((demo [])\<lparr>m_regs := demo_regs\<lparr>pt_cs := 0x60, pt_ip := 0xc0101800\<rparr>\<rparr>)"

lemma demo_notify: "notify_die demo_env val str err trap sig s = Some (NOTIFY_DONE, s)"
  unfolding notify_die_def atomic_notifier_call_chain_def notifier_call_chain_def
  by (subst notifier_call_loop.simps) (simp add: demo_env_def demo_nheap_def)

lemma demo_trap_m [simp]: "ts_m (demo_trap m) = m"
  by (simp add: demo_trap_def)

lemma demo_unclaimed: "unclaimed demo_env"
  by (simp add: unclaimed_def demo_notify)

lemma demo_linked: "linked_table demo_env demo_faults"
  using demo_faults_ok by (simp add: linked_table_def demo_env_def list_all_iff)

theorem invalid_op_transparent_witness:
  "\<exists>m2. isa_step (Cmpxchg (OMem 0x2000) DX) 8 (demo demo_cmpxchg) = Some m2 \<and>
     do_invalid_op demo_env 0 (demo_trap (demo demo_cmpxchg)) =
       Some ((demo_trap (demo demo_cmpxchg))\<lparr>ts_m := emulated_result (Cmpxchg (OMem 0x2000) DX) (demo demo_cmpxchg) m2\<rparr>)"
  using invalid_op_transparent [of "demo_trap (demo demo_cmpxchg)", unfolded demo_trap_m, OF demo_cmpxchg_runs] .

theorem invalid_op_sigill_witness:
  "\<exists>s'. do_invalid_op demo_env 0 (demo_trap (demo demo_base)) = Some s' \<and>
     ts_signals s' = [(SIGILL, Some \<lparr>si_signo = SIGILL, si_errno = 0, si_code = ILL_ILLOPN, si_addr = 0x1000\<rparr>)]"
proof -
  obtain m' where m': "parse_emu_instruction (demo demo_base) = Some (- ENOMEM, m')"
    using demo_runs(1) by auto
  have "user_mode demo_regs" by code_simp
  then show ?thesis
    using invalid_op_sigill [of "demo_trap (demo demo_base)" "- ENOMEM" m' demo_env 0 NOTIFY_DONE] m' demo_notify
      notify_done_stop by (auto simp: demo_trap_def demo_def demo_regs_def)
qed

theorem kernel_fault_never_signals_witness:
  "\<exists>s'. do_general_protection demo_env 0 demo_kernel = Some s' \<and> ts_signals s' = [] \<and> ts_died s' = [] \<and>
     pt_ip (ts_regs s') = 0xc0101803 \<and> ts_uaccess_err s'"
proof -
  have "\<not> user_mode (ts_regs demo_kernel)" by code_simp
  moreover have "(do_general_protection demo_env, X86_TRAP_GP, ''general protection fault'') \<in> set (fault_handlers demo_env)"
    by (simp add: fault_handlers_def)
  moreover have "map_of demo_faults (pt_ip (ts_regs demo_kernel)) = Some (0xc0101803, True)" by code_simp
  ultimately show ?thesis
    using kernel_fault_never_signals [OF _ _ demo_linked demo_unclaimed, of "do_general_protection demo_env" X86_TRAP_GP
        "''general protection fault''" demo_kernel 0]
    by (auto simp: kernel_fault_resolved_def demo_kernel_def demo_trap_def)
qed

theorem do_debug_kernel_step_witness:
  "\<exists>s'. do_debug demo_env 0 0 demo_kernel = Some s' \<and> ts_signals s' = [] \<and> ts_singlestep s'"
proof -
  have "ts_dr6 demo_kernel AND NOT DR6_RESERVED = DR_STEP" "\<not> user_mode (ts_regs demo_kernel)" by code_simp+
  from do_debug_kernel_step [OF this demo_notify] show ?thesis
    by (auto simp: demo_kernel_def demo_trap_def)
qed


end
