(* ===== verification/Fpu_State.thy ===== *)
theory Fpu_State
  imports I486_Emu
begin

text \<open>
  The register file, tags, status word and error responses of the FPU emulator
  (\<^verbatim>\<open>arch/x86/math-emu\<close>: \<^verbatim>\<open>fpu_emu.h\<close>, \<^verbatim>\<open>status_w.h\<close>, \<^verbatim>\<open>fpu_tags.c\<close>, \<^verbatim>\<open>errors.c\<close>, \<^verbatim>\<open>reg_constant.c\<close>,
  \<^verbatim>\<open>fpu_aux.c\<close>, \<^verbatim>\<open>fpu_etc.c\<close>). The state is the task's \<^verbatim>\<open>i387_soft_struct\<close>; the eight registers are
  addressed by 3-bit words, so \<^verbatim>\<open>(top + i) & 7\<close> is word addition. \<open>info_set\<close> says that the \<^verbatim>\<open>info\<close>
  pointer is not NULL; the frame it points to is \<open>orig_eip\<close> and the registers in \<open>fpu_m\<close>. The build defines \<^verbatim>\<open>PARANOID\<close> and
  \<^verbatim>\<open>PECULIAR_486\<close>. Console messages are left out.
\<close>

section \<open>Registers and state\<close>

type_synonym regnr = "3 word"

record fpu_reg =
  sigl :: u32
  sigh :: u32
  exp16 :: u16

record fpu =
  control_word :: u32
  partial_status :: u32
  fpu_tag_word :: u32
  soft_fip :: u32
  soft_fcs :: u32
  soft_foo :: u32
  soft_fos :: u32
  st_space :: "regnr \<Rightarrow> fpu_reg"
  fpu_top :: u8
  fpu_lookahead :: u8
  no_ip_update :: u8
  fpu_rm :: u8
  access_limit :: u8
  info_set :: bool
  orig_eip :: u32
  fpu_m :: machine

text \<open>
  An operation either returns, or ends the emulation through \<^verbatim>\<open>math_abort\<close> with a signal.
\<close>

datatype 'a fres = Ret 'a fpu | Abort int fpu

definition fbind :: "'a fres \<Rightarrow> ('a \<Rightarrow> fpu \<Rightarrow> 'b fres) \<Rightarrow> 'b fres" where
  "fbind r f = (case r of Ret a s \<Rightarrow> f a s | Abort sig s \<Rightarrow> Abort sig s)"

abbreviation (input) EXTENDED_Ebias :: int where "EXTENDED_Ebias \<equiv> 0x3fff"
abbreviation (input) EXP_OVER :: int where "EXP_OVER \<equiv> 0x4000"
abbreviation (input) EXP_UNDER :: int where "EXP_UNDER \<equiv> - 0x3fff"

abbreviation (input) TAG_Valid :: u32 where "TAG_Valid \<equiv> 0"
abbreviation (input) TAG_Zero :: u32 where "TAG_Zero \<equiv> 1"
abbreviation (input) TAG_Special :: u32 where "TAG_Special \<equiv> 2"
abbreviation (input) TAG_Empty :: u32 where "TAG_Empty \<equiv> 3"
abbreviation (input) TW_Denormal :: u32 where "TW_Denormal \<equiv> 4"
abbreviation (input) TW_Infinity :: u32 where "TW_Infinity \<equiv> 5"
abbreviation (input) TW_NaN :: u32 where "TW_NaN \<equiv> 6"
abbreviation (input) FPU_Exception :: u32 where "FPU_Exception \<equiv> 0x80000000"

abbreviation (input) SW_Backward :: u32 where "SW_Backward \<equiv> 0x8000"
abbreviation (input) SW_C3 :: u32 where "SW_C3 \<equiv> 0x4000"
abbreviation (input) SW_Top :: u32 where "SW_Top \<equiv> 0x3800"
abbreviation (input) SW_C2 :: u32 where "SW_C2 \<equiv> 0x0400"
abbreviation (input) SW_C1 :: u32 where "SW_C1 \<equiv> 0x0200"
abbreviation (input) SW_C0 :: u32 where "SW_C0 \<equiv> 0x0100"
abbreviation (input) SW_Summary :: u32 where "SW_Summary \<equiv> 0x0080"
abbreviation (input) SW_Stack_Fault :: u32 where "SW_Stack_Fault \<equiv> 0x0040"
abbreviation (input) SW_Denorm_Op :: u32 where "SW_Denorm_Op \<equiv> 0x0002"
abbreviation (input) SW_Exc_Mask :: u32 where "SW_Exc_Mask \<equiv> 0x27f"

abbreviation (input) EX_INTERNAL :: u32 where "EX_INTERNAL \<equiv> 0x8000"
abbreviation (input) EX_StackOver :: u32 where "EX_StackOver \<equiv> 0x0241"
abbreviation (input) EX_StackUnder :: u32 where "EX_StackUnder \<equiv> 0x0041"
abbreviation (input) EX_Precision :: u32 where "EX_Precision \<equiv> 0x0020"
abbreviation (input) EX_Underflow :: u32 where "EX_Underflow \<equiv> 0x0010"
abbreviation (input) EX_Overflow :: u32 where "EX_Overflow \<equiv> 0x0008"
abbreviation (input) EX_ZeroDiv :: u32 where "EX_ZeroDiv \<equiv> 0x0004"
abbreviation (input) EX_Denormal :: u32 where "EX_Denormal \<equiv> 0x0002"
abbreviation (input) EX_Invalid :: u32 where "EX_Invalid \<equiv> 0x0001"
abbreviation (input) PRECISION_LOST_UP :: u32 where "PRECISION_LOST_UP \<equiv> 0x0220"
abbreviation (input) PRECISION_LOST_DOWN :: u32 where "PRECISION_LOST_DOWN \<equiv> 0x0020"

abbreviation (input) CW_RC :: u32 where "CW_RC \<equiv> 0x0C00"
abbreviation (input) CW_Precision :: u32 where "CW_Precision \<equiv> 0x0020"
abbreviation (input) CW_Underflow :: u32 where "CW_Underflow \<equiv> 0x0010"
abbreviation (input) CW_Overflow :: u32 where "CW_Overflow \<equiv> 0x0008"
abbreviation (input) CW_ZeroDiv :: u32 where "CW_ZeroDiv \<equiv> 0x0004"
abbreviation (input) CW_Denormal :: u32 where "CW_Denormal \<equiv> 0x0002"
abbreviation (input) CW_Invalid :: u32 where "CW_Invalid \<equiv> 0x0001"
abbreviation (input) CW_Exceptions :: u32 where "CW_Exceptions \<equiv> 0x003f"
abbreviation (input) RC_RND :: u32 where "RC_RND \<equiv> 0x0000"
abbreviation (input) RC_DOWN :: u32 where "RC_DOWN \<equiv> 0x0400"
abbreviation (input) RC_UP :: u32 where "RC_UP \<equiv> 0x0800"
abbreviation (input) RC_CHOP :: u32 where "RC_CHOP \<equiv> 0x0C00"

section \<open>Accessors\<close>

text \<open>The macros on the sign and exponent halfword.\<close>

definition getsign :: "fpu_reg \<Rightarrow> bool" where
  "getsign r \<longleftrightarrow> bit (exp16 r) 15"

definition setpositive :: "fpu_reg \<Rightarrow> fpu_reg" where
  "setpositive r = r\<lparr>exp16 := exp16 r AND 0x7fff\<rparr>"

definition setnegative :: "fpu_reg \<Rightarrow> fpu_reg" where
  "setnegative r = r\<lparr>exp16 := exp16 r OR 0x8000\<rparr>"

definition setsign :: "bool \<Rightarrow> fpu_reg \<Rightarrow> fpu_reg" where
  "setsign b r = (if b then setnegative r else setpositive r)"

definition changesign :: "fpu_reg \<Rightarrow> fpu_reg" where
  "changesign r = r\<lparr>exp16 := exp16 r XOR 0x8000\<rparr>"

definition exponent :: "fpu_reg \<Rightarrow> int" where
  "exponent r = uint (exp16 r AND 0x7fff) - EXTENDED_Ebias"

definition exponent16 :: "fpu_reg \<Rightarrow> int" where
  "exponent16 r = sint (exp16 r)"

definition setexponent16 :: "int \<Rightarrow> fpu_reg \<Rightarrow> fpu_reg" where
  "setexponent16 e r = r\<lparr>exp16 := word_of_int e\<rparr>"

definition addexponent :: "int \<Rightarrow> fpu_reg \<Rightarrow> fpu_reg" where
  "addexponent e r = r\<lparr>exp16 := exp16 r + word_of_int e\<rparr>"

definition stdexp :: "fpu_reg \<Rightarrow> fpu_reg" where
  "stdexp r = addexponent EXTENDED_Ebias r"

definition significand :: "fpu_reg \<Rightarrow> u64" where
  "significand r = push_bit 32 (ucast (sigh r)) OR ucast (sigl r)"

definition set_significand :: "u64 \<Rightarrow> fpu_reg \<Rightarrow> fpu_reg" where
  "set_significand v r = r\<lparr>sigl := ucast v, sigh := ucast (drop_bit 32 v)\<rparr>"

definition top_reg :: "fpu \<Rightarrow> regnr" where
  "top_reg s = ucast (fpu_top s)"

definition st :: "fpu \<Rightarrow> regnr \<Rightarrow> fpu_reg" where
  "st s i = st_space s (top_reg s + i)"

definition set_st :: "regnr \<Rightarrow> fpu_reg \<Rightarrow> fpu \<Rightarrow> fpu" where
  "set_st i r s = s\<lparr>st_space := (st_space s)(top_reg s + i := r)\<rparr>"

definition or_status :: "u32 \<Rightarrow> fpu \<Rightarrow> fpu" where
  "or_status w s = s\<lparr>partial_status := partial_status s OR w\<rparr>"

definition clear_status :: "u32 \<Rightarrow> fpu \<Rightarrow> fpu" where
  "clear_status w s = s\<lparr>partial_status := partial_status s AND NOT w\<rparr>"

definition status_word :: "fpu \<Rightarrow> u32" where
  "status_word s =
     (partial_status s AND NOT SW_Top AND 0xffff) OR (push_bit 11 (ucast (fpu_top s)) AND SW_Top)"

definition setcc :: "u32 \<Rightarrow> fpu \<Rightarrow> fpu" where
  "setcc cc s = or_status (cc AND 0x4700) (clear_status 0x4700 s)"

definition clear_C1 :: "fpu \<Rightarrow> fpu" where
  "clear_C1 s = clear_status SW_C1 s"

text \<open>Whether a control-word mask bit is set.\<close>

definition masked :: "u32 \<Rightarrow> fpu \<Rightarrow> bool" where
  "masked m s \<longleftrightarrow> control_word s AND m \<noteq> 0"

section \<open>Tags\<close>

definition FPU_gettag :: "fpu \<Rightarrow> regnr \<Rightarrow> u32" where
  "FPU_gettag s r = drop_bit (unat r * 2) (fpu_tag_word s) AND 3"

definition FPU_gettagi :: "fpu \<Rightarrow> regnr \<Rightarrow> u32" where
  "FPU_gettagi s i = FPU_gettag s (top_reg s + i)"

definition FPU_gettag0 :: "fpu \<Rightarrow> u32" where
  "FPU_gettag0 s = FPU_gettag s (top_reg s)"

definition FPU_settag :: "regnr \<Rightarrow> u32 \<Rightarrow> fpu \<Rightarrow> fpu" where
  "FPU_settag r tag s =
     s\<lparr>fpu_tag_word := (fpu_tag_word s AND NOT (push_bit (unat r * 2) 3)) OR push_bit (unat r * 2) (tag AND 3)\<rparr>"

definition FPU_settagi :: "regnr \<Rightarrow> u32 \<Rightarrow> fpu \<Rightarrow> fpu" where
  "FPU_settagi i tag s = FPU_settag (top_reg s + i) tag s"

definition FPU_settag0 :: "u32 \<Rightarrow> fpu \<Rightarrow> fpu" where
  "FPU_settag0 tag s = FPU_settag (top_reg s) tag s"

definition FPU_pop :: "fpu \<Rightarrow> fpu" where
  "FPU_pop s =
     s\<lparr>fpu_tag_word := fpu_tag_word s OR push_bit (unat (top_reg s) * 2) 3, fpu_top := fpu_top s + 1\<rparr>"

definition fpu_push :: "fpu \<Rightarrow> fpu" where
  "fpu_push s = s\<lparr>fpu_top := fpu_top s - 1\<rparr>"

definition FPU_Special :: "fpu_reg \<Rightarrow> u32" where
  "FPU_Special r =
     (if exponent r = EXP_UNDER then TW_Denormal
      else if exponent r \<noteq> EXP_OVER then TW_NaN
      else if sigh r = 0x80000000 \<and> sigl r = 0 then TW_Infinity
      else TW_NaN)"

definition isNaN :: "fpu_reg \<Rightarrow> bool" where
  "isNaN r \<longleftrightarrow> exponent r = EXP_OVER \<and> \<not> (sigh r = 0x80000000 \<and> sigl r = 0)"

definition FPU_tagof :: "fpu_reg \<Rightarrow> u32" where
  "FPU_tagof r =
     (let e = exp16 r AND 0x7fff in
      if e = 0 then (if sigh r OR sigl r = 0 then TAG_Zero else TAG_Special)
      else if e = 0x7fff then TAG_Special
      else if sigh r AND 0x80000000 = 0 then TAG_Special
      else TAG_Valid)"

definition FPU_empty_i :: "fpu \<Rightarrow> regnr \<Rightarrow> bool" where
  "FPU_empty_i s i \<longleftrightarrow> FPU_gettag s (top_reg s + i) = TAG_Empty"

definition STACK_OVERFLOW :: "fpu \<Rightarrow> bool" where
  "STACK_OVERFLOW s \<longleftrightarrow> FPU_gettag s (top_reg s - 1) \<noteq> TAG_Empty"

definition FPU_copy_to_regi :: "fpu_reg \<Rightarrow> u32 \<Rightarrow> regnr \<Rightarrow> fpu \<Rightarrow> fpu" where
  "FPU_copy_to_regi r tag i s = FPU_settagi i tag (set_st i r s)"

definition FPU_copy_to_reg1 :: "fpu_reg \<Rightarrow> u32 \<Rightarrow> fpu \<Rightarrow> fpu" where
  "FPU_copy_to_reg1 r tag s = FPU_settagi 1 tag (set_st 1 r s)"

definition FPU_copy_to_reg0 :: "fpu_reg \<Rightarrow> u32 \<Rightarrow> fpu \<Rightarrow> fpu" where
  "FPU_copy_to_reg0 r tag s = FPU_settag0 tag (set_st 0 r s)"

section \<open>Constants\<close>

definition MAKE_REG :: "bool \<Rightarrow> int \<Rightarrow> u32 \<Rightarrow> u32 \<Rightarrow> fpu_reg" where
  "MAKE_REG neg e l h = \<lparr>sigl = l, sigh = h, exp16 = word_of_int (EXTENDED_Ebias + e) OR (if neg then 0x8000 else 0)\<rparr>"

definition CONST_1 :: fpu_reg where "CONST_1 = MAKE_REG False 0 0x00000000 0x80000000"
definition CONST_L2T :: fpu_reg where "CONST_L2T = MAKE_REG False 1 0xcd1b8afe 0xd49a784b"
definition CONST_L2E :: fpu_reg where "CONST_L2E = MAKE_REG False 0 0x5c17f0bc 0xb8aa3b29"
definition CONST_PI :: fpu_reg where "CONST_PI = MAKE_REG False 1 0x2168c235 0xc90fdaa2"
definition CONST_LG2 :: fpu_reg where "CONST_LG2 = MAKE_REG False (- 2) 0xfbcff799 0x9a209a84"
definition CONST_LN2 :: fpu_reg where "CONST_LN2 = MAKE_REG False (- 1) 0xd1cf79ac 0xb17217f7"
definition CONST_Z :: fpu_reg where "CONST_Z = MAKE_REG False EXP_UNDER 0 0"
definition CONST_QNaN :: fpu_reg where "CONST_QNaN = MAKE_REG True EXP_OVER 0x00000000 0xC0000000"
definition CONST_INF :: fpu_reg where "CONST_INF = MAKE_REG False EXP_OVER 0x00000000 0x80000000"

section \<open>Exceptions and error responses\<close>

definition FPU_exception :: "u32 \<Rightarrow> fpu \<Rightarrow> fpu" where
  "FPU_exception n s =
     (if n AND EX_INTERNAL \<noteq> 0 then or_status (SW_Exc_Mask OR SW_Summary OR SW_Backward) s
      else
        (let n = n AND SW_Exc_Mask;
             s = or_status n s;
             s = (if partial_status s AND NOT (control_word s) AND CW_Exceptions \<noteq> 0
                  then or_status (SW_Summary OR SW_Backward) s else s) in
         if n AND (SW_Stack_Fault OR EX_Precision) \<noteq> 0 \<and> n AND SW_C1 = 0
         then clear_status SW_C1 s else s))"

definition exc_if :: "bool \<Rightarrow> u32" where
  "exc_if b = (if b then FPU_Exception else 0)"

definition real_1op_NaN :: "fpu_reg \<Rightarrow> fpu \<Rightarrow> u32 \<times> fpu_reg \<times> fpu" where
  "real_1op_NaN a s =
     (let isnan = (exponent a = EXP_OVER \<and> sigh a AND 0x80000000 \<noteq> 0);
          signalling = (isnan \<and> sigh a AND 0x40000000 = 0) in
      if \<not> signalling then
        (if \<not> isnan then
           (let a = (if masked CW_Invalid s then CONST_QNaN else a);
                s = FPU_exception EX_Invalid s in
            (exc_if (\<not> masked CW_Invalid s) OR TAG_Special, a, s))
         else (TAG_Special, a, s))
      else
        (let a = (if masked CW_Invalid s then
                    (let a = (if sigh a AND 0x80000000 = 0 then CONST_QNaN else a) in
                     a\<lparr>sigh := sigh a OR 0x40000000\<rparr>)
                  else a);
             s = FPU_exception EX_Invalid s in
         (exc_if (\<not> masked CW_Invalid s) OR TAG_Special, a, s)))"

text \<open>
  The choice of the NaN two operands propagate, and whether one of them signals. The default NaN
  pointer is never \<^verbatim>\<open>NULL\<close> in the callers.
\<close>

definition choose_NaN :: "fpu_reg \<Rightarrow> u32 \<Rightarrow> fpu_reg \<Rightarrow> u32 \<Rightarrow> fpu_reg \<Rightarrow> fpu \<Rightarrow> bool \<times> fpu_reg \<times> fpu" where
  "choose_NaN a taga b tagb defaultNaN s =
     (if taga = TW_NaN then
        (if tagb = TW_NaN then
           (sigh a AND sigh b AND 0x40000000 = 0,
            (if significand a < significand b then b
             else if significand b = significand a then defaultNaN else a), s)
         else (sigh a AND 0x40000000 = 0, a, s))
      else if tagb = TW_NaN then (sigh b AND 0x40000000 = 0, b, s)
      else (False, CONST_QNaN, FPU_exception (EX_INTERNAL OR 0x113) s))"

definition special_tag :: "fpu_reg \<Rightarrow> u32 \<Rightarrow> u32" where
  "special_tag r tag = (if tag = TAG_Special then FPU_Special r else tag)"

definition unsupported_NaN :: "fpu_reg \<Rightarrow> u32 \<Rightarrow> bool" where
  "unsupported_NaN r tag \<longleftrightarrow> tag = TW_NaN \<and> \<not> (exponent r = EXP_OVER \<and> sigh r AND 0x80000000 \<noteq> 0)"

definition real_2op_NaN :: "fpu_reg \<Rightarrow> u32 \<Rightarrow> regnr \<Rightarrow> fpu_reg \<Rightarrow> fpu \<Rightarrow> u32 \<times> fpu" where
  "real_2op_NaN b tagb deststnr defaultNaN s =
     (let a = st s deststnr;
          taga = special_tag a (FPU_gettagi s deststnr);
          tagb = special_tag b tagb in
      if unsupported_NaN a taga \<or> unsupported_NaN b tagb then
        (let s = (if masked CW_Invalid s then FPU_copy_to_regi CONST_QNaN TAG_Special deststnr s else s);
             s = FPU_exception EX_Invalid s in
         (exc_if (\<not> masked CW_Invalid s) OR TAG_Special, s))
      else
        (let (signalling, x, s) = choose_NaN a taga b tagb defaultNaN s in
         if \<not> signalling \<or> masked CW_Invalid s then
           (let x = (if sigh x AND 0x80000000 = 0 then CONST_QNaN else x);
                s = FPU_copy_to_regi x TAG_Special deststnr s in
            if \<not> signalling then (TAG_Special, s)
            else
              (let d = st s deststnr;
                   s = FPU_exception EX_Invalid (set_st deststnr (d\<lparr>sigh := sigh d OR 0x40000000\<rparr>) s) in
               (exc_if (\<not> masked CW_Invalid s) OR TAG_Special, s)))
         else
           (let s = FPU_exception EX_Invalid s in
            (exc_if (\<not> masked CW_Invalid s) OR TAG_Special, s))))"

definition arith_invalid :: "regnr \<Rightarrow> fpu \<Rightarrow> u32 \<times> fpu" where
  "arith_invalid deststnr s =
     (let s = FPU_exception EX_Invalid s;
          s = (if masked CW_Invalid s then FPU_copy_to_regi CONST_QNaN TAG_Special deststnr s else s) in
      (exc_if (\<not> masked CW_Invalid s) OR TAG_Valid, s))"

definition FPU_divide_by_zero :: "regnr \<Rightarrow> bool \<Rightarrow> fpu \<Rightarrow> u32 \<times> fpu" where
  "FPU_divide_by_zero deststnr sign s =
     (let (tag, s) =
            (if masked CW_ZeroDiv s then
               (let s = FPU_copy_to_regi CONST_INF TAG_Special deststnr s in
                (TAG_Special, set_st deststnr (setsign sign (st s deststnr)) s))
             else (TAG_Valid, s));
          s = FPU_exception EX_ZeroDiv s in
      (exc_if (\<not> masked CW_ZeroDiv s) OR tag, s))"

definition set_precision_flag :: "u32 \<Rightarrow> fpu \<Rightarrow> u32 \<times> fpu" where
  "set_precision_flag flags s =
     (if masked CW_Precision s then (0, or_status flags (clear_status (SW_C1 AND flags) s))
      else (1, FPU_exception flags s))"

definition set_precision_flag_up :: "fpu \<Rightarrow> fpu" where
  "set_precision_flag_up s =
     (if masked CW_Precision s then or_status (EX_Precision OR SW_C1) s
      else FPU_exception (EX_Precision OR SW_C1) s)"

definition set_precision_flag_down :: "fpu \<Rightarrow> fpu" where
  "set_precision_flag_down s =
     (if masked CW_Precision s then or_status EX_Precision (clear_status SW_C1 s)
      else FPU_exception EX_Precision s)"

definition denormal_operand :: "fpu \<Rightarrow> u32 \<times> fpu" where
  "denormal_operand s =
     (if masked CW_Denormal s then (TAG_Special, or_status SW_Denorm_Op s)
      else (TAG_Special OR FPU_Exception, FPU_exception EX_Denormal s))"

definition arith_overflow :: "fpu_reg \<Rightarrow> fpu \<Rightarrow> u32 \<times> fpu_reg \<times> fpu" where
  "arith_overflow dest s =
     (let (tag, dest) = (if masked CW_Overflow s then (TAG_Special, CONST_INF)
                         else (TAG_Valid, addexponent (- (3 * 2 ^ 13)) dest));
          s = FPU_exception EX_Overflow s in
      (tag, dest, if masked CW_Overflow s then FPU_exception (EX_Precision OR SW_C1) s else s))"

definition arith_underflow :: "fpu_reg \<Rightarrow> fpu \<Rightarrow> u32 \<times> fpu_reg \<times> fpu" where
  "arith_underflow dest s =
     (let (tag, dest, s) =
            (if masked CW_Underflow s then
               (if exponent16 dest \<le> EXP_UNDER - 63 then (TAG_Zero, CONST_Z, clear_status SW_C1 s)
                else (TAG_Valid, stdexp dest, s))
             else (TAG_Valid, addexponent (3 * 2 ^ 13 + EXTENDED_Ebias) dest, s));
          s = FPU_exception EX_Underflow s in
      (tag, dest, if masked CW_Underflow s then FPU_exception EX_Precision s else s))"

definition FPU_stack_overflow :: "fpu \<Rightarrow> fpu" where
  "FPU_stack_overflow s =
     FPU_exception EX_StackOver
       (if masked CW_Invalid s then FPU_copy_to_reg0 CONST_QNaN TAG_Special (fpu_push s) else s)"

definition FPU_stack_underflow :: "fpu \<Rightarrow> fpu" where
  "FPU_stack_underflow s =
     FPU_exception EX_StackUnder
       (if masked CW_Invalid s then FPU_copy_to_reg0 CONST_QNaN TAG_Special s else s)"

definition FPU_stack_underflow_i :: "regnr \<Rightarrow> fpu \<Rightarrow> fpu" where
  "FPU_stack_underflow_i i s =
     FPU_exception EX_StackUnder
       (if masked CW_Invalid s then FPU_copy_to_regi CONST_QNaN TAG_Special i s else s)"

definition FPU_stack_underflow_pop :: "regnr \<Rightarrow> fpu \<Rightarrow> fpu" where
  "FPU_stack_underflow_pop i s =
     FPU_exception EX_StackUnder
       (if masked CW_Invalid s then FPU_pop (FPU_copy_to_regi CONST_QNaN TAG_Special i s) else s)"

text \<open>
  \<^verbatim>\<open>math_abort\<close>: the instruction pointer returns to the faulting instruction, the signal is sent and
  the emulator's stack is abandoned.
\<close>

definition fpu_eip :: "fpu \<Rightarrow> u32" where
  "fpu_eip s = pt_ip (m_regs (fpu_m s))"

definition set_fpu_eip :: "u32 \<Rightarrow> fpu \<Rightarrow> fpu" where
  "set_fpu_eip a s = s\<lparr>fpu_m := (fpu_m s)\<lparr>m_regs := (m_regs (fpu_m s))\<lparr>pt_ip := a\<rparr>\<rparr>\<rparr>"

definition math_abort :: "int \<Rightarrow> fpu \<Rightarrow> 'a fres" where
  "math_abort sig s = Abort sig (set_fpu_eip (orig_eip s) s)"

definition FPU_illegal :: "fpu \<Rightarrow> unit fres" where
  "FPU_illegal s = math_abort SIGILL s"

section \<open>Auxiliary instructions\<close>

definition fnop :: "fpu \<Rightarrow> fpu" where
  "fnop s = s"

definition fclex :: "fpu \<Rightarrow> fpu" where
  "fclex s = (clear_status (SW_Backward OR SW_Summary OR SW_Stack_Fault OR EX_Precision OR EX_Underflow
                            OR EX_Overflow OR EX_ZeroDiv OR SW_Denorm_Op OR EX_Invalid) s)\<lparr>no_ip_update := 1\<rparr>"

text \<open>
  \<^verbatim>\<open>memset\<close> clears the whole structure, the \<^verbatim>\<open>info\<close> pointer and the lookahead flag with it.
\<close>

definition finit_soft_fpu :: "fpu \<Rightarrow> fpu" where
  "finit_soft_fpu s =
     \<lparr>control_word = 0x037f, partial_status = 0, fpu_tag_word = 0xffff,
      soft_fip = 0, soft_fcs = 0, soft_foo = 0, soft_fos = 0,
      st_space = (\<lambda>_. \<lparr>sigl = 0, sigh = 0, exp16 = 0\<rparr>), fpu_top = 0, fpu_lookahead = 0,
      no_ip_update = 1, fpu_rm = 0, access_limit = 0, info_set = False,
      orig_eip = orig_eip s, fpu_m = fpu_m s\<rparr>"

definition finit :: "fpu \<Rightarrow> fpu" where
  "finit s = finit_soft_fpu s"

definition finit_instr :: "fpu \<Rightarrow> unit fres" where
  "finit_instr s =
     (if fpu_rm s = 0 \<or> fpu_rm s = 1 \<or> fpu_rm s = 4 then Ret () (fnop s)
      else if fpu_rm s = 2 then Ret () (fclex s)
      else if fpu_rm s = 3 then Ret () (finit s)
      else FPU_illegal s)"

definition fstsw_ax :: "fpu \<Rightarrow> fpu" where
  "fstsw_ax s =
     s\<lparr>fpu_m := (fpu_m s)\<lparr>m_regs := (m_regs (fpu_m s))
         \<lparr>pt_ax := (pt_ax (m_regs (fpu_m s)) AND 0xffff0000) OR (status_word s AND 0xffff)\<rparr>\<rparr>,
       no_ip_update := 1\<rparr>"

definition fstsw_instr :: "fpu \<Rightarrow> unit fres" where
  "fstsw_instr s = (if fpu_rm s = 0 then Ret () (fstsw_ax s) else FPU_illegal s)"

definition fp_nop :: "fpu \<Rightarrow> unit fres" where
  "fp_nop s = (if fpu_rm s = 0 then Ret () (fnop s) else FPU_illegal s)"

definition rm_reg :: "fpu \<Rightarrow> regnr" where
  "rm_reg s = ucast (fpu_rm s)"

definition fld_i :: "fpu \<Rightarrow> fpu" where
  "fld_i s =
     (if STACK_OVERFLOW s then FPU_stack_overflow s
      else
        (let i = rm_reg s in
         if \<not> FPU_empty_i s i then
           (let tag = FPU_gettagi s i in FPU_settag0 tag (fpu_push (set_st (- 1) (st s i) s)))
         else if masked CW_Invalid s then FPU_stack_underflow s
         else FPU_exception EX_StackUnder s))"

definition fxch_i :: "fpu \<Rightarrow> fpu" where
  "fxch_i s =
     (let i = rm_reg s; regnr = top_reg s; regnri = regnr + i;
          tag_word = fpu_tag_word s;
          st0_tag = drop_bit (unat regnr * 2) tag_word AND 3;
          sti_tag = drop_bit (unat regnri * 2) tag_word AND 3 in
      if st0_tag = TAG_Empty then
        (if sti_tag = TAG_Empty then FPU_stack_underflow_i i (FPU_stack_underflow s)
         else FPU_stack_underflow_i i
                (if masked CW_Invalid s then FPU_copy_to_reg0 (st s i) sti_tag s else s))
      else if sti_tag = TAG_Empty then
        FPU_stack_underflow (if masked CW_Invalid s then FPU_copy_to_regi (st s 0) st0_tag i s else s)
      else
        (let t = st s 0;
             s = clear_C1 s;
             s = set_st 0 (st s i) s;
             s = set_st i t s in
         s\<lparr>fpu_tag_word :=
             (tag_word AND (NOT (push_bit (unat regnr * 2) 3) AND NOT (push_bit (unat regnri * 2) 3)))
             OR (push_bit (unat regnr * 2) sti_tag OR push_bit (unat regnri * 2) st0_tag)\<rparr>))"

definition ffree :: "fpu \<Rightarrow> fpu" where
  "ffree s = FPU_settagi (rm_reg s) TAG_Empty s"

definition ffreep :: "fpu \<Rightarrow> fpu" where
  "ffreep s = FPU_pop (FPU_settagi (rm_reg s) TAG_Empty s)"

definition fst_i :: "fpu \<Rightarrow> fpu" where
  "fst_i s = FPU_copy_to_regi (st s 0) (FPU_gettag0 s) (rm_reg s) s"

definition fstp_i :: "fpu \<Rightarrow> fpu" where
  "fstp_i s = FPU_pop (FPU_copy_to_regi (st s 0) (FPU_gettag0 s) (rm_reg s) s)"

section \<open>Sign, test and examine instructions\<close>

definition fchs :: "fpu \<Rightarrow> fpu" where
  "fchs s =
     (if FPU_gettag0 s XOR TAG_Empty \<noteq> 0 then clear_C1 (set_st 0 (changesign (st s 0)) s)
      else FPU_stack_underflow s)"

definition fabs :: "fpu \<Rightarrow> fpu" where
  "fabs s =
     (if FPU_gettag0 s XOR TAG_Empty \<noteq> 0 then clear_C1 (set_st 0 (setpositive (st s 0)) s)
      else FPU_stack_underflow s)"

definition ftst :: "fpu \<Rightarrow> fpu" where
  "ftst s =
     (let st0 = st s 0; tag = FPU_gettag0 s;
          sign_cc = (if \<not> getsign st0 then 0 else SW_C0) in
      if tag = TAG_Zero then setcc SW_C3 s
      else if tag = TAG_Valid then setcc sign_cc s
      else if tag = TAG_Special then
        (if FPU_Special st0 = TW_Denormal then
           (let (r, s) = denormal_operand (setcc sign_cc s) in
            if r AND FPU_Exception \<noteq> 0 then (if \<not> getsign st0 then setcc SW_C3 s else s) else s)
         else if FPU_Special st0 = TW_NaN then
           FPU_exception EX_Invalid (setcc (SW_C0 OR SW_C2 OR SW_C3) s)
         else if FPU_Special st0 = TW_Infinity then setcc sign_cc s
         else FPU_exception (EX_INTERNAL OR 0x14) (setcc (SW_C0 OR SW_C2 OR SW_C3) s))
      else if tag = TAG_Empty then FPU_exception EX_StackUnder (setcc (SW_C0 OR SW_C2 OR SW_C3) s)
      else s)"

definition fxam :: "fpu \<Rightarrow> fpu" where
  "fxam s =
     (let st0 = st s 0; tag = FPU_gettag0 s;
          c = (if tag = TAG_Empty then SW_C3 OR SW_C0
               else if tag = TAG_Zero then SW_C3
               else if tag = TAG_Valid then SW_C2
               else if tag = TAG_Special then
                 (if FPU_Special st0 = TW_Denormal then SW_C2 OR SW_C3
                  else if FPU_Special st0 = TW_NaN then
                    (if sigh st0 AND 0x80000000 \<noteq> 0 \<and> exponent st0 = EXP_OVER then SW_C0 else 0)
                  else if FPU_Special st0 = TW_Infinity then SW_C2 OR SW_C0
                  else 0)
               else 0) in
      setcc (if getsign st0 then c OR SW_C1 else c) s)"

definition FPU_etc :: "fpu \<Rightarrow> unit fres" where
  "FPU_etc s =
     (if fpu_rm s = 0 then Ret () (fchs s)
      else if fpu_rm s = 1 then Ret () (fabs s)
      else if fpu_rm s = 4 then Ret () (ftst s)
      else if fpu_rm s = 5 then Ret () (fxam s)
      else FPU_illegal s)"

section \<open>Loading the constants\<close>

definition fld_const :: "fpu_reg \<Rightarrow> int \<Rightarrow> u32 \<Rightarrow> fpu \<Rightarrow> fpu" where
  "fld_const c adj tag s =
     (if STACK_OVERFLOW s then FPU_stack_overflow s
      else clear_C1 (FPU_settag0 tag (set_st 0 (c\<lparr>sigl := sigl c + word_of_int adj\<rparr>) (fpu_push s))))"

definition DOWN_OR_CHOP :: "u32 \<Rightarrow> bool" where
  "DOWN_OR_CHOP rc \<longleftrightarrow> rc AND RC_DOWN \<noteq> 0"

definition fld1 :: "u32 \<Rightarrow> fpu \<Rightarrow> fpu" where
  "fld1 rc = fld_const CONST_1 0 TAG_Valid"

definition fldl2t :: "u32 \<Rightarrow> fpu \<Rightarrow> fpu" where
  "fldl2t rc = fld_const CONST_L2T (if rc = RC_UP then 1 else 0) TAG_Valid"

definition fldl2e :: "u32 \<Rightarrow> fpu \<Rightarrow> fpu" where
  "fldl2e rc = fld_const CONST_L2E (if DOWN_OR_CHOP rc then - 1 else 0) TAG_Valid"

definition fldpi :: "u32 \<Rightarrow> fpu \<Rightarrow> fpu" where
  "fldpi rc = fld_const CONST_PI (if DOWN_OR_CHOP rc then - 1 else 0) TAG_Valid"

definition fldlg2 :: "u32 \<Rightarrow> fpu \<Rightarrow> fpu" where
  "fldlg2 rc = fld_const CONST_LG2 (if DOWN_OR_CHOP rc then - 1 else 0) TAG_Valid"

definition fldln2 :: "u32 \<Rightarrow> fpu \<Rightarrow> fpu" where
  "fldln2 rc = fld_const CONST_LN2 (if DOWN_OR_CHOP rc then - 1 else 0) TAG_Valid"

definition fldz :: "u32 \<Rightarrow> fpu \<Rightarrow> fpu" where
  "fldz rc = fld_const CONST_Z 0 TAG_Zero"

definition fconst :: "fpu \<Rightarrow> unit fres" where
  "fconst s =
     (let rc = control_word s AND CW_RC in
      if fpu_rm s = 0 then Ret () (fld1 rc s)
      else if fpu_rm s = 1 then Ret () (fldl2t rc s)
      else if fpu_rm s = 2 then Ret () (fldl2e rc s)
      else if fpu_rm s = 3 then Ret () (fldpi rc s)
      else if fpu_rm s = 4 then Ret () (fldlg2 rc s)
      else if fpu_rm s = 5 then Ret () (fldln2 rc s)
      else if fpu_rm s = 6 then Ret () (fldz rc s)
      else FPU_illegal s)"

end
