(* ===== verification/Fpu_Num.thy ===== *)
theory Fpu_Num
  imports Fpu_State Complex_Main
begin

text \<open>
  The emulator's assembler primitives on 64-bit significands (\<^verbatim>\<open>wm_shrx.S\<close>, \<^verbatim>\<open>reg_norm.S\<close>,
  \<^verbatim>\<open>div_small.S\<close>), conversion to 16-bit exponents (\<^verbatim>\<open>reg_convert.c\<close>), rounding to an integer
  (\<^verbatim>\<open>FPU_round_to_int\<close>), and the real number a register denotes. The i386 instructions the routines
  are made of (\<^verbatim>\<open>shrd\<close>, \<^verbatim>\<open>shld\<close>, \<^verbatim>\<open>bsr\<close>) are functions on 32-bit words.
\<close>

section \<open>Machine instructions\<close>

definition pair64 :: "u32 \<Rightarrow> u32 \<Rightarrow> u64" where
  "pair64 h l = push_bit 32 (ucast h) OR ucast l"

text \<open>For counts below 32, the only ones the routines use.\<close>

definition shrd :: "nat \<Rightarrow> u32 \<Rightarrow> u32 \<Rightarrow> u32" where
  "shrd cl src dst = ucast (drop_bit cl (pair64 src dst))"

definition shld :: "nat \<Rightarrow> u32 \<Rightarrow> u32 \<Rightarrow> u32" where
  "shld cl src dst = ucast (drop_bit 32 (push_bit cl (pair64 dst src)))"

fun bsr_from :: "nat \<Rightarrow> u32 \<Rightarrow> nat" where
  "bsr_from 0 w = 0"
| "bsr_from (Suc n) w = (if bit w (Suc n) then Suc n else bsr_from n w)"

definition bsr :: "u32 \<Rightarrow> nat" where
  "bsr w = bsr_from 31 w"

section \<open>Shifts with extension\<close>

text \<open>Arguments and results are (msl, lsl); the first result component is \<^verbatim>\<open>eax\<close>.\<close>

definition FPU_shrx :: "u32 \<times> u32 \<Rightarrow> nat \<Rightarrow> u32 \<times> u32 \<times> u32" where
  "FPU_shrx = (\<lambda>(msl, lsl) ecx.
     if ecx < 32 then
       (let eax = shrd ecx lsl 0; ebx = shrd ecx msl lsl; edx = drop_bit ecx msl in (eax, edx, ebx))
     else if ecx < 64 then
       (let cl = ecx - 32; eax = shrd cl msl lsl; edx = drop_bit cl msl in (eax, 0, edx))
     else if ecx < 96 then (drop_bit (ecx - 64) msl, 0, 0)
     else (0, 0, 0))"

text \<open>\<^verbatim>\<open>setne %al\<close>: the low byte of \<^verbatim>\<open>eax\<close> becomes the flag.\<close>

definition set_al :: "bool \<Rightarrow> u32 \<Rightarrow> u32" where
  "set_al b eax = (eax AND 0xffffff00) OR (if b then 1 else 0)"

definition FPU_shrxs :: "u32 \<times> u32 \<Rightarrow> nat \<Rightarrow> u32 \<times> u32 \<times> u32" where
  "FPU_shrxs = (\<lambda>(msl, lsl) ecx.
     if \<not> ecx < 64 then
       (if \<not> ecx < 96 then (if lsl OR msl \<noteq> 0 then 1 else 0, 0, 0)
        else
          (let cl = ecx - 64; edx = shrd cl lsl 0; ebx = shrd cl msl lsl; eax = drop_bit cl msl;
               edx = ebx OR edx in
           (set_al (edx \<noteq> 0 \<or> eax AND 0x7fffffff \<noteq> 0) eax, 0, 0)))
     else if ecx < 32 then
       (let eax = shrd ecx lsl 0; ebx = shrd ecx msl lsl; edx = drop_bit ecx msl in
        (set_al (eax AND 0x7fffffff \<noteq> 0) eax, edx, ebx))
     else
       (let cl = ecx - 32; ebx = shrd cl lsl 0; eax = shrd cl msl lsl; edx = drop_bit cl msl in
        (set_al (ebx \<noteq> 0 \<or> eax AND 0x7fffffff \<noteq> 0) eax, 0, edx)))"

section \<open>Normalisation\<close>

definition norm_shift :: "u32 \<Rightarrow> u32 \<Rightarrow> fpu_reg \<Rightarrow> fpu_reg" where
  "norm_shift edx eax r =
     (let cl = 31 - bsr edx in
      r\<lparr>exp16 := exp16 r - of_nat cl, sigh := shld cl eax edx, sigl := push_bit cl eax\<rparr>)"

definition FPU_normalize_nuo :: "fpu_reg \<Rightarrow> u32 \<times> fpu_reg" where
  "FPU_normalize_nuo r =
     (let edx = sigh r; eax = sigl r in
      if bit edx 31 then (TAG_Valid, r)
      else if edx \<noteq> 0 then (TAG_Valid, norm_shift edx eax r)
      else if eax = 0 then (TAG_Zero, r\<lparr>exp16 := word_of_int EXP_UNDER\<rparr>)
      else (TAG_Valid, norm_shift eax 0 (r\<lparr>exp16 := exp16 r - 32\<rparr>)))"

definition FPU_normalize :: "fpu_reg \<Rightarrow> fpu \<Rightarrow> u32 \<times> fpu_reg \<times> fpu" where
  "FPU_normalize r s =
     (let edx = sigh r; eax = sigl r in
      if \<not> bit edx 31 \<and> edx = 0 \<and> eax = 0 then (TAG_Zero, r\<lparr>exp16 := 0\<rparr>, s)
      else
        (let r = (if bit edx 31 then r
                  else if edx \<noteq> 0 then norm_shift edx eax r
                  else norm_shift eax 0 (r\<lparr>exp16 := exp16 r - 32\<rparr>)) in
         if EXP_OVER \<le> sint (exp16 r) then arith_overflow (addexponent EXTENDED_Ebias r) s
         else if sint (exp16 r) \<le> EXP_UNDER then arith_underflow (addexponent EXTENDED_Ebias r) s
         else (TAG_Valid, r\<lparr>exp16 := (exp16 r + word_of_int EXTENDED_Ebias) AND 0x7fff\<rparr>, s)))"

definition FPU_to_exp16 :: "fpu_reg \<Rightarrow> fpu \<Rightarrow> bool \<times> fpu_reg \<times> fpu" where
  "FPU_to_exp16 a s =
     (let sign = getsign a;
          x = setexponent16 (exponent a) a;
          x = (if exponent16 x = EXP_UNDER then
                 (if sigh x AND 0x80000000 \<noteq> 0 then addexponent 1 x
                  else snd (FPU_normalize_nuo (addexponent 1 x)))
               else x) in
      (sign, x, if sigh x AND 0x80000000 = 0 then FPU_exception (EX_INTERNAL OR 0x180) s else s))"

text \<open>Division of a 64-bit number by a small one: the remainder and the quotient (msw, lsw).\<close>

definition FPU_div_small :: "u32 \<times> u32 \<Rightarrow> u32 \<Rightarrow> u32 \<times> u32 \<times> u32" where
  "FPU_div_small = (\<lambda>(msw, lsw) y.
     (let eax = msw div y; edx = msw mod y;
          n = pair64 edx lsw in
      (ucast (n mod ucast y), eax, ucast (n div ucast y))))"

section \<open>Rounding to an integer\<close>

definition FPU_round_to_int :: "fpu_reg \<Rightarrow> u32 \<Rightarrow> fpu \<Rightarrow> u32 \<times> fpu_reg" where
  "FPU_round_to_int r tag s =
     (if tag = TAG_Zero then (0, set_significand 0 r)
      else if 63 < exponent r then (1, r\<lparr>sigl := 0xffffffff, sigh := 0xffffffff\<rparr>)
      else
        (let (eax, h, l) = FPU_shrxs (sigh r, sigl r) (nat (63 - exponent r));
             r = r\<lparr>sigl := l, sigh := h\<rparr>;
             very_big = (NOT (sigh r) OR NOT (sigl r) = 0);
             half_or_more = (eax AND 0x80000000 \<noteq> 0);
             more_than_half = (eax AND 0x80000001 = 0x80000001);
             rc = control_word s AND CW_RC;
             increment = (if rc = RC_RND then more_than_half \<or> (half_or_more \<and> sigl r AND 1 \<noteq> 0)
                          else if rc = RC_DOWN then eax \<noteq> 0 \<and> getsign r
                          else if rc = RC_UP then eax \<noteq> 0 \<and> \<not> getsign r
                          else False) in
         if increment then
           (if very_big then (1, r)
            else (PRECISION_LOST_UP, set_significand (significand r + 1) r))
         else (if eax \<noteq> 0 then PRECISION_LOST_DOWN else 0, r)))"

section \<open>Numbers the words stand for\<close>

lemma unat_ucast_32_64 [simp]: "unat (ucast (a :: u32) :: u64) = unat a"
  using unsigned_less [of a, where 'a = nat] by (simp add: unsigned_ucast_eq take_bit_nat_eq_self)

lemma unat_lt_32: "unat (a :: u32) < 2 ^ 32"
  using unsigned_less [of a, where 'a = nat] by simp

lemma unat_lt_64: "unat (a :: u64) < 2 ^ 64"
  using unsigned_less [of a, where 'a = nat] by simp

lemma pair64_plus: "pair64 h l = push_bit 32 (ucast h) + ucast l"
  unfolding pair64_def
  by (rule disjunctive_add_eq_or [symmetric], rule bit_word_eqI) (auto simp: bit_simps)

lemma unat_pair64: "unat (pair64 h l) = unat h * 2 ^ 32 + unat l"
proof -
  have "unat (push_bit 32 (ucast h) :: u64) = unat h * 2 ^ 32"
    using unat_lt_32 [of h]
    by (simp add: push_bit_eq_mult unat_word_ariths)
  then show ?thesis
    using unat_lt_32 [of h] unat_lt_32 [of l]
    by (simp add: pair64_plus unat_word_ariths)
qed

lemma unat_ucast_64_32: "unat (ucast (v :: u64) :: u32) = unat v mod 2 ^ 32"
  by (simp add: unsigned_ucast_eq take_bit_eq_mod)

lemma unat_drop_bit_div: "unat (drop_bit n (v :: 'a::len word)) = unat v div 2 ^ n"
  by (subst unat_drop_bit_eq) (rule drop_bit_eq_div)

lemma unat_shrd: "unat (shrd cl src dst) = (unat src * 2 ^ 32 + unat dst) div 2 ^ cl mod 2 ^ 32"
  unfolding shrd_def unat_ucast_64_32 unat_drop_bit_div unat_pair64 ..

text \<open>What the extension word of a shift of \<open>v\<close> by \<open>k\<close> holds: 32 more bits of the quotient.\<close>

definition ext_bits :: "nat \<Rightarrow> nat \<Rightarrow> nat" where
  "ext_bits v k = v * 2 ^ 32 div 2 ^ k mod 2 ^ 32"

definition ext_lost :: "nat \<Rightarrow> nat \<Rightarrow> bool" where
  "ext_lost v k \<longleftrightarrow> v * 2 ^ 32 mod 2 ^ k \<noteq> 0"

lemma ext_split: "(v mod 2 ^ k) * 2 ^ 32 = ext_bits v k * 2 ^ k + v * 2 ^ 32 mod 2 ^ k"
proof -
  have "(v mod 2 ^ k) * 2 ^ 32 = v * 2 ^ 32 mod (2 ^ k * 2 ^ 32)"
    by (simp add: mult_mod_left)
  also have "\<dots> = 2 ^ k * (v * 2 ^ 32 div 2 ^ k mod 2 ^ 32) + v * 2 ^ 32 mod 2 ^ k"
    by (rule mod_mult2_eq)
  finally show ?thesis by (simp add: ext_bits_def)
qed

lemma ext_half:
  "2 ^ 31 \<le> ext_bits v k \<longleftrightarrow> 2 ^ k \<le> 2 * (v mod 2 ^ k)"
  "2 ^ 31 \<le> ext_bits v k \<and> (ext_bits v k mod 2 ^ 31 \<noteq> 0 \<or> ext_lost v k) \<longleftrightarrow> 2 ^ k < 2 * (v mod 2 ^ k)"
  "ext_bits v k = 0 \<and> \<not> ext_lost v k \<longleftrightarrow> v mod 2 ^ k = 0"
proof -
  define e where "e = ext_bits v k"
  define l where "l = v * 2 ^ 32 mod 2 ^ k"
  define w :: nat where "w = 2 ^ k"
  define r where "r = v mod 2 ^ k"
  have lw: "l < w" and rw: "r < w" by (simp_all add: l_def w_def r_def)
  have eq: "r * 2 ^ 32 = e * w + l" using ext_split [of v k] by (simp add: e_def l_def w_def r_def)
  have lost: "ext_lost v k \<longleftrightarrow> l \<noteq> 0" by (simp add: ext_lost_def l_def)
  have half: "2 ^ 31 \<le> e \<longleftrightarrow> w \<le> 2 * r"
  proof
    assume "2 ^ 31 \<le> e"
    then have "2 ^ 31 * w \<le> e * w" by (rule mult_le_mono1)
    then have "2 ^ 31 * w \<le> r * 2 ^ 32" unfolding eq by (rule trans_le_add1)
    then show "w \<le> 2 * r" by simp
  next
    assume "w \<le> 2 * r"
    then have "2 ^ 31 * w \<le> r * 2 ^ 32" by simp
    then have "2 ^ 31 * w < e * w + w" unfolding eq using lw by linarith
    then have "2 ^ 31 * w < (e + 1) * w" by (simp only: distrib_right mult_1)
    then show "2 ^ 31 \<le> e" by (simp only: mult_less_cancel2) simp
  qed
  have more: "w < 2 * r \<longleftrightarrow> 2 ^ 31 * w < e * w + l" using eq by auto
  have "2 ^ 31 \<le> e \<and> (e mod 2 ^ 31 \<noteq> 0 \<or> l \<noteq> 0) \<longleftrightarrow> w < 2 * r"
  proof (cases "e = 2 ^ 31")
    case True
    then show ?thesis unfolding more by auto
  next
    case False
    have "w < 2 * r \<longleftrightarrow> 2 ^ 31 \<le> e"
    proof
      assume "w < 2 * r" then show "2 ^ 31 \<le> e" using half by simp
    next
      assume "2 ^ 31 \<le> e"
      with False have "2 ^ 31 < e" by simp
      then have "2 ^ 31 * w < e * w" using lw by (intro mult_strict_right_mono) simp_all
      then show "w < 2 * r" unfolding more by (rule trans_less_add1)
    qed
    moreover have "e mod 2 ^ 31 \<noteq> 0" if "2 ^ 31 \<le> e"
    proof -
      have "e < 2 ^ 32" by (simp add: e_def ext_bits_def)
      then have "e mod 2 ^ 31 = e - 2 ^ 31" using that by (simp add: le_mod_geq)
      with that False show ?thesis by simp
    qed
    ultimately show ?thesis by blast
  qed
  then show "2 ^ 31 \<le> ext_bits v k \<longleftrightarrow> 2 ^ k \<le> 2 * (v mod 2 ^ k)"
    "2 ^ 31 \<le> ext_bits v k \<and> (ext_bits v k mod 2 ^ 31 \<noteq> 0 \<or> ext_lost v k) \<longleftrightarrow> 2 ^ k < 2 * (v mod 2 ^ k)"
    using half by (simp_all only: lost e_def w_def r_def)
  have "r = 0 \<longleftrightarrow> e * w + l = 0" using eq by auto
  also have "\<dots> \<longleftrightarrow> e = 0 \<and> l = 0" using lw by auto
  finally show "ext_bits v k = 0 \<and> \<not> ext_lost v k \<longleftrightarrow> v mod 2 ^ k = 0"
    by (simp add: lost e_def r_def)
qed

lemma and_7fffffff: "unat (a AND 0x7fffffff :: u32) = unat a mod 2 ^ 31"
proof -
  have "a AND 0x7fffffff = take_bit 31 a" by (simp add: take_bit_eq_mask mask_eq_exp_minus_1)
  then show ?thesis by (simp only: unsigned_take_bit_eq) (simp add: take_bit_eq_mod)
qed

lemma bit31_ge: "bit (a :: u32) 31 \<longleftrightarrow> 2 ^ 31 \<le> unat a"
proof -
  have "bit a 31 \<longleftrightarrow> odd (unat a div 2 ^ 31)" 
    using bit_unsigned_iff [of a 31, where 'a = nat] by (simp add: bit_iff_odd)
  also have "\<dots> \<longleftrightarrow> 2 ^ 31 \<le> unat a"
  proof -
    have "unat a div 2 ^ 31 < 2" using unat_lt_32 [of a] by (simp add: less_mult_imp_div_less)
    then consider "unat a div 2 ^ 31 = 0" | "unat a div 2 ^ 31 = 1" by linarith
    then show ?thesis by cases (auto simp: div_eq_0_iff)
  qed
  finally show ?thesis .
qed

lemma and_bit31: "a AND 0x80000000 \<noteq> 0 \<longleftrightarrow> bit (a :: u32) 31"
proof -
  have "(0x80000000 :: u32) = 2 ^ 31" by simp
  then show ?thesis by (metis and_exp_eq_0_iff_not_bit)
qed

lemma and_bits_31_0: "a AND 0x80000001 = 0x80000001 \<longleftrightarrow> bit (a :: u32) 31 \<and> bit a 0"
proof
  assume "a AND 0x80000001 = 0x80000001"
  then have "bit (a AND 0x80000001) 31" "bit (a AND 0x80000001) 0" by simp_all
  then show "bit a 31 \<and> bit a 0" by (simp only: bit_and_iff)
next
  assume a: "bit a 31 \<and> bit a 0"
  have e: "0x80000001 = (2 ^ 31 OR 2 ^ 0 :: u32)" by simp
  show "a AND 0x80000001 = 0x80000001"
    unfolding e by (intro bit_word_eqI) (use a in \<open>auto simp only: bit_and_iff bit_or_iff bit_exp_iff\<close>)
qed

lemma set_al_facts:
  assumes "b \<longleftrightarrow> unat eax mod 2 ^ 31 \<noteq> 0 \<or> x"
  shows "set_al b eax = 0 \<longleftrightarrow> unat eax = 0 \<and> \<not> x"
    and "set_al b eax AND 0x80000000 \<noteq> 0 \<longleftrightarrow> 2 ^ 31 \<le> unat eax"
    and "set_al b eax AND 0x80000001 = 0x80000001 \<longleftrightarrow> 2 ^ 31 \<le> unat eax \<and> (unat eax mod 2 ^ 31 \<noteq> 0 \<or> x)"
proof -
  have b31: "bit (set_al b eax) 31 \<longleftrightarrow> bit eax 31" and b0: "bit (set_al b eax) 0 \<longleftrightarrow> b"
    by (simp_all add: set_al_def bit_simps)
  have "set_al b eax = 0 \<longleftrightarrow> \<not> b \<and> \<not> bit eax 31"
  proof
    assume "set_al b eax = 0"
    with b31 b0 show "\<not> b \<and> \<not> bit eax 31" by simp
  next
    assume a: "\<not> b \<and> \<not> bit eax 31"
    then have "unat eax mod 2 ^ 31 = 0" "unat eax < 2 ^ 31" using assms bit31_ge [of eax] by auto
    then have "eax = 0" by (simp add: unat_eq_zero)
    with a show "set_al b eax = 0" by (simp add: set_al_def)
  qed
  also have "\<dots> \<longleftrightarrow> unat eax = 0 \<and> \<not> x" using assms bit31_ge [of eax] by auto
  finally show "set_al b eax = 0 \<longleftrightarrow> unat eax = 0 \<and> \<not> x" .
  show "set_al b eax AND 0x80000000 \<noteq> 0 \<longleftrightarrow> 2 ^ 31 \<le> unat eax"
    using and_bit31 [of "set_al b eax"] b31 bit31_ge [of eax] by simp
  show "set_al b eax AND 0x80000001 = 0x80000001 \<longleftrightarrow> 2 ^ 31 \<le> unat eax \<and> (unat eax mod 2 ^ 31 \<noteq> 0 \<or> x)"
    using and_bits_31_0 [of "set_al b eax"] b31 b0 assms bit31_ge [of eax] by simp
qed

text \<open>The four ranges of the shift count.\<close>

lemma ext_shift_small:
  assumes "k \<le> 32"
  shows "ext_bits (h * 2 ^ 32 + l) k = l * 2 ^ 32 div 2 ^ k mod 2 ^ 32" and "\<not> ext_lost v k"
proof -
  have k: "(2::nat) ^ 32 = 2 ^ (32 - k) * 2 ^ k" using assms by (simp flip: power_add)
  have "(h * 2 ^ 32 + l) * 2 ^ 32 = (h * 2 ^ 32 + l) * 2 ^ (32 - k) * 2 ^ k"
    by (subst k) (simp only: mult.assoc)
  also have "\<dots> div 2 ^ k = h * 2 ^ (32 - k) * 2 ^ 32 + l * 2 ^ (32 - k)" by (simp add: algebra_simps)
  finally have "(h * 2 ^ 32 + l) * 2 ^ 32 div 2 ^ k = \<dots>" .
  moreover have "l * 2 ^ 32 div 2 ^ k = l * 2 ^ (32 - k)" by (subst k) (simp flip: mult.assoc)
  ultimately show "ext_bits (h * 2 ^ 32 + l) k = l * 2 ^ 32 div 2 ^ k mod 2 ^ 32"
    by (simp add: ext_bits_def)
  show "\<not> ext_lost v k" unfolding ext_lost_def k by (simp flip: mult.assoc)
qed

lemma ext_shift_large:
  assumes "32 \<le> k"
  shows "ext_bits v k = v div 2 ^ (k - 32) mod 2 ^ 32" and "ext_lost v k \<longleftrightarrow> v mod 2 ^ (k - 32) \<noteq> 0"
proof -
  have k: "(2::nat) ^ k = 2 ^ (k - 32) * 2 ^ 32" using assms power_add [of "2::nat" "k - 32" 32] by simp
  show "ext_bits v k = v div 2 ^ (k - 32) mod 2 ^ 32" unfolding ext_bits_def k by simp
  show "ext_lost v k \<longleftrightarrow> v mod 2 ^ (k - 32) \<noteq> 0" unfolding ext_lost_def k by (simp flip: mult_mod_left)
qed

lemma low_part_mod: "cl \<le> 32 \<Longrightarrow> (h * 2 ^ 32 + l) mod 2 ^ cl = l mod (2 ^ cl :: nat)"
proof -
  assume "cl \<le> 32"
  then have "(2::nat) ^ 32 = 2 ^ (32 - cl) * 2 ^ cl" by (simp flip: power_add)
  then have "(h * 2 ^ 32 + l) mod 2 ^ cl = (h * 2 ^ (32 - cl) * 2 ^ cl + l) mod 2 ^ cl" by (simp only: mult.assoc)
  then show ?thesis by simp
qed

lemma shrd_0_eq_0: "cl < 32 \<Longrightarrow> shrd cl l 0 = 0 \<longleftrightarrow> unat l mod 2 ^ cl = 0"
proof -
  assume cl: "cl < 32"
  then have k: "(2::nat) ^ 32 = 2 ^ (32 - cl) * 2 ^ cl" by (simp flip: power_add)
  have "unat (shrd cl l 0) = unat l * 2 ^ (32 - cl) mod (2 ^ cl * 2 ^ (32 - cl))"
    unfolding unat_shrd by (subst (1 2) k) (simp flip: mult.assoc add: mult.commute)
  also have "\<dots> = unat l mod 2 ^ cl * 2 ^ (32 - cl)" by (simp flip: mult_mod_left)
  finally show ?thesis by (simp add: word_unat_eq_iff)
qed

lemma mod_split_eq_0: "(v :: nat) mod 2 ^ (a + b) = 0 \<longleftrightarrow> v div 2 ^ a mod 2 ^ b = 0 \<and> v mod 2 ^ a = 0"
  unfolding power_add mod_mult2_eq by auto

lemma FPU_shrxs_extension:
  assumes "FPU_shrxs (h, l) k = (eax, h', l')" and v: "v = unat h * 2 ^ 32 + unat l"
  shows "\<exists>e b. eax = set_al b e \<and> unat e = ext_bits v k \<and> (b \<longleftrightarrow> unat e mod 2 ^ 31 \<noteq> 0 \<or> ext_lost v k)"
proof -
  consider "k < 32" | "32 \<le> k" "k < 64" | "64 \<le> k" "k < 96" | "96 \<le> k" by linarith
  then show ?thesis
  proof cases
    case 1
    let ?e = "shrd k l 0"
    have "eax = set_al (?e AND 0x7fffffff \<noteq> 0) ?e" using assms(1) 1 by (simp add: FPU_shrxs_def Let_def)
    moreover have "unat ?e = ext_bits v k" using ext_shift_small(1) [of k "unat h" "unat l"] 1 by (simp add: v unat_shrd)
    moreover have "?e AND 0x7fffffff \<noteq> 0 \<longleftrightarrow> unat ?e mod 2 ^ 31 \<noteq> 0" by (simp add: word_unat_eq_iff and_7fffffff)
    moreover have "\<not> ext_lost v k" using ext_shift_small(2) [of k v] 1 by simp
    ultimately show ?thesis by blast
  next
    case 2
    let ?e = "shrd (k - 32) h l" and ?x = "shrd (k - 32) l 0"
    have "eax = set_al (?x \<noteq> 0 \<or> ?e AND 0x7fffffff \<noteq> 0) ?e" using assms(1) 2 by (simp add: FPU_shrxs_def Let_def)
    moreover have "unat ?e = ext_bits v k" using ext_shift_large(1) [of k v] 2 by (simp add: v unat_shrd)
    moreover have "?x \<noteq> 0 \<longleftrightarrow> ext_lost v k"
      using ext_shift_large(2) [of k v] shrd_0_eq_0 [of "k - 32" l] low_part_mod [of "k - 32" "unat h" "unat l"] 2
      by (simp add: v)
    moreover have "?e AND 0x7fffffff \<noteq> 0 \<longleftrightarrow> unat ?e mod 2 ^ 31 \<noteq> 0" by (simp add: word_unat_eq_iff and_7fffffff)
    ultimately show ?thesis by blast
  next
    case 3
    let ?cl = "k - 64"
    let ?e = "drop_bit ?cl h" and ?x = "shrd ?cl h l OR shrd ?cl l 0"
    have "eax = set_al (?x \<noteq> 0 \<or> ?e AND 0x7fffffff \<noteq> 0) ?e" using assms(1) 3 by (simp add: FPU_shrxs_def Let_def)
    moreover have "unat ?e = ext_bits v k"
    proof -
      have "v div 2 ^ (k - 32) = v div 2 ^ 32 div 2 ^ ?cl" 
        using 3 power_add [of "2::nat" 32 ?cl] by (simp flip: div_mult2_eq)
      also have "v div 2 ^ 32 = unat h" using unat_lt_32 [of l] by (simp add: v)
      finally have "ext_bits v k = unat h div 2 ^ ?cl mod 2 ^ 32" using ext_shift_large(1) [of k v] 3 by simp
      moreover have "unat h div 2 ^ ?cl < 2 ^ 32" using unat_lt_32 [of h] by (rule le_less_trans [OF div_le_dividend])
      ultimately show ?thesis by (simp add: unat_drop_bit_div)
    qed
    moreover have "?x \<noteq> 0 \<longleftrightarrow> ext_lost v k"
    proof -
      have "?x = 0 \<longleftrightarrow> shrd ?cl h l = 0 \<and> shrd ?cl l 0 = 0" by (auto simp: or_eq_0_iff)
      also have "\<dots> \<longleftrightarrow> v div 2 ^ ?cl mod 2 ^ 32 = 0 \<and> v mod 2 ^ ?cl = 0"
        using shrd_0_eq_0 [of ?cl l] low_part_mod [of ?cl "unat h" "unat l"] 3
        by (simp add: v word_unat_eq_iff unat_shrd)
      also have "\<dots> \<longleftrightarrow> v mod 2 ^ (k - 32) = 0" using mod_split_eq_0 [of v ?cl 32] 3 by simp
      finally show ?thesis using ext_shift_large(2) [of k v] 3 by simp
    qed
    moreover have "?e AND 0x7fffffff \<noteq> 0 \<longleftrightarrow> unat ?e mod 2 ^ 31 \<noteq> 0" by (simp add: word_unat_eq_iff and_7fffffff)
    ultimately show ?thesis by blast
  next
    case 4
    have vlt: "v < 2 ^ (k - 32)"
    proof -
      have "v < 2 ^ 64" using unat_lt_32 [of h] unat_lt_32 [of l] by (simp add: v)
      also have "(2::nat) ^ 64 \<le> 2 ^ (k - 32)" using 4 by (intro power_increasing) auto
      finally show ?thesis .
    qed
    then have "ext_bits v k = 0" "ext_lost v k \<longleftrightarrow> v \<noteq> 0" using ext_shift_large [of k v] 4 by simp_all
    moreover have "eax = set_al (v \<noteq> 0) 0"
      using assms(1) 4 by (auto simp: FPU_shrxs_def set_al_def v or_eq_0_iff unat_eq_zero)
    ultimately show ?thesis by (intro exI [of _ 0] exI [of _ "v \<noteq> 0"]) auto
  qed
qed

lemma FPU_shrxs_shift:
  assumes "FPU_shrxs (h, l) k = (eax, h', l')"
  shows "unat (pair64 h' l') = unat (pair64 h l) div 2 ^ k"
proof -
  define v where "v = unat h * 2 ^ 32 + unat l"
  have vlt: "v < 2 ^ 64" using unat_lt_32 [of h] unat_lt_32 [of l] by (simp add: v_def)
  consider "k < 32" | "32 \<le> k" "k < 64" | "64 \<le> k" by linarith
  then show ?thesis
  proof cases
    case 1
    have "h' = drop_bit k h" "l' = shrd k h l" using assms 1 by (simp_all add: FPU_shrxs_def Let_def)
    then have "unat (pair64 h' l') = unat h div 2 ^ k * 2 ^ 32 + v div 2 ^ k mod 2 ^ 32"
      by (simp add: unat_pair64 unat_drop_bit_div unat_shrd v_def)
    also have "unat h div 2 ^ k = v div 2 ^ k div 2 ^ 32"
    proof -
      have "v div 2 ^ k div 2 ^ 32 = v div 2 ^ 32 div 2 ^ k" by (metis div_mult2_eq mult.commute)
      also have "v div 2 ^ 32 = unat h" using unat_lt_32 [of l] by (simp add: v_def)
      finally show ?thesis by simp
    qed
    finally show ?thesis by (simp only: div_mult_mod_eq) (simp add: unat_pair64 v_def)
  next
    case 2
    have "h' = 0" "l' = drop_bit (k - 32) h" using assms 2 by (simp_all add: FPU_shrxs_def Let_def)
    then have "unat (pair64 h' l') = unat h div 2 ^ (k - 32)" by (simp add: unat_pair64 unat_drop_bit_div)
    also have "unat h = v div 2 ^ 32" using unat_lt_32 [of l] by (simp add: v_def)
    also have "v div 2 ^ 32 div 2 ^ (k - 32) = v div 2 ^ k"
      using 2 power_add [of "2::nat" 32 "k - 32"] by (simp flip: div_mult2_eq)
    finally show ?thesis by (simp add: unat_pair64 v_def)
  next
    case 3
    have "h' = 0" "l' = 0" using assms 3 by (auto simp: FPU_shrxs_def Let_def split: if_splits)
    moreover have "v < 2 ^ k"
    proof -
      have "(2::nat) ^ 64 \<le> 2 ^ k" using 3 by (intro power_increasing) auto
      with vlt show ?thesis by simp
    qed
    ultimately show ?thesis by (simp add: unat_pair64 v_def)
  qed
qed

text \<open>
  The sticky shift of \<open>v\<close> by \<open>k\<close>: the quotient, and an extension that is zero, at least half or more
  than half exactly as the remainder is.
\<close>

lemma FPU_shrxs_correct:
  assumes "FPU_shrxs (h, l) k = (eax, h', l')" and "v = unat (pair64 h l)"
  shows "unat (pair64 h' l') = v div 2 ^ k"
    and "eax = 0 \<longleftrightarrow> v mod 2 ^ k = 0"
    and "eax AND 0x80000000 \<noteq> 0 \<longleftrightarrow> 2 ^ k \<le> 2 * (v mod 2 ^ k)"
    and "eax AND 0x80000001 = 0x80000001 \<longleftrightarrow> 2 ^ k < 2 * (v mod 2 ^ k)"
proof -
  obtain e b where e: "eax = set_al b e" "unat e = ext_bits v k" "b \<longleftrightarrow> unat e mod 2 ^ 31 \<noteq> 0 \<or> ext_lost v k"
    using FPU_shrxs_extension [OF assms(1)] assms(2) by (auto simp: unat_pair64)
  note f = set_al_facts [OF e(3), folded e(1), unfolded e(2)]
  show "unat (pair64 h' l') = v div 2 ^ k" using FPU_shrxs_shift [OF assms(1)] assms(2) by simp
  show "eax = 0 \<longleftrightarrow> v mod 2 ^ k = 0" unfolding f(1) by (rule ext_half(3))
  show "eax AND 0x80000000 \<noteq> 0 \<longleftrightarrow> 2 ^ k \<le> 2 * (v mod 2 ^ k)" unfolding f(2) by (rule ext_half(1))
  show "eax AND 0x80000001 = 0x80000001 \<longleftrightarrow> 2 ^ k < 2 * (v mod 2 ^ k)" unfolding f(3) by (rule ext_half(2))
qed

section \<open>Correct normalisation\<close>

lemma bsr_from_le: "bsr_from n w \<le> n"
  by (induction n) auto

lemma bsr_from_bit: "unat w < 2 ^ Suc n \<Longrightarrow> w \<noteq> 0 \<Longrightarrow> 2 ^ bsr_from n w \<le> unat w \<and> unat w < 2 ^ Suc (bsr_from n w)"
proof (induction n)
  case 0
  then show ?case by (auto simp: word_unat_eq_iff less_Suc_eq numeral_2_eq_2)
next
  case (Suc n)
  have b: "bit w (Suc n) \<longleftrightarrow> odd (unat w div 2 ^ Suc n)"
    using bit_unsigned_iff [of w "Suc n", where 'a = nat] by (auto simp: bit_iff_odd dest: bit_imp_le_length)
  have "unat w div 2 ^ Suc n < 2" using Suc.prems(1) by (simp add: less_mult_imp_div_less)
  then consider "unat w div 2 ^ Suc n = 0" | "unat w div 2 ^ Suc n = 1" by linarith
  then show ?case
  proof cases
    case 1
    then have "unat w < 2 ^ Suc n" by (simp add: div_eq_0_iff)
    then show ?thesis using Suc.IH Suc.prems(2) 1 b by simp
  next
    case 2
    then have "2 ^ Suc n \<le> unat w" by (metis div_less linorder_not_less zero_neq_one)
    then show ?thesis using 2 b Suc.prems(1) by simp
  qed
qed

lemma bsr_bounds: "w \<noteq> 0 \<Longrightarrow> 2 ^ bsr w \<le> unat w \<and> unat w < 2 ^ Suc (bsr w)"
  using bsr_from_bit [of w 31] unat_lt_32 [of w] by (simp add: bsr_def)

lemma pair64_shift_left: "cl < 32 \<Longrightarrow> pair64 (shld cl eax edx) (push_bit cl eax) = push_bit cl (pair64 edx eax)"
  by (rule bit_word_eqI) (auto simp: pair64_def shld_def bit_simps ac_simps)

lemma unat_push_bit_64:
  assumes "unat (v :: u64) * 2 ^ n < 2 ^ 64"
  shows "unat (push_bit n v) = unat v * 2 ^ n"
proof -
  have "unat (push_bit n v) = unat v * 2 ^ n mod 2 ^ 64"
    by (simp only: unsigned_push_bit_eq) (simp add: push_bit_eq_mult take_bit_eq_mod)
  with assms show ?thesis by simp
qed

lemma norm_shift_correct:
  assumes "edx \<noteq> 0"
  shows "bit (sigh (norm_shift edx eax r)) 31"
    and "pair64 (sigh (norm_shift edx eax r)) (sigl (norm_shift edx eax r)) = push_bit (31 - bsr edx) (pair64 edx eax)"
    and "unat (push_bit (31 - bsr edx) (pair64 edx eax)) = unat (pair64 edx eax) * 2 ^ (31 - bsr edx)"
    and "exp16 (norm_shift edx eax r) = exp16 r - of_nat (31 - bsr edx)"
proof -
  define n where "n = 31 - bsr edx"
  have n: "n < 32" "bsr edx + n = 31" using bsr_from_le [of 31 edx] by (simp_all add: n_def bsr_def)
  have b: "2 ^ bsr edx \<le> unat edx" "unat edx < 2 ^ Suc (bsr edx)" using bsr_bounds [OF assms] by simp_all
  have hi: "2 ^ 31 \<le> unat edx * 2 ^ n" "(unat edx + 1) * 2 ^ n \<le> 2 ^ 32"
  proof -
    have "2 ^ bsr edx * 2 ^ n \<le> unat edx * 2 ^ n" using b by simp
    then show "2 ^ 31 \<le> unat edx * 2 ^ n" using n(2) by (simp flip: power_add)
    have "(unat edx + 1) * 2 ^ n \<le> 2 ^ Suc (bsr edx) * 2 ^ n" using b by (intro mult_le_mono1) simp
    also have "\<dots> = 2 ^ Suc (bsr edx + n)" by (simp add: power_add)
    finally show "(unat edx + 1) * 2 ^ n \<le> 2 ^ 32" unfolding n(2) by simp
  qed
  have eq: "unat (pair64 edx eax) * 2 ^ n = unat edx * 2 ^ n * 2 ^ 32 + unat eax * 2 ^ n"
    by (simp add: unat_pair64 algebra_simps)
  have "unat (pair64 edx eax) * 2 ^ n < (unat edx + 1) * 2 ^ 32 * 2 ^ n"
    using unat_lt_32 [of eax] by (intro mult_strict_right_mono) (simp_all add: unat_pair64)
  also have "\<dots> \<le> 2 ^ 32 * 2 ^ 32" using mult_le_mono1 [OF hi(2), of "2 ^ 32"] by (simp add: algebra_simps)
  finally have lt: "unat (pair64 edx eax) * 2 ^ n < 2 ^ 64" by simp
  show p: "pair64 (sigh (norm_shift edx eax r)) (sigl (norm_shift edx eax r)) = push_bit (31 - bsr edx) (pair64 edx eax)"
    using pair64_shift_left [OF n(1), of eax edx] by (simp add: norm_shift_def Let_def n_def)
  show u: "unat (push_bit (31 - bsr edx) (pair64 edx eax)) = unat (pair64 edx eax) * 2 ^ (31 - bsr edx)"
    using unat_push_bit_64 [of "pair64 edx eax" n] lt by (simp add: n_def)
  have "unat (pair64 (sigh (norm_shift edx eax r)) (sigl (norm_shift edx eax r))) = unat (pair64 edx eax) * 2 ^ n"
    unfolding p u n_def ..
  then have "2 ^ 63 \<le> unat (pair64 (sigh (norm_shift edx eax r)) (sigl (norm_shift edx eax r)))"
    unfolding eq using mult_le_mono1 [OF hi(1), of "2 ^ 32"] by simp
  then have "2 ^ 31 \<le> unat (sigh (norm_shift edx eax r))"
    using unat_lt_32 [of "sigl (norm_shift edx eax r)"] by (simp add: unat_pair64)
  then show "bit (sigh (norm_shift edx eax r)) 31" by (simp only: bit31_ge)
  show "exp16 (norm_shift edx eax r) = exp16 r - of_nat (31 - bsr edx)" by (simp add: norm_shift_def Let_def)
qed

text \<open>
  A non-zero significand is shifted up until its top bit is set, and the exponent goes down by as much.
\<close>

lemma FPU_normalize_nuo_correct:
  assumes "pair64 (sigh r) (sigl r) \<noteq> 0" and "FPU_normalize_nuo r = (tag, r')"
  shows "tag = TAG_Valid \<and> bit (sigh r') 31 \<and>
         (\<exists>n \<le> 63. unat (pair64 (sigh r') (sigl r')) = unat (pair64 (sigh r) (sigl r)) * 2 ^ n \<and>
                  exp16 r' = exp16 r - of_nat n)"
proof -
  consider "bit (sigh r) 31" | "\<not> bit (sigh r) 31" "sigh r \<noteq> 0" | "sigh r = 0" "sigl r \<noteq> 0"
    using assms(1) by (cases "sigh r = 0"; cases "sigl r = 0") (auto simp: pair64_def)
  then show ?thesis
  proof cases
    case 1
    then show ?thesis using assms(2) by (auto simp: FPU_normalize_nuo_def intro!: exI [of _ 0])
  next
    case 2
    then have "tag = TAG_Valid" "r' = norm_shift (sigh r) (sigl r) r"
      using assms(2) by (auto simp: FPU_normalize_nuo_def)
    then show ?thesis
      using norm_shift_correct(1, 2, 4) [OF 2(2), of "sigl r" r] norm_shift_correct(3) [OF 2(2), of "sigl r"]
      by (auto intro!: exI [of _ "31 - bsr (sigh r)"])
  next
    case 3
    then have r: "tag = TAG_Valid" "r' = norm_shift (sigl r) 0 (r\<lparr>exp16 := exp16 r - 32\<rparr>)"
      using assms(2) by (auto simp: FPU_normalize_nuo_def)
    note N = norm_shift_correct(1, 2, 4) [OF 3(2), of 0 "r\<lparr>exp16 := exp16 r - 32\<rparr>", folded r(2)]
    have "unat (pair64 (sigl r) 0) = unat (pair64 0 (sigl r)) * 2 ^ 32" by (simp add: unat_pair64)
    then have "unat (pair64 (sigh r') (sigl r')) = unat (pair64 (sigh r) (sigl r)) * 2 ^ (32 + (31 - bsr (sigl r)))"
      unfolding N(2) norm_shift_correct(3) [OF 3(2)] 3(1) by (simp add: power_add)
    moreover have "exp16 r' = exp16 r - of_nat (32 + (31 - bsr (sigl r)))" using N(3) by simp
    moreover have "32 + (31 - bsr (sigl r)) \<le> 63" by simp
    ultimately show ?thesis using r(1) N(1) by blast
  qed
qed

end
