(* ===== verification/User_Access.thy ===== *)
theory User_Access
  imports I486_Emu
begin

text \<open>
  Access to user memory from kernel code, as the FPU emulator uses it: the byte and halfword forms of
  \<^verbatim>\<open>get_user\<close> (\<^verbatim>\<open>arch/x86/lib/getuser.S\<close>) and \<^verbatim>\<open>put_user\<close>, and the block copy \<^verbatim>\<open>__copy_from_user_ll\<close>
  (\<^verbatim>\<open>arch/x86/lib/usercopy_32.c\<close>) with its exception-table fixups: bytes up to an 8-byte boundary of the
  kernel destination, then doublewords, then the remaining bytes; a fault leaves the rest zero.
\<close>

section \<open>Bytes and halfwords\<close>

definition le16 :: "u8 \<Rightarrow> u8 \<Rightarrow> u16" where
  "le16 b0 b1 = ucast b0 OR push_bit 8 (ucast b1)"

definition get_user_1 :: "machine \<Rightarrow> u32 \<Rightarrow> int \<times> u8" where
  "get_user_1 m a =
     (if m_limit m \<le> a then (- EFAULT, 0)
      else case m_mem m a of None \<Rightarrow> (- EFAULT, 0) | Some b \<Rightarrow> (0, b))"

definition get_user_2 :: "machine \<Rightarrow> u32 \<Rightarrow> int \<times> u16" where
  "get_user_2 m a =
     (if a + 1 < a \<or> m_limit m \<le> a + 1 then (- EFAULT, 0)
      else case (m_mem m a, m_mem m (a + 1)) of
             (Some b0, Some b1) \<Rightarrow> (0, le16 b0 b1)
           | _ \<Rightarrow> (- EFAULT, 0))"

definition put_user_1 :: "u8 \<Rightarrow> u32 \<Rightarrow> machine \<Rightarrow> int \<times> machine" where
  "put_user_1 x p m =
     (let (left, mem) = copy_to_user (m_mem m) p [x] in (if left \<noteq> 0 then - EFAULT else 0, m\<lparr>m_mem := mem\<rparr>))"

definition put_user_2 :: "u16 \<Rightarrow> u32 \<Rightarrow> machine \<Rightarrow> int \<times> machine" where
  "put_user_2 x p m =
     (let (left, mem) = copy_to_user (m_mem m) p [ucast x, ucast (drop_bit 8 x)]
      in (if left \<noteq> 0 then - EFAULT else 0, m\<lparr>m_mem := mem\<rparr>))"

section \<open>Block copy from user memory\<close>

text \<open>The string moves: the bytes read, and the count register where they stop.\<close>

fun rep_movsb :: "memory \<Rightarrow> u32 \<Rightarrow> nat \<Rightarrow> u8 list \<times> nat" where
  "rep_movsb m a 0 = ([], 0)"
| "rep_movsb m a (Suc n) =
     (case m a of
        None \<Rightarrow> ([], Suc n)
      | Some b \<Rightarrow> (let (bs, left) = rep_movsb m (a + 1) n in (b # bs, left)))"

fun rep_movsl :: "memory \<Rightarrow> u32 \<Rightarrow> nat \<Rightarrow> u8 list \<times> nat" where
  "rep_movsl m a 0 = ([], 0)"
| "rep_movsl m a (Suc n) =
     (case (m a, m (a + 1), m (a + 2), m (a + 3)) of
        (Some b0, Some b1, Some b2, Some b3) \<Rightarrow>
          (let (bs, left) = rep_movsl m (a + 4) n in (b0 # b1 # b2 # b3 # bs, left))
      | _ \<Rightarrow> ([], Suc n))"

definition copy_user_zeroing :: "u32 \<Rightarrow> memory \<Rightarrow> u32 \<Rightarrow> nat \<Rightarrow> nat \<times> u8 list" where
  "copy_user_zeroing to m a n =
     (let (bs, left) =
        (if n \<le> 7 then rep_movsb m a n
         else
           (let head = unat (- to AND 7); rest = n - head;
                (bs, left) = rep_movsb m a head in
            if left \<noteq> 0 then (bs, left + rest)
            else
              (let dwords = rest div 4; tail = rest mod 4;
                   (ds, dleft) = rep_movsl m (a + of_nat head) dwords in
               if dleft \<noteq> 0 then (bs @ ds, tail + 4 * dleft)
               else
                 (let (ts, tleft) = rep_movsb m (a + of_nat head + 4 * of_nat dwords) tail in
                  (bs @ ds @ ts, tleft)))))
      in (left, bs @ replicate left 0))"

definition copy_from_user_ll :: "u32 \<Rightarrow> memory \<Rightarrow> u32 \<Rightarrow> nat \<Rightarrow> nat \<times> u8 list" where
  "copy_from_user_ll to m a n = copy_user_zeroing to m a n"

text \<open>\<^verbatim>\<open>_copy_from_user\<close>: a range outside the task's limit is not read; the destination is cleared.\<close>

definition copy_from_user :: "u32 \<Rightarrow> machine \<Rightarrow> u32 \<Rightarrow> nat \<Rightarrow> nat \<times> u8 list" where
  "copy_from_user to m a n =
     (if access_ok (m_limit m) a (of_nat n) then copy_from_user_ll to (m_mem m) a n
      else (n, replicate n 0))"

section \<open>What a copy delivers\<close>

text \<open>The \<open>n\<close> bytes at an address, where all are mapped.\<close>

fun mem_bytes :: "memory \<Rightarrow> u32 \<Rightarrow> nat \<Rightarrow> u8 list option" where
  "mem_bytes m a 0 = Some []"
| "mem_bytes m a (Suc n) =
     (case m a of None \<Rightarrow> None | Some b \<Rightarrow> map_option ((#) b) (mem_bytes m (a + 1) n))"

lemma mem_bytes_add:
  "mem_bytes m a (k + n) =
     (case mem_bytes m a k of None \<Rightarrow> None
      | Some bs \<Rightarrow> map_option ((@) bs) (mem_bytes m (a + of_nat k) n))"
proof (induction k arbitrary: a)
  case 0
  have "(@) [] = (id :: u8 list \<Rightarrow> _)" by (simp add: fun_eq_iff)
  then show ?case by (simp add: option.map_id)
next
  case (Suc k)
  have "(@) (x # xs) = (\<lambda>ys. x # xs @ ys)" for x :: u8 and xs by (simp add: fun_eq_iff)
  then show ?case
    by (cases "m a"; cases "mem_bytes m (a + 1) k") (simp_all add: Suc.IH option.map_comp comp_def add.assoc)
qed

lemma mem_bytes_length: "mem_bytes m a n = Some bs \<Longrightarrow> length bs = n"
  by (induction n arbitrary: a bs) (auto split: option.splits)

text \<open>A string move of \<open>n\<close> units delivers a prefix of the bytes, and everything if nothing is left.\<close>

lemma rep_movsb_prefix:
  "rep_movsb m a n = (bs, left) \<Longrightarrow>
     left \<le> n \<and> mem_bytes m a (n - left) = Some bs \<and> (left = 0 \<longleftrightarrow> mem_bytes m a n \<noteq> None)"
proof (induction n arbitrary: a bs left)
  case (Suc n)
  then show ?case
    by (cases "rep_movsb m (a + 1) n") (fastforce split: option.splits simp: Suc_diff_le)
qed simp

lemma mem_bytes_4:
  "mem_bytes m a 4 =
     (case (m a, m (a + 1), m (a + 2), m (a + 3)) of
        (Some b0, Some b1, Some b2, Some b3) \<Rightarrow> Some [b0, b1, b2, b3] | _ \<Rightarrow> None)"
  by (auto simp: numeral_eq_Suc add.assoc split: option.splits)

lemma rep_movsl_prefix:
  "rep_movsl m a n = (bs, left) \<Longrightarrow>
     left \<le> n \<and> mem_bytes m a (4 * (n - left)) = Some bs \<and> (left = 0 \<longleftrightarrow> mem_bytes m a (4 * n) \<noteq> None)"
proof (induction n arbitrary: a bs left)
  case (Suc n)
  show ?case
  proof (cases "mem_bytes m a 4")
    case None
    then have "rep_movsl m a (Suc n) = ([], Suc n)" by (auto simp: mem_bytes_4 split: option.splits)
    moreover have "mem_bytes m a (4 * Suc n) = None"
      using None mem_bytes_add [of m a 4 "4 * n"] by (simp add: mult_Suc_right)
    ultimately show ?thesis using Suc.prems by auto
  next
    case (Some ds)
    obtain bs' where r: "rep_movsl m (a + 4) n = (bs', left)" and bs: "bs = ds @ bs'"
      using Suc.prems Some
      by (cases "rep_movsl m (a + 4) n") (auto simp: mem_bytes_4 split: option.splits)
    have "4 * (Suc n - left) = 4 + 4 * (n - left)" using Suc.IH [OF r] by (simp add: Suc_diff_le)
    then show ?thesis
      using Suc.IH [OF r] Some mem_bytes_add [of m a 4 "4 * (n - left)"] mem_bytes_add [of m a 4 "4 * n"] bs
      by (auto simp: mult_Suc_right)
  qed
qed simp

lemma neg_and_7_le: "unat (- to AND 7 :: u32) \<le> 7"
  using word_and_le1 [of "- to" 7] by (simp add: word_le_nat_alt)

lemma mem_bytes_Some_le: "mem_bytes m a (k + n) \<noteq> None \<Longrightarrow> mem_bytes m a k \<noteq> None"
  by (auto simp: mem_bytes_add split: option.splits)

text \<open>
  The copy delivers the bytes up to where it stops and zeros after that, whatever the alignment, and
  leaves nothing exactly when every byte is mapped.
\<close>

lemma copy_user_zeroing_spec:
  assumes "copy_user_zeroing to m a n = (left, bs)"
  shows "left \<le> n \<and> (left = 0 \<longleftrightarrow> mem_bytes m a n \<noteq> None) \<and>
         (\<exists>pre. mem_bytes m a (n - left) = Some pre \<and> bs = pre @ replicate left 0)"
proof (cases "n \<le> 7")
  case True
  obtain hs l where h: "rep_movsb m a n = (hs, l)" by force
  then have "(left, bs) = (l, hs @ replicate l 0)" using assms True by (auto simp: copy_user_zeroing_def)
  then show ?thesis using rep_movsb_prefix [OF h] by simp
next
  case False
  define head where "head = unat (- to AND 7)"
  define rest where "rest = n - head"
  define q r where "q = rest div 4" and "r = rest mod 4"
  have n': "n = head + rest"
    using False neg_and_7_le [of to] by (simp add: head_def rest_def)
  have rest: "rest = 4 * q + r" by (simp add: q_def r_def)
  have n: "n = head + (4 * q + r)" using n' rest by simp
  obtain hs hl where h: "rep_movsb m a head = (hs, hl)" by force
  obtain ds dl where d: "rep_movsl m (a + of_nat head) q = (ds, dl)" by force
  obtain ts tl where t: "rep_movsb m (a + of_nat head + 4 * of_nat q) r = (ts, tl)" by force
  note H = rep_movsb_prefix [OF h] and D = rep_movsl_prefix [OF d] and T = rep_movsb_prefix [OF t]
  have eq: "(left, bs) =
     (if hl \<noteq> 0 then (hl + rest, hs @ replicate (hl + rest) 0)
      else if dl \<noteq> 0 then (r + 4 * dl, (hs @ ds) @ replicate (r + 4 * dl) 0)
      else (tl, (hs @ ds @ ts) @ replicate tl 0))"
    using assms False h d t
    by (auto simp: copy_user_zeroing_def Let_def head_def [symmetric] rest_def [symmetric] q_def [symmetric] r_def [symmetric] split: if_splits)
  have hs: "mem_bytes m a head = Some hs" if "hl = 0" using H that by simp
  have ds: "mem_bytes m (a + of_nat head) (4 * (q - dl)) = Some ds" using D by simp
  have ts: "mem_bytes m (a + of_nat head + 4 * of_nat q) (r - tl) = Some ts" using T by simp
  consider "hl \<noteq> 0" | "hl = 0" "dl \<noteq> 0" | "hl = 0" "dl = 0" by auto
  then show ?thesis
  proof cases
    case 1
    have "n - left = head - hl" "left \<le> n" using eq 1 H n' by simp_all
    moreover have "mem_bytes m a n = None" using 1 H mem_bytes_Some_le [of m a head] unfolding n' by blast
    ultimately show ?thesis using eq 1 H by simp
  next
    case 2
    have l: "n - left = head + 4 * (q - dl)" "left \<le> n"
      using eq 2 conjunct1 [OF D] n by simp_all
    have "mem_bytes m (a + of_nat head) (4 * q + r) = None"
      using 2 D mem_bytes_Some_le [of m "a + of_nat head" "4 * q"] by blast
    then have "mem_bytes m a n = None" by (subst n) (simp only: mem_bytes_add [of m a head] split: option.splits, simp)
    moreover have "mem_bytes m a (n - left) = Some (hs @ ds)"
      unfolding l mem_bytes_add [of m a head] hs [OF 2(1)] by (simp add: ds)
    ultimately show ?thesis using eq 2 l by simp
  next
    case 3
    have l: "n - left = head + (4 * q + (r - tl))" "left \<le> n"
      using eq 3 conjunct1 [OF T] n by simp_all
    have nn: "mem_bytes m a n \<noteq> None \<longleftrightarrow> tl = 0"
      using 3 ds T
      unfolding n mem_bytes_add [of m a head] mem_bytes_add [of m "a + of_nat head" "4 * q"] hs [OF 3(1)]
      by (auto split: option.splits)
    have "mem_bytes m a (n - left) = Some (hs @ ds @ ts)"
      using 3 ds ts
      unfolding l mem_bytes_add [of m a head] mem_bytes_add [of m "a + of_nat head" "4 * q"] hs [OF 3(1)]
      by simp
    then show ?thesis using eq 3 l nn by simp
  qed
qed

lemma copy_user_zeroing_mapped:
  assumes "mem_bytes m a n = Some bs"
  shows "copy_user_zeroing to m a n = (0, bs)"
proof -
  obtain left bs' where c: "copy_user_zeroing to m a n = (left, bs')" by force
  from copy_user_zeroing_spec [OF this] assms have "left = 0" by simp
  with copy_user_zeroing_spec [OF c] assms c show ?thesis by simp
qed

lemma copy_user_zeroing_length: "length (snd (copy_user_zeroing to m a n)) = n"
proof -
  obtain left bs where c: "copy_user_zeroing to m a n = (left, bs)" by force
  from copy_user_zeroing_spec [OF this] obtain pre where
    "left \<le> n" "mem_bytes m a (n - left) = Some pre" "bs = pre @ replicate left 0" by blast
  with c show ?thesis by (simp add: mem_bytes_length)
qed

text \<open>
  C21: \<^verbatim>\<open>__copy_from_user_ll\<close> always fills the whole destination: whatever the alignment and wherever the
  first unmapped byte lies, it delivers the user's bytes up to where it stopped and zeros for exactly the
  number of bytes it reports as left, and it reports nothing left exactly when the whole range is mapped.
\<close>

theorem copy_from_user_ll_fills:
  "case copy_from_user_ll to m a n of (left, bs) \<Rightarrow>
     left \<le> n \<and> length bs = n \<and> (left = 0 \<longleftrightarrow> mem_bytes m a n \<noteq> None) \<and>
     (\<exists>pre. mem_bytes m a (n - left) = Some pre \<and> bs = pre @ replicate left 0)"
proof (cases "copy_user_zeroing to m a n")
  case (Pair left bs)
  from copy_user_zeroing_spec [OF this] copy_user_zeroing_length [of to m a n] Pair
  show ?thesis by (simp add: copy_from_user_ll_def)
qed

end
