(* ===== verification/Fpu_Load.thy ===== *)
theory Fpu_Load
  imports Fpu_Num User_Access
begin

text \<open>
  Loading and storing operands in user memory (\<^verbatim>\<open>arch/x86/math-emu/reg_ld_str.c\<close>): the extended, double
  and single formats, the integer formats, packed BCD, and the environment and state images of
  \<^verbatim>\<open>fldenv\<close>, \<^verbatim>\<open>frstor\<close>, \<^verbatim>\<open>fstenv\<close> and \<^verbatim>\<open>fsave\<close>. Pointers to register slots are passed as the register's
  value and returned updated; \<^verbatim>\<open>FPU_access_ok\<close> aborts the emulation with \<^verbatim>\<open>SIGSEGV\<close>. The errors of
  \<^verbatim>\<open>get_user\<close> and \<^verbatim>\<open>put_user\<close> are dropped, as in the code.
\<close>

section \<open>User memory\<close>

definition FPU_access_ok :: "fpu \<Rightarrow> u32 \<Rightarrow> u32 \<Rightarrow> bool" where
  "FPU_access_ok s a n \<longleftrightarrow> access_ok (m_limit (fpu_m s)) a n"

definition get1 :: "fpu \<Rightarrow> u32 \<Rightarrow> u8" where "get1 s a = snd (get_user_1 (fpu_m s) a)"
definition get2 :: "fpu \<Rightarrow> u32 \<Rightarrow> u16" where "get2 s a = snd (get_user_2 (fpu_m s) a)"
definition get4 :: "fpu \<Rightarrow> u32 \<Rightarrow> u32" where "get4 s a = snd (get_user (fpu_m s) a)"

definition put1 :: "u8 \<Rightarrow> u32 \<Rightarrow> fpu \<Rightarrow> fpu" where
  "put1 x a s = s\<lparr>fpu_m := snd (put_user_1 x a (fpu_m s))\<rparr>"
definition put2 :: "u16 \<Rightarrow> u32 \<Rightarrow> fpu \<Rightarrow> fpu" where
  "put2 x a s = s\<lparr>fpu_m := snd (put_user_2 x a (fpu_m s))\<rparr>"
definition put4 :: "u32 \<Rightarrow> u32 \<Rightarrow> fpu \<Rightarrow> fpu" where
  "put4 x a s = s\<lparr>fpu_m := snd (put_user x a (fpu_m s))\<rparr>"

definition bytes32 :: "u32 \<Rightarrow> u8 list" where
  "bytes32 w = [byte_of 0 w, byte_of 1 w, byte_of 2 w, byte_of 3 w]"

definition bytes_of_reg :: "fpu_reg \<Rightarrow> u8 list" where
  "bytes_of_reg r = bytes32 (sigl r) @ bytes32 (sigh r) @ [ucast (exp16 r), ucast (drop_bit 8 (exp16 r))]"

definition reg_of_bytes :: "u8 list \<Rightarrow> fpu_reg" where
  "reg_of_bytes b =
     \<lparr>sigl = le32 (b ! 0) (b ! 1) (b ! 2) (b ! 3), sigh = le32 (b ! 4) (b ! 5) (b ! 6) (b ! 7),
      exp16 = le16 (b ! 8) (b ! 9)\<rparr>"

text \<open>
  The kernel address of a register slot, up to the 16-byte alignment of the state: 28 bytes of
  control words come before the ten-byte slots.
\<close>

definition reg_addr :: "regnr \<Rightarrow> u32" where
  "reg_addr n = 28 + 10 * ucast n"

section \<open>Loads\<close>

definition normalize_no_excep :: "fpu_reg \<Rightarrow> int \<Rightarrow> bool \<Rightarrow> u32 \<times> fpu_reg" where
  "normalize_no_excep r e sign =
     (let (tag, r) = FPU_normalize_nuo (setexponent16 e r);
          r = stdexp r in
      (tag, if sign then setnegative r else r))"

definition FPU_load_extended :: "u32 \<Rightarrow> regnr \<Rightarrow> fpu \<Rightarrow> u32 fres" where
  "FPU_load_extended a stnr s =
     (if \<not> FPU_access_ok s a 10 then math_abort SIGSEGV s
      else
        (let r = reg_of_bytes (snd (copy_from_user_ll (reg_addr (top_reg s + stnr)) (m_mem (fpu_m s)) a 10)) in
         Ret (FPU_tagof r) (set_st stnr r s)))"

definition denormal_load :: "fpu_reg \<Rightarrow> int \<Rightarrow> bool \<Rightarrow> fpu \<Rightarrow> (u32 \<times> fpu_reg) fres" where
  "denormal_load r e negative s =
     (let (tag, r) = normalize_no_excep r e negative;
          (d, s) = denormal_operand s in
      Ret (tag OR exc_if (d AND FPU_Exception \<noteq> 0), r) s)"

definition FPU_load_double :: "u32 \<Rightarrow> fpu \<Rightarrow> (u32 \<times> fpu_reg) fres" where
  "FPU_load_double a s =
     (if \<not> FPU_access_ok s a 8 then math_abort SIGSEGV s
      else
        (let m64 = get4 s (a + 4);
             l64 = get4 s a;
             negative = (m64 AND 0x80000000 \<noteq> 0);
             e = uint (drop_bit 20 (m64 AND 0x7ff00000)) - 1023 + EXTENDED_Ebias;
             m64 = m64 AND 0xfffff;
             frac = \<lparr>sigl = push_bit 11 l64, sigh = push_bit 11 m64 OR drop_bit 21 l64, exp16 = 0\<rparr>;
             sign = (if negative then 0x8000 else 0);
             setexp = (\<lambda>e r. setexponent16 (e OR sign) r) in
         if e > 1023 + EXTENDED_Ebias then
           (if m64 = 0 \<and> l64 = 0 then
              Ret (TAG_Special, setexp (EXP_OVER + EXTENDED_Ebias) \<lparr>sigl = 0, sigh = 0x80000000, exp16 = 0\<rparr>) s
            else Ret (TAG_Special, setexp (EXP_OVER + EXTENDED_Ebias) (frac\<lparr>sigh := sigh frac OR 0x80000000\<rparr>)) s)
         else if e < - 1022 + EXTENDED_Ebias then
           (if m64 = 0 \<and> l64 = 0 then Ret (TAG_Zero, setexp 0 CONST_Z) s
            else denormal_load frac (- 1022) negative s)
         else Ret (TAG_Valid, setexp e (frac\<lparr>sigh := sigh frac OR 0x80000000\<rparr>)) s))"

definition FPU_load_single :: "u32 \<Rightarrow> fpu \<Rightarrow> (u32 \<times> fpu_reg) fres" where
  "FPU_load_single a s =
     (if \<not> FPU_access_ok s a 4 then math_abort SIGSEGV s
      else
        (let m32 = get4 s a;
             negative = (m32 AND 0x80000000 \<noteq> 0);
             sign = (if negative then 0x8000 else 0) in
         if m32 AND 0x7fffffff = 0 then Ret (TAG_Zero, addexponent sign CONST_Z) s
         else
           (let e = uint (drop_bit 23 (m32 AND 0x7f800000)) - 127 + EXTENDED_Ebias;
                m32 = push_bit 8 (m32 AND 0x7fffff);
                setexp = (\<lambda>e r. setexponent16 (e OR sign) r) in
            if e < - 126 + EXTENDED_Ebias then
              denormal_load \<lparr>sigl = 0, sigh = m32, exp16 = 0\<rparr> (- 126) negative s
            else if e > 127 + EXTENDED_Ebias then
              (if m32 = 0 then
                 Ret (TAG_Special, setexp (EXP_OVER + EXTENDED_Ebias) \<lparr>sigl = 0, sigh = 0x80000000, exp16 = 0\<rparr>) s
               else
                 Ret (TAG_Special, setexp (EXP_OVER + EXTENDED_Ebias) \<lparr>sigl = 0, sigh = m32 OR 0x80000000, exp16 = 0\<rparr>) s)
            else Ret (TAG_Valid, setexp e \<lparr>sigl = 0, sigh = m32 OR 0x80000000, exp16 = 0\<rparr>) s)))"

text \<open>\<^verbatim>\<open>s = -s\<close> wraps for the most negative number, whose two's complement is its magnitude.\<close>

definition FPU_load_int64 :: "u32 \<Rightarrow> fpu \<Rightarrow> u32 fres" where
  "FPU_load_int64 a s =
     (if \<not> FPU_access_ok s a 8 then math_abort SIGSEGV s
      else
        (let (left, b) = copy_from_user 0 (fpu_m s) a 8 in
         if left \<noteq> 0 then math_abort SIGSEGV s
         else
           (let v = pair64 (le32 (b ! 4) (b ! 5) (b ! 6) (b ! 7)) (le32 (b ! 0) (b ! 1) (b ! 2) (b ! 3)) in
            if v = 0 then Ret TAG_Zero (set_st 0 CONST_Z s)
            else
              (let negative = \<not> 0 < sint v;
                   v = (if negative then - v else v);
                   (tag, r) = normalize_no_excep (set_significand v (st s 0)) 63 negative in
               Ret tag (set_st 0 r s)))))"

definition FPU_load_int32 :: "u32 \<Rightarrow> fpu \<Rightarrow> (u32 \<times> fpu_reg) fres" where
  "FPU_load_int32 a s =
     (if \<not> FPU_access_ok s a 4 then math_abort SIGSEGV s
      else
        (let v = get4 s a in
         if v = 0 then Ret (TAG_Zero, CONST_Z) s
         else
           (let negative = \<not> 0 < sint v; v = (if negative then - v else v) in
            Ret (normalize_no_excep \<lparr>sigl = 0, sigh = v, exp16 = 0\<rparr> 31 negative) s)))"

definition FPU_load_int16 :: "u32 \<Rightarrow> fpu \<Rightarrow> (u32 \<times> fpu_reg) fres" where
  "FPU_load_int16 a s =
     (if \<not> FPU_access_ok s a 2 then math_abort SIGSEGV s
      else
        (let v = (scast (get2 s a) :: u32) in
         if v = 0 then Ret (TAG_Zero, CONST_Z) s
         else
           (let negative = \<not> 0 < sint v; v = (if negative then - v else v) in
            Ret (normalize_no_excep \<lparr>sigl = 0, sigh = push_bit 16 v, exp16 = 0\<rparr> 15 negative) s)))"

fun load_bcd_digits :: "nat \<Rightarrow> u32 \<Rightarrow> fpu \<Rightarrow> u64 \<Rightarrow> u64" where
  "load_bcd_digits 0 a s l = l"
| "load_bcd_digits (Suc pos) a s l =
     (let l = l * 10;
          bcd = get1 s (a + of_nat pos);
          l = l + ucast (drop_bit 4 bcd);
          l = l * 10;
          l = l + ucast (bcd AND 0x0f) in
      load_bcd_digits pos a s l)"

definition FPU_load_bcd :: "u32 \<Rightarrow> fpu \<Rightarrow> u32 fres" where
  "FPU_load_bcd a s =
     (if \<not> FPU_access_ok s a 10 then math_abort SIGSEGV s
      else
        (let l = load_bcd_digits 9 a s 0;
             negative = (get1 s (a + 9) AND 0x80 \<noteq> 0) in
         if l = 0 then Ret TAG_Zero (set_st 0 (addexponent (if negative then 0x8000 else 0) CONST_Z) s)
         else
           (let (tag, r) = normalize_no_excep (set_significand l (st s 0)) 63 negative in
            Ret tag (set_st 0 r s))))"

section \<open>Stores\<close>

definition FPU_store_extended :: "fpu_reg \<Rightarrow> u32 \<Rightarrow> u32 \<Rightarrow> fpu \<Rightarrow> int fres" where
  "FPU_store_extended r tag d s =
     (if tag \<noteq> TAG_Empty then
        (if \<not> FPU_access_ok s d 10 then math_abort SIGSEGV s
         else Ret 1 (put2 (exp16 r) (d + 8) (put4 (sigh r) (d + 4) (put4 (sigl r) d s))))
      else
        (let s = FPU_exception EX_StackUnder s in
         if masked CW_Invalid s then
           (if \<not> FPU_access_ok s d 10 then math_abort SIGSEGV s
            else Ret 1 (put2 0xffff (d + 8) (put4 0xc0000000 (d + 4) (put4 0 d s))))
         else Ret 0 s))"

definition put_double :: "bool \<Rightarrow> u32 \<Rightarrow> u32 \<Rightarrow> u32 \<Rightarrow> fpu \<Rightarrow> int fres" where
  "put_double neg l0 l1 d s =
     (if \<not> FPU_access_ok s d 8 then math_abort SIGSEGV s
      else Ret 1 (put4 (if neg then l1 OR 0x80000000 else l1) (d + 4) (put4 l0 d s)))"

text \<open>The label \<^verbatim>\<open>denormal_arg\<close>: \<open>tmp\<close> is scaled so that the result is the integer it rounds to.\<close>

definition store_double_denormal :: "fpu_reg \<Rightarrow> fpu_reg \<Rightarrow> u32 \<Rightarrow> u32 \<Rightarrow> fpu \<Rightarrow> int fres" where
  "store_double_denormal r tmp tag d s =
     (let (precision_loss, tmp) = FPU_round_to_int tmp tag s;
          underflow = \<not> (sigh tmp = 0x00100000 \<and> sigl tmp = 0 \<and> sigl r AND 0x7ff \<noteq> 0) in
      if precision_loss \<noteq> 0 then
        (let s = (if underflow then FPU_exception EX_Underflow s else s) in
         if underflow \<and> \<not> masked CW_Underflow s then Ret 0 s
         else
           (let s = FPU_exception precision_loss s in
            if \<not> masked CW_Precision s then Ret 0 s
            else put_double (getsign r) (sigl tmp) (sigh tmp) d s))
      else put_double (getsign r) (sigl tmp) (sigh tmp) d s)"

definition increment_double :: "fpu_reg \<Rightarrow> fpu \<Rightarrow> bool" where
  "increment_double r s =
     (let rc = control_word s AND CW_RC in
      if rc = RC_RND then sigl r AND 0x7ff > 0x400 \<or> sigl r AND 0xc00 = 0xc00
      else if rc = RC_DOWN then getsign r \<and> sigl r AND 0x7ff \<noteq> 0
      else if rc = RC_UP then \<not> getsign r \<and> sigl r AND 0x7ff \<noteq> 0
      else False)"

definition store_double_overflow :: "fpu_reg \<Rightarrow> u32 \<Rightarrow> u32 \<Rightarrow> fpu \<Rightarrow> int fres" where
  "store_double_overflow r l0 d s =
     (let s = FPU_exception EX_Overflow s in
      if \<not> masked CW_Overflow s then Ret 0 s
      else
        (let s = set_precision_flag_up s in
         if \<not> masked CW_Precision s then Ret 0 s else put_double (getsign r) l0 0x7ff00000 d s))"

text \<open>
  Rounding the significand to 53 bits: the new significand and exponent, or \<open>None\<close> where the code
  jumps to \<^verbatim>\<open>overflow\<close> before it has computed the words to store.
\<close>

definition round_double :: "fpu_reg \<Rightarrow> bool \<Rightarrow> (fpu_reg \<times> int) option" where
  "round_double r increment =
     (let e = exponent r in
      if sigl r AND 0x7ff \<noteq> 0 then
        (let tmp = r\<lparr>sigl := sigl r AND 0xfffff800\<rparr> in
         if increment then
           (if sigl tmp \<ge> 0xfffff800 then
              (if sigh tmp = 0xffffffff then
                 (if e + 1 \<ge> EXP_OVER then None else Some (tmp\<lparr>sigh := 0x80000000, sigl := 0\<rparr>, e + 1))
               else Some (tmp\<lparr>sigh := sigh tmp + 1, sigl := 0\<rparr>, e))
            else Some (tmp\<lparr>sigl := sigl tmp + 0x800\<rparr>, e))
         else Some (tmp, e))
      else Some (r, e))"

definition store_double_valid :: "fpu_reg \<Rightarrow> u32 \<Rightarrow> u32 \<Rightarrow> fpu \<Rightarrow> int fres" where
  "store_double_valid r tag d s =
     (if exponent r < - 1022 then store_double_denormal r (addexponent (1022 + 52) r) tag d s
      else
        (let precision_loss = (sigl r AND 0x7ff \<noteq> 0); increment = increment_double r s in
         case round_double r increment of
           None \<Rightarrow> store_double_overflow r 0 d s
         | Some (tmp, e) \<Rightarrow>
             (let l0 = drop_bit 11 (sigl tmp) OR push_bit 21 (sigh tmp);
                  l1 = drop_bit 11 (sigh tmp) AND 0xfffff in
              if e > 1023 then store_double_overflow r l0 d s
              else
                (let s = (if precision_loss then
                            (if increment then set_precision_flag_up s else set_precision_flag_down s)
                          else s) in
                 put_double (getsign r) l0 (l1 OR push_bit 20 (word_of_int (e + 1023) AND 0x7ff)) d s))))"

definition FPU_store_double :: "fpu_reg \<Rightarrow> u32 \<Rightarrow> u32 \<Rightarrow> fpu \<Rightarrow> int fres" where
  "FPU_store_double r tag d s =
     (if tag = TAG_Valid then store_double_valid r tag d s
      else if tag = TAG_Zero then put_double (getsign r) 0 0 d s
      else if tag = TAG_Special then
        (let tag = FPU_Special r in
         if tag = TW_Denormal then store_double_denormal r r tag d s
         else if tag = TW_Infinity then put_double (getsign r) 0 0x7ff00000 d s
         else if tag = TW_NaN then
           (if exponent r = EXP_OVER \<and> sigh r AND 0x80000000 \<noteq> 0 then
              (let l0 = drop_bit 11 (sigl r) OR push_bit 21 (sigh r);
                   l1 = drop_bit 11 (sigh r) AND 0xfffff in
               if sigh r AND 0x40000000 = 0 then
                 (let s = FPU_exception EX_Invalid s in
                  if \<not> masked CW_Invalid s then Ret 0 s
                  else put_double (getsign r) l0 (l1 OR drop_bit 11 0x40000000 OR 0x7ff00000) d s)
               else put_double (getsign r) l0 (l1 OR 0x7ff00000) d s)
            else
              (let s = FPU_exception EX_Invalid s in
               if \<not> masked CW_Invalid s then Ret 0 s else put_double (getsign r) 0 0xfff80000 d s))
         else put_double (getsign r) 0 0 d s)
      else if tag = TAG_Empty then
        (let s = FPU_exception EX_StackUnder s in
         if masked CW_Invalid s then
           (if \<not> FPU_access_ok s d 8 then math_abort SIGSEGV s
            else Ret 1 (put4 0xfff80000 (d + 4) (put4 0 d s)))
         else Ret 0 s)
      else put_double (getsign r) 0 0 d s)"

definition put_single :: "bool \<Rightarrow> u32 \<Rightarrow> u32 \<Rightarrow> fpu \<Rightarrow> int fres" where
  "put_single neg templ d s =
     (if \<not> FPU_access_ok s d 4 then math_abort SIGSEGV s
      else Ret 1 (put4 (if neg then templ OR 0x80000000 else templ) d s))"

definition store_single_denormal :: "fpu_reg \<Rightarrow> fpu_reg \<Rightarrow> u32 \<Rightarrow> u32 \<Rightarrow> fpu \<Rightarrow> int fres" where
  "store_single_denormal r tmp tag d s =
     (let (precision_loss, tmp) = FPU_round_to_int tmp tag s;
          underflow = \<not> (sigl tmp = 0x00800000 \<and> (sigh r AND 0xff \<noteq> 0 \<or> sigl r \<noteq> 0)) in
      if precision_loss \<noteq> 0 then
        (let s = (if underflow then FPU_exception EX_Underflow s else s) in
         if underflow \<and> \<not> masked CW_Underflow s then Ret 0 s
         else
           (let s = FPU_exception precision_loss s in
            if \<not> masked CW_Precision s then Ret 0 s else put_single (getsign r) (sigl tmp) d s))
      else put_single (getsign r) (sigl tmp) d s)"

definition increment_single :: "fpu_reg \<Rightarrow> fpu \<Rightarrow> bool" where
  "increment_single r s =
     (let rc = control_word s AND CW_RC in
      if rc = RC_RND then
        sigh r AND 0xff > 0x80 \<or> (sigh r AND 0xff = 0x80 \<and> sigl r \<noteq> 0) \<or> sigh r AND 0x180 = 0x180
      else if rc = RC_DOWN then getsign r \<and> sigl r OR (sigh r AND 0xff) \<noteq> 0
      else if rc = RC_UP then \<not> getsign r \<and> sigl r OR (sigh r AND 0xff) \<noteq> 0
      else False)"

definition store_single_overflow :: "fpu_reg \<Rightarrow> u32 \<Rightarrow> fpu \<Rightarrow> int fres" where
  "store_single_overflow r d s =
     (let s = FPU_exception EX_Overflow s in
      if \<not> masked CW_Overflow s then Ret 0 s
      else
        (let s = set_precision_flag_up s in
         if \<not> masked CW_Precision s then Ret 0 s else put_single (getsign r) 0x7f800000 d s))"

definition round_single :: "fpu_reg \<Rightarrow> bool \<Rightarrow> (u32 \<times> int) option" where
  "round_single r increment =
     (let e = exponent r in
      if sigl r OR (sigh r AND 0xff) \<noteq> 0 then
        (if increment then
           (if sigh r \<ge> 0xffffff00 then
              (if e + 1 \<ge> EXP_OVER then None else Some (0x80000000, e + 1))
            else Some ((sigh r AND 0xffffff00) + 0x100, e))
         else Some (sigh r AND 0xffffff00, e))
      else Some (sigh r, e))"

definition store_single_valid :: "fpu_reg \<Rightarrow> u32 \<Rightarrow> u32 \<Rightarrow> fpu \<Rightarrow> int fres" where
  "store_single_valid r tag d s =
     (if exponent r < - 126 then store_single_denormal r (addexponent (126 + 23) r) tag d s
      else
        (let precision_loss = (sigl r OR (sigh r AND 0xff) \<noteq> 0); increment = increment_single r s in
         case round_single r increment of
           None \<Rightarrow> store_single_overflow r d s
         | Some (h, e) \<Rightarrow>
             (let templ = drop_bit 8 h AND 0x007fffff in
              if e > 127 then store_single_overflow r d s
              else
                (let s = (if precision_loss then
                            (if increment then set_precision_flag_up s else set_precision_flag_down s)
                          else s) in
                 put_single (getsign r) (templ OR push_bit 23 (word_of_int (e + 127) AND 0xff)) d s))))"

definition FPU_store_single :: "fpu_reg \<Rightarrow> u32 \<Rightarrow> u32 \<Rightarrow> fpu \<Rightarrow> int fres" where
  "FPU_store_single r tag d s =
     (if tag = TAG_Valid then store_single_valid r tag d s
      else if tag = TAG_Zero then put_single (getsign r) 0 d s
      else if tag = TAG_Special then
        (let tag = FPU_Special r in
         if tag = TW_Denormal then store_single_denormal r r tag d s
         else if tag = TW_Infinity then put_single (getsign r) 0x7f800000 d s
         else if tag = TW_NaN then
           (if exponent r = EXP_OVER \<and> sigh r AND 0x80000000 \<noteq> 0 then
              (let templ = drop_bit 8 (sigh r) in
               if sigh r AND 0x40000000 = 0 then
                 (let s = FPU_exception EX_Invalid s in
                  if \<not> masked CW_Invalid s then Ret 0 s
                  else put_single (getsign r) (templ OR drop_bit 8 0x40000000 OR 0x7f800000) d s)
               else put_single (getsign r) (templ OR 0x7f800000) d s)
            else
              (let s = FPU_exception EX_Invalid s in
               if \<not> masked CW_Invalid s then Ret 0 s else put_single (getsign r) 0xffc00000 d s))
         else Ret 0 (FPU_exception (EX_INTERNAL OR 0x164) s))
      else if tag = TAG_Empty then
        (let s = FPU_exception EX_StackUnder s in
         if masked EX_Invalid s then
           (if \<not> FPU_access_ok s d 4 then math_abort SIGSEGV s else Ret 1 (put4 0xffc00000 d s))
         else Ret 0 s)
      else Ret 0 (FPU_exception (EX_INTERNAL OR 0x163) s))"

text \<open>
  The common opening of the integer stores: an empty register, an infinity or a NaN is an invalid
  operand; otherwise the tag to round with.
\<close>

definition int_operand :: "fpu_reg \<Rightarrow> u32 \<Rightarrow> fpu \<Rightarrow> u32 option \<times> fpu" where
  "int_operand r tag s =
     (if tag = TAG_Empty then (None, FPU_exception EX_StackUnder s)
      else if tag = TAG_Special then
        (let tag = FPU_Special r in
         if tag = TW_Infinity \<or> tag = TW_NaN then (None, FPU_exception EX_Invalid s) else (Some tag, s))
      else (Some tag, s))"

definition flag_precision :: "u32 \<Rightarrow> fpu \<Rightarrow> fpu" where
  "flag_precision precision_loss s =
     (if precision_loss \<noteq> 0 then snd (set_precision_flag precision_loss s) else s)"

definition put_int64 :: "u64 \<Rightarrow> u32 \<Rightarrow> fpu \<Rightarrow> int fres" where
  "put_int64 tll d s =
     (if \<not> FPU_access_ok s d 8 then math_abort SIGSEGV s
      else
        (let (left, mem) = copy_to_user (m_mem (fpu_m s)) d (bytes32 (ucast tll) @ bytes32 (ucast (drop_bit 32 tll)));
             s = s\<lparr>fpu_m := (fpu_m s)\<lparr>m_mem := mem\<rparr>\<rparr> in
         if left \<noteq> 0 then math_abort SIGSEGV s else Ret 1 s))"

definition FPU_store_int64 :: "fpu_reg \<Rightarrow> u32 \<Rightarrow> u32 \<Rightarrow> fpu \<Rightarrow> int fres" where
  "FPU_store_int64 r tag d s =
     (let invalid = (\<lambda>s. if masked EX_Invalid s then put_int64 0x8000000000000000 d s else Ret 0 s) in
      case int_operand r tag s of
        (None, s) \<Rightarrow> invalid s
      | (Some tag, s) \<Rightarrow>
          (let (precision_loss, t) = FPU_round_to_int r tag s;
               tll = pair64 (sigh t) (sigl t) in
           if precision_loss = 1 \<or>
              (sigh t AND 0x80000000 \<noteq> 0 \<and> \<not> (sigh t = 0x80000000 \<and> sigl t = 0 \<and> getsign t))
           then invalid (FPU_exception EX_Invalid s)
           else put_int64 (if getsign t then - tll else tll) d (flag_precision precision_loss s)))"

definition put_int32 :: "u32 \<Rightarrow> u32 \<Rightarrow> fpu \<Rightarrow> int fres" where
  "put_int32 v d s = (if \<not> FPU_access_ok s d 4 then math_abort SIGSEGV s else Ret 1 (put4 v d s))"

definition FPU_store_int32 :: "fpu_reg \<Rightarrow> u32 \<Rightarrow> u32 \<Rightarrow> fpu \<Rightarrow> int fres" where
  "FPU_store_int32 r tag d s =
     (let invalid = (\<lambda>s. if masked EX_Invalid s then put_int32 0x80000000 d s else Ret 0 s) in
      case int_operand r tag s of
        (None, s) \<Rightarrow> invalid s
      | (Some tag, s) \<Rightarrow>
          (let (precision_loss, t) = FPU_round_to_int r tag s in
           if sigh t \<noteq> 0 \<or> (sigl t AND 0x80000000 \<noteq> 0 \<and> \<not> (sigl t = 0x80000000 \<and> getsign t))
           then invalid (FPU_exception EX_Invalid s)
           else put_int32 (if getsign t then - sigl t else sigl t) d (flag_precision precision_loss s)))"

definition put_int16 :: "u32 \<Rightarrow> u32 \<Rightarrow> fpu \<Rightarrow> int fres" where
  "put_int16 v d s = (if \<not> FPU_access_ok s d 2 then math_abort SIGSEGV s else Ret 1 (put2 (ucast v) d s))"

definition FPU_store_int16 :: "fpu_reg \<Rightarrow> u32 \<Rightarrow> u32 \<Rightarrow> fpu \<Rightarrow> int fres" where
  "FPU_store_int16 r tag d s =
     (let invalid = (\<lambda>s. if masked EX_Invalid s then put_int16 0x8000 d s else Ret 0 s) in
      case int_operand r tag s of
        (None, s) \<Rightarrow> invalid s
      | (Some tag, s) \<Rightarrow>
          (let (precision_loss, t) = FPU_round_to_int r tag s in
           if sigh t \<noteq> 0 \<or> (sigl t AND 0xffff8000 \<noteq> 0 \<and> \<not> (sigl t = 0x8000 \<and> getsign t))
           then invalid (FPU_exception EX_Invalid s)
           else put_int16 (if getsign t then - sigl t else sigl t) d (flag_precision precision_loss s)))"

fun put_bcd :: "nat \<Rightarrow> u32 \<times> u32 \<Rightarrow> u32 \<Rightarrow> fpu \<Rightarrow> fpu" where
  "put_bcd 0 ll d s = s"
| "put_bcd (Suc n) ll d s =
     (let (b, ll) = FPU_div_small ll 10;
          (c, ll) = FPU_div_small ll 10 in
      put_bcd n ll (d + 1) (put1 (ucast b OR push_bit 4 (ucast c)) d s))"

definition put_bytes :: "u8 list \<Rightarrow> u32 \<Rightarrow> fpu \<Rightarrow> fpu" where
  "put_bytes bs d s = fst (fold (\<lambda>b (s, d). (put1 b d s, d + 1)) bs (s, d))"

definition FPU_store_bcd :: "fpu_reg \<Rightarrow> u32 \<Rightarrow> u32 \<Rightarrow> fpu \<Rightarrow> int fres" where
  "FPU_store_bcd r tag d s =
     (let sign = (if getsign r then 0x80 else 0);
          invalid = (\<lambda>s. if masked CW_Invalid s then
                           (if \<not> FPU_access_ok s d 10 then math_abort SIGSEGV s
                            else Ret 1 (put_bytes [0, 0, 0, 0, 0, 0, 0, 0xc0, 0xff, 0xff] d s))
                         else Ret 0 s) in
      case int_operand r tag s of
        (None, s) \<Rightarrow> invalid s
      | (Some tag, s) \<Rightarrow>
          (let (precision_loss, t) = FPU_round_to_int r tag s in
           if sigh t > 0x0de0b6b3 \<or> (sigh t = 0x0de0b6b3 \<and> sigl t > 0xa763ffff)
           then invalid (FPU_exception EX_Invalid s)
           else
             (let s = flag_precision precision_loss s in
              if \<not> FPU_access_ok s d 10 then math_abort SIGSEGV s
              else Ret 1 (put1 sign (d + 9) (put_bcd 9 (sigh t, sigl t) d s)))))"

section \<open>Environment and state images\<close>

record addr_modes =
  am_address_size :: u8
  am_operand_size :: u8
  am_segment :: u8
  am_default_mode :: u8

text \<open>The 16-bit format: \<^verbatim>\<open>VM86\<close> is 1, \<^verbatim>\<open>PM16\<close> is 5, the operand-size prefix 0x66.\<close>

definition env16 :: "addr_modes \<Rightarrow> bool" where
  "env16 am \<longleftrightarrow> am_default_mode am = 1 \<or> (am_default_mode am = 5) \<noteq> (am_operand_size am = 0x66)"

text \<open>The halves of \<^verbatim>\<open>struct address\<close>: selector in the low 16 bits, opcode in the next 11.\<close>

definition set_selector :: "u16 \<Rightarrow> u32 \<Rightarrow> u32" where
  "set_selector x w = (w AND 0xffff0000) OR ucast x"

definition set_opcode :: "u16 \<Rightarrow> u32 \<Rightarrow> u32" where
  "set_opcode x w = (w AND 0xf800ffff) OR push_bit 16 (ucast x AND 0x7ff)"

definition tag_of_loaded :: "fpu_reg \<Rightarrow> u32" where
  "tag_of_loaded r =
     (if exponent r = - EXTENDED_Ebias then (if sigl r OR sigh r = 0 then TAG_Zero else TAG_Special)
      else if exponent r = 0x7fff - EXTENDED_Ebias then TAG_Special
      else if sigh r AND 0x80000000 \<noteq> 0 then TAG_Valid
      else TAG_Special)"

definition fldenv_tag :: "u16 \<Rightarrow> nat \<Rightarrow> fpu \<Rightarrow> fpu" where
  "fldenv_tag tag_word i s =
     (let tag = drop_bit (2 * i) tag_word AND 3; n = of_nat i in
      if tag = 3 then FPU_settag n TAG_Empty s
      else if FPU_gettag s n = TAG_Empty then FPU_settag n (tag_of_loaded (st_space s n)) s
      else s)"

definition fldenv_image :: "addr_modes \<Rightarrow> u32 \<Rightarrow> fpu \<Rightarrow> (u32 \<times> u16) fres" where
  "fldenv_image am a s =
     (if env16 am then
        (if \<not> FPU_access_ok s a 0x0e then math_abort SIGSEGV s
         else
           (let s' = s\<lparr>control_word := ucast (get2 s a), partial_status := ucast (get2 s (a + 2)),
                       soft_fip := ucast (get2 s (a + 6)),
                       soft_fcs := set_selector (get2 s (a + 8)) (soft_fcs s),
                       soft_foo := ucast (get2 s (a + 0x0a)),
                       soft_fos := set_selector (get2 s (a + 0x0c)) (soft_fos s)\<rparr>;
                s' = (if am_default_mode am = 1
                      then s'\<lparr>soft_fip := soft_fip s' + push_bit 4 (soft_fcs s' AND 0xf000),
                              soft_foo := soft_foo s' + push_bit 4 (soft_fos s' AND 0xf000)\<rparr>
                      else s') in
            Ret (a + 0x0e, get2 s (a + 4)) s'))
      else
        (if \<not> FPU_access_ok s a 0x1c then math_abort SIGSEGV s
         else
           Ret (a + 0x1c, get2 s (a + 8))
             (s\<lparr>control_word := ucast (get2 s a), partial_status := ucast (get2 s (a + 4)),
                soft_fip := get4 s (a + 0x0c),
                soft_fcs := set_opcode (get2 s (a + 0x12)) (set_selector (get2 s (a + 0x10)) (soft_fcs s)),
                soft_foo := get4 s (a + 0x14),
                soft_fos := set_selector (ucast (get4 s (a + 0x18))) (soft_fos s)\<rparr>)))"

definition fldenv :: "addr_modes \<Rightarrow> u32 \<Rightarrow> fpu \<Rightarrow> u32 fres" where
  "fldenv am a s =
     fbind (fldenv_image am a s) (\<lambda>(a, tag_word) s.
       (let s = s\<lparr>control_word := control_word s AND NOT 0xe080\<rparr>;
            s = s\<lparr>fpu_top := ucast (drop_bit 11 (partial_status s) AND 7)\<rparr>;
            s = (if partial_status s AND NOT (control_word s) AND CW_Exceptions \<noteq> 0
                 then or_status (SW_Summary OR SW_Backward) s
                 else clear_status (SW_Summary OR SW_Backward) s) in
        Ret a (fold (fldenv_tag tag_word) [0..<8] s)))"

text \<open>A block of registers from \<open>n\<close> upwards, replaced by the bytes copied over them.\<close>

definition put_regs :: "regnr \<Rightarrow> u8 list \<Rightarrow> (regnr \<Rightarrow> fpu_reg) \<Rightarrow> regnr \<Rightarrow> fpu_reg" where
  "put_regs n bs rs i =
     (if unat n \<le> unat i \<and> 10 * (unat i - unat n) + 10 \<le> length bs
      then reg_of_bytes (take 10 (drop (10 * (unat i - unat n)) bs)) else rs i)"

definition get_regs :: "nat \<Rightarrow> nat \<Rightarrow> (regnr \<Rightarrow> fpu_reg) \<Rightarrow> u8 list" where
  "get_regs m n rs = concat (map (\<lambda>i. bytes_of_reg (rs (of_nat i))) [m..<n])"

definition retag :: "nat \<Rightarrow> fpu \<Rightarrow> fpu" where
  "retag i s =
     (let regnr = of_nat i + top_reg s in
      if FPU_gettag s regnr \<noteq> TAG_Empty then FPU_settag regnr (FPU_tagof (st s (of_nat i))) s else s)"

definition frstor :: "addr_modes \<Rightarrow> u32 \<Rightarrow> fpu \<Rightarrow> unit fres" where
  "frstor am data_address s =
     fbind (fldenv am data_address s) (\<lambda>a s.
       (if \<not> FPU_access_ok s a 80 then math_abort SIGSEGV s
        else
          (let n = top_reg s; offset = unat n * 10; other = 80 - offset;
               bs = snd (copy_from_user_ll (reg_addr n) (m_mem (fpu_m s)) a other);
               s = s\<lparr>st_space := put_regs n bs (st_space s)\<rparr>;
               s = (if offset \<noteq> 0 then
                      s\<lparr>st_space :=
                          put_regs 0 (snd (copy_from_user_ll (reg_addr 0) (m_mem (fpu_m s)) (a + of_nat other) offset))
                            (st_space s)\<rparr>
                    else s) in
           Ret () (fold retag [0..<8] s))))"

definition copy_out :: "u8 list \<Rightarrow> u32 \<Rightarrow> fpu \<Rightarrow> unit fres" where
  "copy_out bs d s =
     (let (left, mem) = copy_to_user (m_mem (fpu_m s)) d bs;
          s = s\<lparr>fpu_m := (fpu_m s)\<lparr>m_mem := mem\<rparr>\<rparr> in
      if left \<noteq> 0 then math_abort SIGSEGV s else Ret () s)"

definition mask_all :: "fpu \<Rightarrow> fpu" where
  "mask_all s = clear_status (SW_Summary OR SW_Backward) (s\<lparr>control_word := control_word s OR CW_Exceptions\<rparr>)"

definition fstenv :: "addr_modes \<Rightarrow> u32 \<Rightarrow> fpu \<Rightarrow> u32 fres" where
  "fstenv am d s =
     (if env16 am then
        (if \<not> FPU_access_ok s d 14 then math_abort SIGSEGV s
         else
           (let s = put4 (control_word s AND NOT 0xe080) d s;
                s = put2 (ucast (status_word s)) (d + 2) s;
                s = put2 (ucast (fpu_tag_word s)) (d + 4) s;
                s = put2 (ucast (soft_fip s)) (d + 6) s;
                s = put2 (ucast (soft_foo s)) (d + 0x0a) s;
                s = (if am_default_mode am = 1 then
                       put2 (ucast (drop_bit 4 (soft_foo s AND 0xf0000))) (d + 0x0c)
                         (put2 (ucast (drop_bit 4 (soft_fip s AND 0xf0000))) (d + 8) s)
                     else put2 (ucast (soft_fos s)) (d + 0x0c) (put2 (ucast (soft_fcs s)) (d + 8) s)) in
            Ret (d + 0x0e) (mask_all s)))
      else
        (if \<not> FPU_access_ok s d (7 * 4) then math_abort SIGSEGV s
         else
           (let s = s\<lparr>control_word := (control_word s AND NOT 0xe080) OR 0xffff0040,
                      partial_status := status_word s OR 0xffff0000,
                      fpu_tag_word := fpu_tag_word s OR 0xffff0000,
                      soft_fcs := soft_fcs s AND NOT 0xf8000000,
                      soft_fos := soft_fos s OR 0xffff0000\<rparr> in
            fbind (copy_out (concat (map bytes32 [control_word s, partial_status s, fpu_tag_word s, soft_fip s,
                                                  soft_fcs s, soft_foo s, soft_fos s])) d s)
              (\<lambda>_ s. Ret (d + 0x1c) (mask_all s)))))"

definition fsave :: "addr_modes \<Rightarrow> u32 \<Rightarrow> fpu \<Rightarrow> unit fres" where
  "fsave am data_address s =
     (let n = unat (top_reg s); offset = n * 10; other = 80 - offset in
      fbind (fstenv am data_address s) (\<lambda>d s.
        (if \<not> FPU_access_ok s d 80 then math_abort SIGSEGV s
         else
           fbind (copy_out (get_regs n 8 (st_space s)) d s) (\<lambda>_ s.
           fbind (if offset \<noteq> 0 then copy_out (get_regs 0 n (st_space s)) (d + of_nat other) s else Ret () s) (\<lambda>_ s.
             Ret () (finit s))))))"

end
