(* ===== verification/Fpu_Round.thy ===== *)
theory Fpu_Round
  imports Fpu_Num
begin

text \<open>
  Correctness of the emulator's rounding to an integer, \<^verbatim>\<open>FPU_round_to_int\<close>: the real number a
  register denotes, the IEEE rounding directions on real numbers, and the proof that the routine
  delivers the rounded number or reports overflow.
\<close>

section \<open>Correct rounding to an integer\<close>

text \<open>The four IEEE rounding directions, on real numbers.\<close>

definition round_even :: "real \<Rightarrow> int" where
  "round_even x =
     (let f = x - of_int \<lfloor>x\<rfloor> in
      if f < 1 / 2 then \<lfloor>x\<rfloor> else if 1 / 2 < f then \<lfloor>x\<rfloor> + 1
      else if even \<lfloor>x\<rfloor> then \<lfloor>x\<rfloor> else \<lfloor>x\<rfloor> + 1)"

definition round_ref :: "u32 \<Rightarrow> real \<Rightarrow> int" where
  "round_ref rc x =
     (if rc = RC_RND then round_even x
      else if rc = RC_DOWN then \<lfloor>x\<rfloor>
      else if rc = RC_UP then \<lceil>x\<rceil>
      else if x < 0 then \<lceil>x\<rceil> else \<lfloor>x\<rfloor>)"

definition signed :: "bool \<Rightarrow> 'a::ring_1" where
  "signed neg = (if neg then - 1 else 1)"

text \<open>The real number a finite register denotes; zero and denormals share the smallest exponent.\<close>

definition fval :: "fpu_reg \<Rightarrow> real" where
  "fval r = signed (getsign r) * real (unat (significand r)) * 2 powi (max (exponent r) (- 0x3ffe) - 63)"

text \<open>Whether the magnitude is incremented, from the quotient and the remainder.\<close>

definition round_inc :: "u32 \<Rightarrow> bool \<Rightarrow> nat \<Rightarrow> nat \<Rightarrow> bool" where
  "round_inc rc neg v k \<longleftrightarrow>
     (if rc = RC_RND then 2 ^ k < 2 * (v mod 2 ^ k) \<or> (2 ^ k \<le> 2 * (v mod 2 ^ k) \<and> odd (v div 2 ^ k))
      else if rc = RC_DOWN then v mod 2 ^ k \<noteq> 0 \<and> neg
      else if rc = RC_UP then v mod 2 ^ k \<noteq> 0 \<and> \<not> neg
      else False)"

lemma round_inc_exact: "v mod 2 ^ k = 0 \<Longrightarrow> \<not> round_inc rc neg v k"
  by (simp add: round_inc_def)

lemma floor_parts:
  fixes f :: real
  assumes "0 \<le> f" "f < 1"
  shows "\<lfloor>of_int q + f\<rfloor> = q" "\<lceil>of_int q + f\<rceil> = q + (if f = 0 then 0 else 1)"
    "\<lfloor>- (of_int q + f)\<rfloor> = - q - (if f = 0 then 0 else 1)" "\<lceil>- (of_int q + f)\<rceil> = - q"
  using assms by (auto simp: floor_eq_iff ceiling_eq_iff)

lemma round_even_parts:
  fixes f :: real
  assumes "0 \<le> f" "f < 1"
  shows "round_even (of_int q + f) = q + (if 1 / 2 < f \<or> (1 / 2 \<le> f \<and> odd q) then 1 else 0)"
    and "round_even (- (of_int q + f)) = - q - (if 1 / 2 < f \<or> (1 / 2 \<le> f \<and> odd q) then 1 else 0)"
  unfolding round_even_def floor_parts [OF assms] Let_def using assms by auto

lemma trunc_parts:
  fixes f :: real
  assumes "0 \<le> f" "f < 1" "0 \<le> q"
  shows "(if of_int q + f < 0 then \<lceil>of_int q + f\<rceil> else \<lfloor>of_int q + f\<rfloor>) = q"
    and "(if - (of_int q + f) < 0 then \<lceil>- (of_int q + f)\<rceil> else \<lfloor>- (of_int q + f)\<rfloor>) = - q"
proof -
  have "0 \<le> of_int q + f" using assms by simp
  then show "(if of_int q + f < 0 then \<lceil>of_int q + f\<rceil> else \<lfloor>of_int q + f\<rfloor>) = q"
    using floor_parts(1) [OF assms(1, 2)] by simp
  show "(if - (of_int q + f) < 0 then \<lceil>- (of_int q + f)\<rceil> else \<lfloor>- (of_int q + f)\<rfloor>) = - q"
  proof (cases "of_int q + f = 0")
    case True
    then have "q = 0" "f = 0" using assms by (simp_all add: add_nonneg_eq_0_iff)
    then show ?thesis by simp
  next
    case False
    then have "- (of_int q + f) < 0" using assms by simp
    then show ?thesis unfolding floor_parts(4) [OF assms(1, 2)] by simp
  qed
qed

lemma nat_quotient_parts: "real v / 2 ^ k = of_int (int (v div 2 ^ k)) + real (v mod 2 ^ k) / 2 ^ k"
proof -
  have "real v = real (v div 2 ^ k * 2 ^ k + v mod 2 ^ k)" by (simp only: div_mult_mod_eq)
  also have "\<dots> = real (v div 2 ^ k) * 2 ^ k + real (v mod 2 ^ k)" by simp
  finally show ?thesis by (simp add: field_simps)
qed

lemma frac_parts:
  fixes v :: nat
  shows "0 \<le> real (v mod 2 ^ k) / 2 ^ k" "real (v mod 2 ^ k) / 2 ^ k < 1" "real (v mod 2 ^ k) / 2 ^ k = 0 \<longleftrightarrow> v mod 2 ^ k = 0"
proof -
  have "real (v mod 2 ^ k) < 2 ^ k" using mod_less_divisor [of "2 ^ k" v]
    by (metis of_nat_less_numeral_power_cancel_iff zero_less_numeral zero_less_power)
  then show "real (v mod 2 ^ k) / 2 ^ k < 1" by simp
qed simp_all

lemma round_ref_nat:
  "round_ref rc (signed neg * (real v / 2 ^ k)) = signed neg * int (v div 2 ^ k + of_bool (round_inc rc neg v k))"
proof -
  define f where "f = real (v mod 2 ^ k) / 2 ^ k"
  define q where "q = int (v div 2 ^ k)"
  have f: "0 \<le> f" "f < 1" and f0: "f = 0 \<longleftrightarrow> v mod 2 ^ k = 0"
    unfolding f_def by (rule frac_parts)+
  have fh: "1 / 2 < f \<longleftrightarrow> 2 ^ k < 2 * (v mod 2 ^ k)" "1 / 2 \<le> f \<longleftrightarrow> 2 ^ k \<le> 2 * (v mod 2 ^ k)"
  proof -
    have "1 / 2 < f \<longleftrightarrow> 2 ^ k < 2 * real (v mod 2 ^ k)" "1 / 2 \<le> f \<longleftrightarrow> 2 ^ k \<le> 2 * real (v mod 2 ^ k)"
      by (auto simp: f_def field_simps)
    moreover have "2 * real (v mod 2 ^ k) = real (2 * (v mod 2 ^ k))" "2 ^ k = real (2 ^ k)" by simp_all
    ultimately show "1 / 2 < f \<longleftrightarrow> 2 ^ k < 2 * (v mod 2 ^ k)" "1 / 2 \<le> f \<longleftrightarrow> 2 ^ k \<le> 2 * (v mod 2 ^ k)"
      by (simp_all only: of_nat_less_iff of_nat_le_iff)
  qed
  have x: "real v / 2 ^ k = of_int q + f" unfolding f_def q_def by (rule nat_quotient_parts)
  have q: "0 \<le> q" "odd q \<longleftrightarrow> odd (v div 2 ^ k)" by (simp_all add: q_def)
  have i: "int (v div 2 ^ k + of_bool b) = q + of_bool b" for b by (simp add: q_def)
  have m: "signed True * y = - y" "signed False * y = y" for y :: "'a::ring_1" by (simp_all add: signed_def)
  have q0: "0 \<le> real_of_int q" using q(1) by simp
  show ?thesis
    unfolding i x round_ref_def round_inc_def fh [symmetric] q(2) [symmetric] f0 [symmetric]
    by (cases neg) (simp_all only: m floor_parts [OF f] round_even_parts [OF f] trunc_parts [OF f q(1)]
      simp_thms if_True if_False of_bool_def split: if_splits, use f q0 in auto)
qed

lemma significand_pair: "significand r = pair64 (sigh r) (sigl r)"
  by (simp add: significand_def pair64_def)

lemma pair64_parts: "ucast (pair64 h l) = l" "ucast (drop_bit 32 (pair64 h l)) = h"
  by (rule bit_word_eqI; auto simp: pair64_def bit_simps)+

lemma significand_set [simp]: "significand (set_significand v r) = v"
proof -
  have "bit (significand (set_significand v r)) n = bit v n" if "n < 64" for n
    using that by (auto simp: significand_def set_significand_def bit_simps not_less)
  then show ?thesis by (intro bit_word_eqI) simp
qed

lemma set_significand_fields [simp]:
  "exp16 (set_significand v r) = exp16 r" "getsign (set_significand v r) = getsign r"
  "exponent (set_significand v r) = exponent r"
  by (simp_all add: set_significand_def getsign_def exponent_def)

lemma sig_fields_irrelevant [simp]:
  "getsign (r\<lparr>sigl := a\<rparr>) = getsign r" "getsign (r\<lparr>sigh := a\<rparr>) = getsign r"
  "exponent (r\<lparr>sigl := a\<rparr>) = exponent r" "exponent (r\<lparr>sigh := a\<rparr>) = exponent r"
  by (simp_all add: getsign_def exponent_def)

lemma odd_significand: "sigl r AND 1 \<noteq> 0 \<longleftrightarrow> odd (unat (significand r))"
proof -
  have "sigl r AND 1 \<noteq> 0 \<longleftrightarrow> bit (sigl r) 0" by (simp add: and_one_eq bit_0 odd_iff_mod_2_eq_one)
  also have "\<dots> \<longleftrightarrow> odd (unat (sigl r))" using bit_unsigned_iff [of "sigl r" 0, where 'a = nat] by (simp add: bit_0)
  finally show ?thesis by (simp add: significand_pair unat_pair64)
qed

lemma very_big_iff: "NOT h OR NOT l = 0 \<longleftrightarrow> unat (pair64 h l) = 2 ^ 64 - 1" for h l :: u32
proof -
  have "NOT h OR NOT l = 0 \<longleftrightarrow> NOT h = 0 \<and> NOT l = 0" by (rule or_eq_0_iff)
  also have "\<dots> \<longleftrightarrow> h = - 1 \<and> l = - 1" by (metis bit.compl_one bit.double_compl)
  also have "\<dots> \<longleftrightarrow> unat h = 2 ^ 32 - 1 \<and> unat l = 2 ^ 32 - 1"
  proof -
    have "(- 1 :: u32) = 0xffffffff" by simp
    then show ?thesis by (simp only: word_unat_eq_iff) simp
  qed
  also have "\<dots> \<longleftrightarrow> unat (pair64 h l) = 2 ^ 64 - 1"
    using unat_lt_32 [of h] unat_lt_32 [of l] by (simp add: unat_pair64) linarith
  finally show ?thesis .
qed

lemma FPU_round_to_int_nat:
  assumes "tag \<noteq> TAG_Zero" "exponent r \<le> 63" and run: "FPU_round_to_int r tag s = (p, r')"
    and v: "v = unat (significand r)" and k: "k = nat (63 - exponent r)"
    and inc: "inc \<longleftrightarrow> round_inc (control_word s AND CW_RC) (getsign r) v k"
  shows "exp16 r' = exp16 r"
    and "if inc \<and> v div 2 ^ k = 2 ^ 64 - 1 then p = 1
         else unat (significand r') = v div 2 ^ k + of_bool inc \<and>
              p = (if inc then PRECISION_LOST_UP else if v mod 2 ^ k \<noteq> 0 then PRECISION_LOST_DOWN else 0)"
proof -
  obtain eax h l where sh: "FPU_shrxs (sigh r, sigl r) k = (eax, h, l)" using prod_cases3 by blast
  note S = FPU_shrxs_correct [OF sh, folded significand_pair, OF v]
  define t where "t = r\<lparr>sigl := l, sigh := h\<rparr>"
  have t: "unat (significand t) = v div 2 ^ k" using S(1) by (simp add: t_def significand_pair)
  have inc': "inc \<longleftrightarrow>
     (let rc = control_word s AND CW_RC in
      if rc = RC_RND then eax AND 0x80000001 = 0x80000001 \<or> (eax AND 0x80000000 \<noteq> 0 \<and> sigl t AND 1 \<noteq> 0)
      else if rc = RC_DOWN then eax \<noteq> 0 \<and> getsign t
      else if rc = RC_UP then eax \<noteq> 0 \<and> \<not> getsign t else False)"
    unfolding inc round_inc_def Let_def odd_significand t S(2-4) by (simp add: t_def)
  have big: "NOT (sigh t) OR NOT (sigl t) = 0 \<longleftrightarrow> v div 2 ^ k = 2 ^ 64 - 1"
    using very_big_iff [of h l] S(1) by (simp add: t_def)
  have "FPU_round_to_int r tag s =
     (if inc then (if v div 2 ^ k = 2 ^ 64 - 1 then (1, t)
                   else (PRECISION_LOST_UP, set_significand (significand t + 1) t))
      else (if eax \<noteq> 0 then PRECISION_LOST_DOWN else 0, t))"
    unfolding big [symmetric] inc' FPU_round_to_int_def k [symmetric] sh Let_def prod.case t_def [symmetric]
    using assms(1, 2) by (simp only: if_False not_le [symmetric]) simp
  note run' = run [symmetric, unfolded this]
  have plus: "unat (significand t + 1) = v div 2 ^ k + 1" if "v div 2 ^ k \<noteq> 2 ^ 64 - 1"
  proof -
    have "v div 2 ^ k < 2 ^ 64 - 1" using that unat_lt_64 [of "significand t"] t by linarith
    then show ?thesis by (simp add: unat_word_ariths t)
  qed
  show "exp16 r' = exp16 r" using run' by (auto simp: t_def split: if_splits)
  show "if inc \<and> v div 2 ^ k = 2 ^ 64 - 1 then p = 1
         else unat (significand r') = v div 2 ^ k + of_bool inc \<and>
              p = (if inc then PRECISION_LOST_UP else if v mod 2 ^ k \<noteq> 0 then PRECISION_LOST_DOWN else 0)"
    using run' plus t S(2) by (auto split: if_splits)
qed

lemma exponent_range: "- 0x3fff \<le> exponent r" "exponent r \<le> 0x4000"
proof -
  have "exp16 r AND 0x7fff \<le> 0x7fff" by (rule word_and_le1)
  then have "uint (exp16 r AND 0x7fff) \<le> 0x7fff" by (simp add: word_le_def)
  then show "- 0x3fff \<le> exponent r" "exponent r \<le> 0x4000"
    by (simp_all add: exponent_def)
qed

lemma signed_simps [simp]:
  "signed True = (- 1 :: 'a::ring_1)" "signed False = (1 :: 'a::ring_1)" "\<bar>signed b :: 'b::linordered_idom\<bar> = 1"
  "of_int (signed b) = (signed b :: 'a)" "signed b * signed b = (1 :: 'a)" "signed b \<noteq> (0 :: 'b)"
  by (cases b; simp add: signed_def)+

text \<open>
  A register with exponent at most 63 is its significand over a power of two; for a denormal the power
  differs by one from the shift count the code uses, which changes neither quotient nor rounding.
\<close>

lemma fval_quotient:
  assumes "exponent r \<le> 63" and v: "v = unat (significand r)" and k: "k = nat (63 - exponent r)"
  obtains k' where "fval r = signed (getsign r) * (real v / 2 ^ k')"
    and "v div 2 ^ k' = v div 2 ^ k" and "v mod 2 ^ k' = 0 \<longleftrightarrow> v mod 2 ^ k = 0"
    and "\<And>rc neg. round_inc rc neg v k' = round_inc rc neg v k"
proof -
  have pw: "(2::real) powi (e - 63) = 1 / 2 ^ nat (63 - e)" if "e \<le> 63" for e :: int
    using that by (auto simp: power_int_def field_simps)
  show thesis
  proof (cases "exponent r = - 0x3fff")
    case False
    then have "max (exponent r) (- 0x3ffe) = exponent r" using exponent_range(1) [of r] by simp
    then have "fval r = signed (getsign r) * (real v / 2 ^ k)"
      using pw [OF assms(1)] by (simp add: fval_def v k)
    then show thesis using that [of k] by simp
  next
    case True
    define K where "K = nat (63 - (- 0x3ffe))"
    have K: "k = Suc K" "65 \<le> K" by (simp_all add: k True K_def)
    have mx: "max (- 0x3fff) (- 0x3ffe) = (- 0x3ffe :: int)" by simp
    have e: "(- 0x3ffe :: int) \<le> 63" by simp
    have "fval r = signed (getsign r) * (real v / 2 ^ K)"
      unfolding fval_def True mx pw [OF e, folded K_def] v by (simp only: mult.assoc times_divide_eq_right mult_1_right)
    moreover have lt: "v < 2 ^ n \<and> \<not> 2 ^ n \<le> 2 * v" if "65 \<le> n" for n
    proof -
      have "2 * v < 2 ^ 65" using unat_lt_64 [of "significand r"] by (simp add: v)
      moreover have "(2::nat) ^ 65 \<le> 2 ^ n" using that by (intro power_increasing) auto
      ultimately show ?thesis by linarith
    qed
    moreover have "round_inc rc neg v K = round_inc rc neg v k" for rc neg
      using lt [of K] lt [of k] K by (simp add: round_inc_def)
    ultimately show thesis using that [of K] lt [of K] lt [of k] K by simp
  qed
qed

lemma round_ref_of_int: "round_ref rc (of_int n) = n"
  by (simp add: round_ref_def round_even_def)

text \<open>The routine rounds correctly in every mode, and reports how the magnitude changed.\<close>

lemma FPU_round_to_int_rounds:
  assumes "tag = TAG_Zero \<Longrightarrow> significand r = 0" and "63 < exponent r \<Longrightarrow> bit (sigh r) 31"
    and run: "FPU_round_to_int r tag s = (p, r')"
  defines "n \<equiv> round_ref (control_word s AND CW_RC) (fval r)"
  shows "exp16 r' = exp16 r \<and>
         (if \<bar>n\<bar> < 2 ^ 64
          then signed (getsign r) * int (unat (significand r')) = n \<and>
               p = (if of_int n = fval r then 0
                    else if \<bar>fval r\<bar> < of_int \<bar>n\<bar> then PRECISION_LOST_UP else PRECISION_LOST_DOWN)
          else p = 1)"
proof -
  consider "tag = TAG_Zero" | "tag \<noteq> TAG_Zero" "63 < exponent r" | "tag \<noteq> TAG_Zero" "exponent r \<le> 63" by force
  then show ?thesis
  proof cases
    case 1
    then have z: "fval r = of_int 0" using assms(1) by (simp add: fval_def)
    then have "n = 0" unfolding n_def by (simp only: round_ref_of_int)
    then show ?thesis using run 1 z by (auto simp: FPU_round_to_int_def)
  next
    case 2
    define v where "v = int (unat (significand r))"
    define e where "e = nat (exponent r - 63)"
    have "fval r = of_int (signed (getsign r) * v * 2 ^ e)"
      using 2(2) by (simp add: fval_def v_def e_def power_int_def)
    then have n: "n = signed (getsign r) * v * 2 ^ e" unfolding n_def by (simp only: round_ref_of_int)
    have "2 ^ 31 \<le> unat (sigh r)" using assms(2) 2(2) bit31_ge by blast
    then have "2 ^ 63 \<le> unat (significand r)" by (simp add: significand_pair unat_pair64)
    then have "int (2 ^ 63) \<le> v" unfolding v_def by (simp only: of_nat_le_iff)
    then have "2 ^ 63 \<le> v" by simp
    moreover have "(2::int) ^ 1 \<le> 2 ^ e" using 2(2) by (intro power_increasing) (auto simp: e_def)
    ultimately have "2 ^ 63 * 2 \<le> v * 2 ^ e" by (intro mult_mono) auto
    moreover have "0 \<le> v" by (simp add: v_def)
    ultimately have "\<not> \<bar>n\<bar> < 2 ^ 64" by (simp add: n abs_mult)
    then show ?thesis using run 2 by (auto simp: FPU_round_to_int_def)
  next
    case 3
    define v where "v = unat (significand r)"
    define k where "k = nat (63 - exponent r)"
    define inc where "inc = round_inc (control_word s AND CW_RC) (getsign r) v k"
    obtain k' where x: "fval r = signed (getsign r) * (real v / 2 ^ k')"
      and q: "v div 2 ^ k' = v div 2 ^ k" "v mod 2 ^ k' = 0 \<longleftrightarrow> v mod 2 ^ k = 0"
      and i: "\<And>rc neg. round_inc rc neg v k' = round_inc rc neg v k"
      using fval_quotient [OF 3(2) v_def k_def] by metis
    have n: "n = signed (getsign r) * int (v div 2 ^ k + of_bool inc)"
      unfolding n_def x round_ref_nat q(1) i inc_def ..
    have R: "exp16 r' = exp16 r" "if inc \<and> v div 2 ^ k = 2 ^ 64 - 1 then p = 1
         else unat (significand r') = v div 2 ^ k + of_bool inc \<and>
              p = (if inc then PRECISION_LOST_UP else if v mod 2 ^ k \<noteq> 0 then PRECISION_LOST_DOWN else 0)"
      using FPU_round_to_int_nat [OF 3 run v_def k_def inc_def] by blast+
    have nb: "\<bar>n\<bar> = int (v div 2 ^ k + of_bool inc)" by (simp only: n abs_mult signed_simps) simp
    have "v div 2 ^ k < 2 ^ 64" using unat_lt_64 [of "significand r"] by (simp add: v_def le_less_trans [OF div_le_dividend])
    then have fits: "\<bar>n\<bar> < 2 ^ 64 \<longleftrightarrow> \<not> (inc \<and> v div 2 ^ k = 2 ^ 64 - 1)" unfolding nb by (cases inc) auto
    define f where "f = real (v mod 2 ^ k') / 2 ^ k'"
    have x': "\<bar>fval r\<bar> = real (v div 2 ^ k) + f"
      unfolding x f_def nat_quotient_parts [of v k'] q(1) by (simp add: abs_mult)
    have f: "0 \<le> f" "f < 1" "f = 0 \<longleftrightarrow> v mod 2 ^ k = 0"
      unfolding f_def q(2) [symmetric] by (rule frac_parts)+
    have inc0: "inc \<Longrightarrow> v mod 2 ^ k \<noteq> 0" unfolding inc_def using round_inc_exact by blast
    have up: "\<bar>fval r\<bar> < of_int \<bar>n\<bar> \<longleftrightarrow> inc" unfolding x' nb using f by simp
    have sg: "fval r = signed (getsign r) * \<bar>fval r\<bar>" "of_int n = signed (getsign r) * of_int \<bar>n\<bar>"
      unfolding nb n by (simp_all add: x abs_mult)
    have "of_int n = fval r \<longleftrightarrow> of_int \<bar>n\<bar> = \<bar>fval r\<bar>"
      by (subst sg, subst (1) sg) simp
    also have "\<dots> \<longleftrightarrow> v mod 2 ^ k = 0" unfolding x' nb using f inc0 by (cases inc) auto
    finally show ?thesis using R n up fits inc0 by (auto split: if_splits)
  qed
qed

end
