(* ===== verification/Fpu_Compare.thy ===== *)
theory Fpu_Compare
  imports Fpu_Round
begin

text \<open>
  Comparison of floating-point registers (\<^verbatim>\<open>arch/x86/math-emu/reg_compare.c\<close>): \<^verbatim>\<open>compare\<close> on tagged
  operands, the condition codes it is turned into, and the instructions \<^verbatim>\<open>fcom\<close>, \<^verbatim>\<open>fcomp\<close>, \<^verbatim>\<open>fcompp\<close>,
  \<^verbatim>\<open>fucom\<close>, \<^verbatim>\<open>fucomp\<close> and \<^verbatim>\<open>fucompp\<close>. The lemmas show that the result is the order of the extended real
  numbers the operands denote.
\<close>

section \<open>The code\<close>

abbreviation (input) COMP_A_gt_B :: u32 where "COMP_A_gt_B \<equiv> 1"
abbreviation (input) COMP_A_eq_B :: u32 where "COMP_A_eq_B \<equiv> 2"
abbreviation (input) COMP_A_lt_B :: u32 where "COMP_A_lt_B \<equiv> 3"
abbreviation (input) COMP_No_Comp :: u32 where "COMP_No_Comp \<equiv> 4"
abbreviation (input) COMP_Denormal :: u32 where "COMP_Denormal \<equiv> 0x20"
abbreviation (input) COMP_NaN :: u32 where "COMP_NaN \<equiv> 0x40"
abbreviation (input) COMP_SNaN :: u32 where "COMP_SNaN \<equiv> 0x80"

definition gt_if :: "bool \<Rightarrow> u32" where
  "gt_if b = (if b then COMP_A_gt_B else COMP_A_lt_B)"

definition denormal_flag :: "u32 \<Rightarrow> u32 \<Rightarrow> u32" where
  "denormal_flag taga tagb = (if taga = TW_Denormal \<or> tagb = TW_Denormal then COMP_Denormal else 0)"

definition signalling_NaN :: "fpu_reg \<Rightarrow> bool" where
  "signalling_NaN r \<longleftrightarrow> sigh r AND 0xc0000000 = 0x80000000"

text \<open>The cases with a zero, an infinity or a NaN; \<open>None\<close> is the fall through to the end of the block.\<close>

definition compare_special :: "fpu_reg \<Rightarrow> u32 \<Rightarrow> fpu_reg \<Rightarrow> u32 \<Rightarrow> u32 option" where
  "compare_special a taga b tagb =
     (if taga = TAG_Zero \<and> tagb = TAG_Zero then Some COMP_A_eq_B
      else if taga = TAG_Zero \<and> tagb = TAG_Valid then Some (gt_if (getsign b))
      else if taga = TAG_Zero \<and> tagb = TW_Denormal then Some (gt_if (getsign b) OR COMP_Denormal)
      else if taga \<noteq> TAG_Zero \<and> tagb = TAG_Zero \<and> taga = TAG_Valid then Some (gt_if (\<not> getsign a))
      else if taga \<noteq> TAG_Zero \<and> tagb = TAG_Zero \<and> taga = TW_Denormal then Some (gt_if (\<not> getsign a) OR COMP_Denormal)
      else if taga = TW_Infinity \<and> (tagb = TAG_Valid \<or> tagb = TAG_Zero) then Some (gt_if (\<not> getsign a))
      else if taga = TW_Infinity \<and> tagb = TW_Denormal then Some (gt_if (\<not> getsign a) OR COMP_Denormal)
      else if taga = TW_Infinity \<and> tagb = TW_Infinity then
        Some (if getsign a = getsign b then COMP_A_eq_B else gt_if (\<not> getsign a))
      else if taga \<noteq> TW_Infinity \<and> tagb = TW_Infinity \<and> (taga = TAG_Valid \<or> taga = TAG_Zero) then
        Some (gt_if (getsign b))
      else if taga \<noteq> TW_Infinity \<and> tagb = TW_Infinity \<and> taga = TW_Denormal then
        Some (gt_if (getsign b) OR COMP_Denormal)
      else if taga = TW_NaN \<or> tagb = TW_NaN then
        (let signalling = (taga = TW_NaN \<and> signalling_NaN a \<or> tagb = TW_NaN \<and> signalling_NaN b);
             unsupported = (unsupported_NaN a taga \<or> unsupported_NaN b tagb) in
         Some (if signalling \<or> unsupported then COMP_No_Comp OR COMP_SNaN OR COMP_NaN
               else COMP_No_Comp OR COMP_NaN))
      else None)"

text \<open>Magnitudes by exponent, then by the significand's halves: the sign of \<^verbatim>\<open>diff\<close>.\<close>

definition compare_diff :: "fpu_reg \<Rightarrow> int \<Rightarrow> fpu_reg \<Rightarrow> int \<Rightarrow> int" where
  "compare_diff a exp0 b expb =
     (if exp0 - expb \<noteq> 0 then exp0 - expb
      else if sint (sigh a - sigh b) \<noteq> 0 then sint (sigh a - sigh b)
      else if sigl a > sigl b then 1
      else if sigl a < sigl b then - 1 else 0)"

definition compare_finite :: "fpu_reg \<Rightarrow> u32 \<Rightarrow> fpu_reg \<Rightarrow> u32 \<Rightarrow> fpu \<Rightarrow> u32 \<times> fpu" where
  "compare_finite a taga b tagb s =
     (if getsign a \<noteq> getsign b then (gt_if (\<not> getsign a) OR denormal_flag taga tagb, s)
      else
        (let st0_sign = getsign a;
             (x, exp0, y, expb, s) =
               (if taga = TW_Denormal \<or> tagb = TW_Denormal then
                  (let (_, x, s) = FPU_to_exp16 a s; (_, y, s) = FPU_to_exp16 b s in
                   (x, exponent16 x, y, exponent16 y, s))
                else (a, exponent a, b, exponent b, s));
             s = (if sigh x AND 0x80000000 = 0 then FPU_exception EX_Invalid s else s);
             s = (if sigh y AND 0x80000000 = 0 then FPU_exception EX_Invalid s else s);
             diff = compare_diff x exp0 y expb in
         if diff > 0 then (gt_if (\<not> st0_sign) OR denormal_flag taga tagb, s)
         else if diff < 0 then (gt_if st0_sign OR denormal_flag taga tagb, s)
         else (COMP_A_eq_B OR denormal_flag taga tagb, s)))"

definition compare :: "fpu_reg \<Rightarrow> u32 \<Rightarrow> fpu \<Rightarrow> u32 \<times> fpu" where
  "compare b tagb s =
     (let a = st s 0;
          tagb = special_tag b tagb;
          taga = special_tag a (FPU_gettag0 s) in
      if (taga \<noteq> TAG_Valid \<and> taga \<noteq> TW_Denormal) \<or> (tagb \<noteq> TAG_Valid \<and> tagb \<noteq> TW_Denormal) then
        (case compare_special a taga b tagb of
           Some c \<Rightarrow> (c, s)
         | None \<Rightarrow> compare_finite a taga b tagb (FPU_exception EX_Invalid s))
      else compare_finite a taga b tagb s)"

definition comp_cc :: "u32 \<Rightarrow> u32 \<Rightarrow> fpu \<Rightarrow> u32 \<times> fpu" where
  "comp_cc internal c s =
     (if c AND 7 = COMP_A_lt_B then (SW_C0, s)
      else if c AND 7 = COMP_A_eq_B then (SW_C3, s)
      else if c AND 7 = COMP_A_gt_B then (0, s)
      else if c AND 7 = COMP_No_Comp then (SW_C3 OR SW_C2 OR SW_C0, s)
      else (SW_C3 OR SW_C2 OR SW_C0, FPU_exception (EX_INTERNAL OR internal) s))"

definition finish_compare :: "u32 \<Rightarrow> u32 \<Rightarrow> fpu \<Rightarrow> bool \<times> fpu" where
  "finish_compare f c s =
     (let s = setcc f s in
      if c AND COMP_Denormal \<noteq> 0 then (let (r, s) = denormal_operand s in (r AND FPU_Exception \<noteq> 0, s))
      else (False, s))"

definition FPU_compare_st_data :: "fpu_reg \<Rightarrow> u32 \<Rightarrow> fpu \<Rightarrow> bool \<times> fpu" where
  "FPU_compare_st_data loaded_data loaded_tag s =
     (let (c, s) = compare loaded_data loaded_tag s;
          (f, s) = (if c AND COMP_NaN \<noteq> 0 then (SW_C3 OR SW_C2 OR SW_C0, FPU_exception EX_Invalid s)
                    else comp_cc 0x121 c s) in
      finish_compare f c s)"

definition compare_st_st :: "regnr \<Rightarrow> fpu \<Rightarrow> bool \<times> fpu" where
  "compare_st_st nr s =
     (if FPU_empty_i s 0 \<or> FPU_empty_i s nr then
        (let s = FPU_exception EX_StackUnder (setcc (SW_C3 OR SW_C2 OR SW_C0) s) in (\<not> masked CW_Invalid s, s))
      else
        (let (c, s) = compare (st s nr) (FPU_gettagi s nr) s in
         if c AND COMP_NaN \<noteq> 0 then
           (let s = FPU_exception EX_Invalid (setcc (SW_C3 OR SW_C2 OR SW_C0) s) in (\<not> masked CW_Invalid s, s))
         else (let (f, s) = comp_cc 0x122 c s in finish_compare f c s)))"

definition compare_u_st_st :: "regnr \<Rightarrow> fpu \<Rightarrow> bool \<times> fpu" where
  "compare_u_st_st nr s =
     (if FPU_empty_i s 0 \<or> FPU_empty_i s nr then
        (let s = FPU_exception EX_StackUnder (setcc (SW_C3 OR SW_C2 OR SW_C0) s) in (\<not> masked CW_Invalid s, s))
      else
        (let (c, s) = compare (st s nr) (FPU_gettagi s nr) s in
         if c AND COMP_NaN \<noteq> 0 then
           (let s = setcc (SW_C3 OR SW_C2 OR SW_C0) s in
            if c AND COMP_SNaN \<noteq> 0 then
              (let s = FPU_exception EX_Invalid s in (\<not> masked CW_Invalid s, s))
            else (False, s))
         else (let (f, s) = comp_cc 0x123 c s in finish_compare f c s)))"

definition fcom_st :: "fpu \<Rightarrow> fpu" where
  "fcom_st s = snd (compare_st_st (rm_reg s) s)"

definition fcompst :: "fpu \<Rightarrow> fpu" where
  "fcompst s = (let (r, s) = compare_st_st (rm_reg s) s in if \<not> r then FPU_pop s else s)"

definition fcompp :: "fpu \<Rightarrow> unit fres" where
  "fcompp s =
     (if fpu_rm s \<noteq> 1 then FPU_illegal s
      else (let (r, s) = compare_st_st 1 s in Ret () (if \<not> r then FPU_pop (FPU_pop s) else s)))"

definition fucom :: "fpu \<Rightarrow> fpu" where
  "fucom s = snd (compare_u_st_st (rm_reg s) s)"

definition fucomp :: "fpu \<Rightarrow> fpu" where
  "fucomp s = (let (r, s) = compare_u_st_st (rm_reg s) s in if \<not> r then FPU_pop s else s)"

definition fucompp :: "fpu \<Rightarrow> unit fres" where
  "fucompp s =
     (if fpu_rm s = 1 then
        (let (r, s) = compare_u_st_st 1 s in Ret () (if \<not> r then FPU_pop (FPU_pop s) else s))
      else FPU_illegal s)"

section \<open>The order of the numbers denoted\<close>

datatype fnum = Num real | Infinite bool | Not_a_number

definition fnum_of :: "fpu_reg \<Rightarrow> fnum" where
  "fnum_of r =
     (if exponent r = EXP_OVER then
        (if sigh r = 0x80000000 \<and> sigl r = 0 then Infinite (getsign r) else Not_a_number)
      else if exponent r \<noteq> EXP_UNDER \<and> \<not> bit (sigh r) 31 then Not_a_number
      else Num (fval r))"

datatype forder = Less | Equal | Greater | Unordered

fun fnum_cmp :: "fnum \<Rightarrow> fnum \<Rightarrow> forder" where
  "fnum_cmp Not_a_number y = Unordered"
| "fnum_cmp x Not_a_number = Unordered"
| "fnum_cmp (Num x) (Num y) = (if x < y then Less else if x = y then Equal else Greater)"
| "fnum_cmp (Num x) (Infinite neg) = (if neg then Greater else Less)"
| "fnum_cmp (Infinite neg) (Num y) = (if neg then Less else Greater)"
| "fnum_cmp (Infinite neg) (Infinite neg') = (if neg = neg' then Equal else if neg then Less else Greater)"

fun forder_code :: "forder \<Rightarrow> u32" where
  "forder_code Less = COMP_A_lt_B"
| "forder_code Equal = COMP_A_eq_B"
| "forder_code Greater = COMP_A_gt_B"
| "forder_code Unordered = COMP_No_Comp"

text \<open>The magnitude of a register, and of a significand with an explicit exponent.\<close>

definition sigval :: "fpu_reg \<Rightarrow> nat" where
  "sigval r = unat (significand r)"

definition sig_mag :: "fpu_reg \<Rightarrow> int \<Rightarrow> real" where
  "sig_mag r e = real (sigval r) * 2 powi (e - 63)"

lemma sigval_pair: "sigval r = unat (sigh r) * 2 ^ 32 + unat (sigl r)"
  by (simp add: sigval_def significand_pair unat_pair64)

lemma fval_sig_mag: "fval r = signed (getsign r) * sig_mag r (max (exponent r) (- 0x3ffe))"
  by (simp add: fval_def sig_mag_def sigval_def)

lemma sig_bounds: "bit (sigh r) 31 \<Longrightarrow> 2 ^ 63 \<le> sigval r \<and> sigval r < 2 ^ 64"
  using unat_lt_32 [of "sigh r"] unat_lt_32 [of "sigl r"] by (simp add: bit31_ge sigval_pair)

lemma sigh_diff:
  assumes "bit (h :: u32) 31" "bit h' 31" and u: "u = unat h" "u' = unat h'"
  shows "sint (h - h') = int u - int u'"
proof (rule sint_32_eqI)
  show "h - h' = word_of_int (int u - int u')" by (simp add: u)
  have "2 ^ 31 \<le> u" "2 ^ 31 \<le> u'" "u < 2 ^ 32" "u' < 2 ^ 32"
    using assms(1, 2) unat_lt_32 [of h] unat_lt_32 [of h'] by (simp_all only: bit31_ge u)
  then show "- (2 ^ 31) \<le> int u - int u'" "int u - int u' < 2 ^ 31" by simp_all
qed

lemma sig_mag_exponent:
  assumes "bit (sigh a) 31" "bit (sigh b) 31" "ea < eb"
  shows "sig_mag a ea < sig_mag b eb"
proof -
  have A: "real (sigval a) < 2 ^ 64" and B: "2 ^ 63 \<le> real (sigval b)"
    using sig_bounds [OF assms(1)] sig_bounds [OF assms(2)] by simp_all
  have "sig_mag a ea < 2 ^ 64 * 2 powi (ea - 63)" using A by (simp add: sig_mag_def)
  also have "\<dots> = 2 ^ 63 * 2 powi (ea + 1 - 63)" by (simp add: power_int_diff power_int_add)
  also have "\<dots> \<le> 2 ^ 63 * 2 powi (eb - 63)" using assms(3) by (intro mult_left_mono power_int_increasing) auto
  also have "\<dots> \<le> sig_mag b eb" using B by (simp add: sig_mag_def)
  finally show ?thesis .
qed

lemma compare_diff_correct:
  assumes "bit (sigh a) 31" "bit (sigh b) 31"
  shows "0 < compare_diff a ea b eb \<longleftrightarrow> sig_mag b eb < sig_mag a ea"
    and "compare_diff a ea b eb < 0 \<longleftrightarrow> sig_mag a ea < sig_mag b eb"
proof -
  have "(0 < compare_diff a ea b eb \<longleftrightarrow> sig_mag b eb < sig_mag a ea) \<and>
        (compare_diff a ea b eb < 0 \<longleftrightarrow> sig_mag a ea < sig_mag b eb)"
  proof (cases "ea = eb")
    case False
    then consider "ea < eb" | "eb < ea" by linarith
    then show ?thesis
    proof cases
      case 1
      then show ?thesis using sig_mag_exponent [OF assms 1] by (auto simp: compare_diff_def)
    next
      case 2
      then show ?thesis using sig_mag_exponent [OF assms(2, 1) 2] by (auto simp: compare_diff_def)
    qed
  next
    case True
    have p: "(0::real) < 2 powi (eb - 63)" by simp
    have m: "sig_mag x eb < sig_mag y eb \<longleftrightarrow> sigval x < sigval y" for x y
      unfolding sig_mag_def mult_less_cancel_right_pos [OF p] by simp
    define ha la hb lb where "ha = unat (sigh a)" and "la = unat (sigl a)" and "hb = unat (sigh b)" and "lb = unat (sigl b)"
    have l: "la < 2 ^ 32" "lb < 2 ^ 32" by (simp_all only: la_def lb_def unat_lt_32)
    show ?thesis
      unfolding True m compare_diff_def sigh_diff [OF assms ha_def hb_def] sigval_pair word_less_nat_alt
        ha_def [symmetric] la_def [symmetric] hb_def [symmetric] lb_def [symmetric]
      using l by auto
  qed
  then show "0 < compare_diff a ea b eb \<longleftrightarrow> sig_mag b eb < sig_mag a ea"
    and "compare_diff a ea b eb < 0 \<longleftrightarrow> sig_mag a ea < sig_mag b eb" by blast+
qed

section \<open>Operand classes\<close>

definition finite_operand :: "fpu_reg \<Rightarrow> u32 \<Rightarrow> bool" where
  "finite_operand r tag \<longleftrightarrow>
     tag = TAG_Valid \<and> exponent r \<noteq> EXP_UNDER \<and> exponent r \<noteq> EXP_OVER \<and> bit (sigh r) 31 \<or>
     tag = TW_Denormal \<and> exponent r = EXP_UNDER \<and> sigval r \<noteq> 0"

lemma exponent_eq_iff:
  "exponent r = EXP_UNDER \<longleftrightarrow> exp16 r AND 0x7fff = 0" "exponent r = EXP_OVER \<longleftrightarrow> exp16 r AND 0x7fff = 0x7fff"
  by (simp_all add: exponent_def word_eq_iff_unsigned [where ?'a = int])

lemma sig_zero_iff: "sigh r OR sigl r = 0 \<longleftrightarrow> sigval r = 0"
  by (simp add: sigval_pair or_eq_0_iff unat_eq_zero)

lemma operand_cases:
  assumes "tag = special_tag r (FPU_tagof r)"
  obtains (finite) "finite_operand r tag" "fnum_of r = Num (fval r)"
  | (zero) "tag = TAG_Zero" "fnum_of r = Num 0"
  | (inf) "tag = TW_Infinity" "fnum_of r = Infinite (getsign r)"
  | (nan) "tag = TW_NaN" "fnum_of r = Not_a_number"
proof -
  have msb: "sigh r AND 0x80000000 = 0 \<longleftrightarrow> \<not> bit (sigh r) 31" using and_bit31 [of "sigh r"] by blast
  have t: "tag = (if exponent r = EXP_UNDER then (if sigval r = 0 then TAG_Zero else TW_Denormal)
                  else if exponent r = EXP_OVER then (if sigh r = 0x80000000 \<and> sigl r = 0 then TW_Infinity else TW_NaN)
                  else if bit (sigh r) 31 then TAG_Valid else TW_NaN)"
    unfolding assms special_tag_def FPU_tagof_def FPU_Special_def Let_def sig_zero_iff msb exponent_eq_iff by auto
  have z: "sigval r = 0 \<Longrightarrow> fval r = 0" by (simp add: fval_sig_mag sig_mag_def)
  show thesis
    using that t z by (auto simp: finite_operand_def fnum_of_def split: if_splits)
qed

lemma exponent_updates_sig [simp]:
  "sigh (setexponent16 e r) = sigh r" "sigl (setexponent16 e r) = sigl r"
  "sigh (addexponent e r) = sigh r" "sigl (addexponent e r) = sigl r"
  by (simp_all add: setexponent16_def addexponent_def)

lemma exponent16_set:
  "- (2 ^ 15) \<le> e \<Longrightarrow> e < 2 ^ 15 \<Longrightarrow> exponent16 (setexponent16 e r) = e"
  by (simp only: exponent16_def setexponent16_def fpu_reg.simps) (rule sint_16_eqI; simp)

lemma exponent16_update:
  "exp16 r = word_of_int e \<Longrightarrow> - (2 ^ 15) \<le> e \<Longrightarrow> e < 2 ^ 15 \<Longrightarrow> exponent16 r = e"
  by (simp only: exponent16_def) (rule sint_16_eqI; simp)

lemma pow_shift: "2 ^ n * 2 powi (e - int n - 63) = (2 powi (e - 63) :: real)"
proof -
  have "(2::real) ^ n * 2 powi (e - int n - 63) = 2 powi (int n + (e - int n - 63))"
    by (subst power_int_add) simp_all
  then show ?thesis by simp
qed

lemma sig_mag_cong: "sigh x = sigh y \<Longrightarrow> sigl x = sigl y \<Longrightarrow> sig_mag x e = sig_mag y e"
  by (simp add: sig_mag_def sigval_pair)

lemma sig_mag_shift: "sigval x = sigval y * 2 ^ n \<Longrightarrow> sig_mag x (e - int n) = sig_mag y e"
  unfolding sig_mag_def by (simp only: of_nat_mult of_nat_power of_nat_numeral mult.assoc pow_shift)

lemma FPU_to_exp16_correct:
  assumes "finite_operand a tag" and run: "FPU_to_exp16 a s = (sg, x, s')"
  shows "s' = s \<and> bit (sigh x) 31 \<and> sig_mag x (exponent16 x) = sig_mag a (max (exponent a) (- 0x3ffe))"
proof -
  let ?x = "setexponent16 (exponent a) a"
  have e16: "exponent16 ?x = exponent a" using exponent_range [of a] by (intro exponent16_set) auto
  have msb: "sigh y AND 0x80000000 = 0 \<longleftrightarrow> \<not> bit (sigh y) 31" for y using and_bit31 [of "sigh y"] by blast
  show ?thesis
  proof (cases "exponent a = EXP_UNDER")
    case False
    then have "bit (sigh a) 31" using assms(1) by (auto simp: finite_operand_def)
    then have "x = ?x" "s' = s" using run False e16 msb [of ?x] by (auto simp: FPU_to_exp16_def Let_def)
    moreover have "max (exponent a) (- 0x3ffe) = exponent a" using False exponent_range(1) [of a] by simp
    moreover have "sig_mag ?x e = sig_mag a e" for e by (rule sig_mag_cong) simp_all
    ultimately show ?thesis using \<open>bit (sigh a) 31\<close> e16 by simp
  next
    case True
    let ?y = "addexponent 1 ?x"
    have y: "sigh ?y = sigh a" "sigl ?y = sigl a" by simp_all
    have ey: "exp16 ?y = word_of_int (- 0x3ffe)" by (simp add: addexponent_def setexponent16_def True)
    have "unat (pair64 (sigh ?y) (sigl ?y)) \<noteq> 0"
      using assms(1) True unfolding y unat_pair64 sigval_pair [symmetric] by (simp add: finite_operand_def)
    then have nz: "pair64 (sigh ?y) (sigl ?y) \<noteq> 0" by (auto simp only: unat_0)
    obtain tg z where nrm: "FPU_normalize_nuo ?y = (tg, z)" by force
    from FPU_normalize_nuo_correct [OF nz this] obtain n where
      z: "bit (sigh z) 31" "n \<le> 63" "unat (pair64 (sigh z) (sigl z)) = unat (pair64 (sigh ?y) (sigl ?y)) * 2 ^ n"
        "exp16 z = exp16 ?y - of_nat n" by auto
    have X: "x = (if bit (sigh a) 31 then ?y else z)" "s' = s"
      using run True e16 nrm msb [of a] msb [of z] z(1)
      by (auto simp: FPU_to_exp16_def Let_def split: if_splits)
    have m: "max (exponent a) (- 0x3ffe) = - 0x3ffe" by (simp add: True)
    show ?thesis
    proof (cases "bit (sigh a) 31")
      case True
      have "exponent16 ?y = - 0x3ffe" using ey by (rule exponent16_update) simp_all
      moreover have "sig_mag ?y e = sig_mag a e" for e by (rule sig_mag_cong) (fact y)+
      ultimately show ?thesis using X True y m by simp
    next
      case False
      have "exp16 z = word_of_int (- 0x3ffe - int n)" unfolding z(4) ey by simp
      then have e: "exponent16 z = - 0x3ffe - int n" by (rule exponent16_update) (use z(2) in simp_all)
      have v: "sigval z = sigval a * 2 ^ n" using z(3) by (simp only: sigval_pair unat_pair64 y)
      have "sig_mag z (exponent16 z) = sig_mag a (- 0x3ffe)" unfolding e using v by (rule sig_mag_shift)
      then show ?thesis using X False z(1) m by simp
    qed
  qed
qed

lemma sig_mag_pos: "sigval r \<noteq> 0 \<Longrightarrow> 0 < sig_mag r e"
  by (simp add: sig_mag_def)

lemma finite_operand_pos: "finite_operand r tag \<Longrightarrow> 0 < sig_mag r e"
  using sig_bounds [of r] by (intro sig_mag_pos) (auto simp: finite_operand_def)

lemma finite_operand_normal:
  "finite_operand r tag \<Longrightarrow> tag \<noteq> TW_Denormal \<Longrightarrow> bit (sigh r) 31 \<and> max (exponent r) (- 0x3ffe) = exponent r"
  using exponent_range(1) [of r] by (auto simp: finite_operand_def)

lemma finite_tags: "finite_operand r tag \<Longrightarrow> tag = TAG_Valid \<or> tag = TW_Denormal"
  by (auto simp: finite_operand_def)

lemma compare_magnitudes:
  fixes x y :: real
  assumes "c = forder_code (fnum_cmp (Num (signed neg * x)) (Num (signed neg * y)))"
  shows "x > y \<Longrightarrow> c = gt_if (\<not> neg)" "x < y \<Longrightarrow> c = gt_if neg" "x = y \<Longrightarrow> c = COMP_A_eq_B"
  using assms by (cases neg; simp add: gt_if_def)+

lemma compare_finite_correct:
  assumes fa: "finite_operand a taga" and fb: "finite_operand b tagb"
  shows "compare_finite a taga b tagb s =
           (forder_code (fnum_cmp (Num (fval a)) (Num (fval b))) OR denormal_flag taga tagb, s)"
proof (cases "getsign a = getsign b")
  case False
  note pos = finite_operand_pos [OF fa] finite_operand_pos [OF fb]
  have "fnum_cmp (Num (fval a)) (Num (fval b)) = (if getsign a then Less else Greater)"
    using False pos [of "max (exponent a) (- 0x3ffe)"] pos(2) [of "max (exponent b) (- 0x3ffe)"]
    by (cases "getsign a"; cases "getsign b") (auto simp: fval_sig_mag)
  with False show ?thesis by (auto simp: compare_finite_def gt_if_def)
next
  case True
  have msb: "bit (sigh y) 31 \<Longrightarrow> \<not> sigh y AND 0x80000000 = 0" for y using and_bit31 [of "sigh y"] by blast
  obtain x y ea eb where xy: "bit (sigh x) 31" "bit (sigh y) 31"
      "sig_mag x ea = sig_mag a (max (exponent a) (- 0x3ffe))" "sig_mag y eb = sig_mag b (max (exponent b) (- 0x3ffe))"
    and sel: "(if taga = TW_Denormal \<or> tagb = TW_Denormal then
                 (let (_, x, s) = FPU_to_exp16 a s; (_, y, s) = FPU_to_exp16 b s in (x, exponent16 x, y, exponent16 y, s))
               else (a, exponent a, b, exponent b, s)) = (x, ea, y, eb, s)"
  proof (cases "taga = TW_Denormal \<or> tagb = TW_Denormal")
    case True
    obtain sg x s1 where x: "FPU_to_exp16 a s = (sg, x, s1)" using prod_cases3 by blast
    obtain sg' y s2 where y: "FPU_to_exp16 b s1 = (sg', y, s2)" using prod_cases3 by blast
    show thesis
      using that [of x y "exponent16 x" "exponent16 y"] True x y FPU_to_exp16_correct [OF fa x] FPU_to_exp16_correct [OF fb y]
      by auto
  next
    case False
    then show thesis using that [of a b "exponent a" "exponent b"] finite_operand_normal [OF fa] finite_operand_normal [OF fb]
      by auto
  qed
  define c where "c = forder_code (fnum_cmp (Num (fval a)) (Num (fval b)))"
  have c: "c = forder_code (fnum_cmp (Num (signed (getsign a) * sig_mag x ea)) (Num (signed (getsign a) * sig_mag y eb)))"
    by (simp add: c_def fval_sig_mag xy(3, 4) True)
  note D = compare_diff_correct [OF xy(1, 2), of ea eb]
  have run: "compare_finite a taga b tagb s =
     (if 0 < compare_diff x ea y eb then (gt_if (\<not> getsign a) OR denormal_flag taga tagb, s)
      else if compare_diff x ea y eb < 0 then (gt_if (getsign a) OR denormal_flag taga tagb, s)
      else (COMP_A_eq_B OR denormal_flag taga tagb, s))"
    unfolding compare_finite_def unfolding sel unfolding Let_def prod.case using True msb [OF xy(1)] msb [OF xy(2)] by (simp only: if_False simp_thms)
  consider "sig_mag y eb < sig_mag x ea" | "sig_mag x ea < sig_mag y eb" | "sig_mag x ea = sig_mag y eb" by linarith
  then show ?thesis
    unfolding run c_def [symmetric] D by cases (simp_all add: compare_magnitudes [OF c])
qed

lemma gt_if_simps [simp]:
  "gt_if True = COMP_A_gt_B" "gt_if False = COMP_A_lt_B"
  by (simp_all add: gt_if_def)

lemma forder_code_zero:
  assumes "finite_operand r tag"
  shows "forder_code (fnum_cmp (Num 0) (Num (fval r))) = gt_if (getsign r)"
    and "forder_code (fnum_cmp (Num (fval r)) (Num 0)) = gt_if (\<not> getsign r)"
  using finite_operand_pos [OF assms, of "max (exponent r) (- 0x3ffe)"]
  by (cases "getsign r"; simp add: fval_sig_mag)+

text \<open>Whether an unordered comparison signals.\<close>

definition nan_flags :: "fpu_reg \<Rightarrow> fpu_reg \<Rightarrow> u32" where
  "nan_flags a b =
     (if (fnum_of a = Not_a_number \<and> (signalling_NaN a \<or> \<not> (exponent a = EXP_OVER \<and> bit (sigh a) 31))) \<or>
         (fnum_of b = Not_a_number \<and> (signalling_NaN b \<or> \<not> (exponent b = EXP_OVER \<and> bit (sigh b) 31)))
      then COMP_SNaN OR COMP_NaN else COMP_NaN)"

lemma compare_operands:
  assumes ta: "ta = special_tag a (FPU_tagof a)" and tb: "tb = special_tag b (FPU_tagof b)"
  shows "(if (ta \<noteq> TAG_Valid \<and> ta \<noteq> TW_Denormal) \<or> (tb \<noteq> TAG_Valid \<and> tb \<noteq> TW_Denormal) then
            (case compare_special a ta b tb of Some c \<Rightarrow> (c, s)
             | None \<Rightarrow> compare_finite a ta b tb (FPU_exception EX_Invalid s))
          else compare_finite a ta b tb s) =
         (let ord = fnum_cmp (fnum_of a) (fnum_of b) in
          (forder_code ord OR (if ord = Unordered then nan_flags a b else denormal_flag ta tb), s))"
proof -
  have msb: "sigh y AND 0x80000000 \<noteq> 0 \<longleftrightarrow> bit (sigh y) 31" for y by (rule and_bit31)
  note evals = compare_special_def denormal_flag_def nan_flags_def unsupported_NaN_def msb Let_def
  show ?thesis using ta
  proof (cases rule: operand_cases)
    case fa: finite
    show ?thesis using tb
    proof (cases rule: operand_cases)
      case fb: finite
      then show ?thesis using fa compare_finite_correct [OF fa(1) fb(1), of s] finite_tags [OF fa(1)] finite_tags [OF fb(1)]
        by (elim disjE) (simp_all add: Let_def)
    next
      case zero
      then show ?thesis using fa forder_code_zero(2) [OF fa(1)] finite_tags [OF fa(1)]
        by (elim disjE) (simp_all add: evals)
    next
      case inf
      then show ?thesis using fa finite_tags [OF fa(1)] by (elim disjE) (simp_all add: evals)
    next
      case nan
      then show ?thesis using fa finite_tags [OF fa(1)] by (elim disjE) (simp_all add: evals)
    qed
  next
    case za: zero
    show ?thesis using tb
    proof (cases rule: operand_cases)
      case fb: finite
      then show ?thesis using za forder_code_zero(1) [OF fb(1)] finite_tags [OF fb(1)]
        by (elim disjE) (simp_all add: evals)
    qed (use za in \<open>simp_all add: evals\<close>)
  next
    case ia: inf
    show ?thesis using tb
    proof (cases rule: operand_cases)
      case fb: finite
      then show ?thesis using ia finite_tags [OF fb(1)] by (elim disjE) (simp_all add: evals)
    qed (use ia in \<open>simp_all add: evals\<close>)
  next
    case na: nan
    show ?thesis using tb
    proof (cases rule: operand_cases)
      case fb: finite
      then show ?thesis using na finite_tags [OF fb(1)] by (elim disjE) (simp_all add: evals)
    qed (use na in \<open>simp_all add: evals\<close>)
  qed
qed

text \<open>
  \<^verbatim>\<open>compare\<close> returns the code of the order of the two numbers, with the denormal flag if an operand of an
  ordered comparison is denormal and the NaN flags if it is unordered, and leaves the state alone.
\<close>

lemma compare_order:
  assumes "FPU_gettag0 s = FPU_tagof (st s 0)"
  defines "a \<equiv> st s 0"
  shows "compare b (FPU_tagof b) s =
     (let ord = fnum_cmp (fnum_of a) (fnum_of b) in
      (forder_code ord OR
       (if ord = Unordered then nan_flags a b
        else denormal_flag (special_tag a (FPU_tagof a)) (special_tag b (FPU_tagof b))), s))"
  unfolding compare_def Let_def a_def assms(1) by (rule compare_operands [OF refl refl, unfolded Let_def])

end
