(* ===== verification/Fpu_Mem.thy ===== *)
theory Fpu_Mem
  imports Fpu_Load Fpu_Compare
begin

text \<open>
  What the emulator's accesses to user memory deliver: after a store of a list of bytes to a mapped
  range the range holds them and nothing else changed, and the scalar reads assemble the bytes of a
  mapped range. The conversion theories use these facts to state what a store leaves in memory.
\<close>

section \<open>What the responses to exceptions leave alone\<close>

definition invalid_flag :: "fpu \<Rightarrow> bool" where
  "invalid_flag s \<longleftrightarrow> bit (partial_status s) 0"

lemma FPU_exception_frame [simp]:
  "st_space (FPU_exception n s) = st_space s" "fpu_tag_word (FPU_exception n s) = fpu_tag_word s"
  "fpu_top (FPU_exception n s) = fpu_top s" "control_word (FPU_exception n s) = control_word s"
  "fpu_m (FPU_exception n s) = fpu_m s" "fpu_rm (FPU_exception n s) = fpu_rm s"
  by (simp_all add: FPU_exception_def or_status_def clear_status_def Let_def)

lemma invalid_flag_exception: "invalid_flag (FPU_exception EX_Invalid s)"
  by (simp add: invalid_flag_def FPU_exception_def or_status_def clear_status_def Let_def bit_simps)

section \<open>Stores\<close>

definition user_bytes :: "fpu \<Rightarrow> u32 \<Rightarrow> nat \<Rightarrow> u8 list option" where
  "user_bytes s a n = mem_bytes (m_mem (fpu_m s)) a n"

text \<open>An operand the task may access: inside the address limit, and every byte mapped.\<close>

definition user_ok :: "fpu \<Rightarrow> u32 \<Rightarrow> nat \<Rightarrow> bool" where
  "user_ok s a n \<longleftrightarrow> FPU_access_ok s a (of_nat n) \<and> user_bytes s a n \<noteq> None"

lemma mem_bytes_cong:
  "(\<And>i. i < n \<Longrightarrow> m (a + of_nat i) = m' (a + of_nat i)) \<Longrightarrow> mem_bytes m a n = mem_bytes m' a n"
proof (induction n arbitrary: a)
  case (Suc n)
  have "m a = m' a" using Suc.prems [of 0] by simp
  moreover have "mem_bytes m (a + 1) n = mem_bytes m' (a + 1) n"
    by (rule Suc.IH) (use Suc.prems [of "Suc i" for i] in \<open>simp add: add.assoc\<close>)
  ultimately show ?case by (auto split: option.splits)
qed simp

lemma mem_bytes_mapped: "mem_bytes m a n \<noteq> None \<longleftrightarrow> (\<forall>i<n. m (a + of_nat i) \<noteq> None)"
proof (induction n arbitrary: a)
  case (Suc n)
  have "(\<forall>i<Suc n. m (a + of_nat i) \<noteq> None) \<longleftrightarrow> m a \<noteq> None \<and> (\<forall>i<n. m (a + 1 + of_nat i) \<noteq> None)"
    by (auto simp: less_Suc_eq_0_disj add.assoc)
  then show ?case using Suc.IH [of "a + 1"] by (auto split: option.splits)
qed simp

lemma of_nat_offset_distinct:
  assumes "i < n" "n \<le> 2 ^ 32" "0 < i"
  shows "a + of_nat i \<noteq> (a :: u32)"
proof -
  have "unat (of_nat i :: u32) = i" using assms by (simp add: unat_of_nat take_bit_nat_eq_self)
  then show ?thesis using assms by auto
qed

lemma copy_to_user_mapped:
  assumes "length bs \<le> 2 ^ 32" "mem_bytes m a (length bs) \<noteq> None"
  shows "\<exists>m'. copy_to_user m a bs = (0, m') \<and> mem_bytes m' a (length bs) = Some bs \<and> dom m' = dom m \<and>
              (\<forall>x. (\<forall>i<length bs. x \<noteq> a + of_nat i) \<longrightarrow> m' x = m x)"
  using assms
proof (induction bs arbitrary: a m)
  case (Cons b bs)
  have a: "m a \<noteq> None" and r: "mem_bytes m (a + 1) (length bs) \<noteq> None"
    using Cons.prems(2) by (auto split: option.splits)
  define m1 where "m1 = m(a \<mapsto> b)"
  have m1: "m1 a = Some b" "\<And>x. x \<noteq> a \<Longrightarrow> m1 x = m x" "dom m1 = insert a (dom m)" by (auto simp: m1_def)
  have "mem_bytes m1 (a + 1) (length bs) \<noteq> None" using r unfolding mem_bytes_mapped m1_def by simp
  moreover have "length bs \<le> 2 ^ 32" using Cons.prems(1) by simp
  ultimately obtain m' where m': "copy_to_user m1 (a + 1) bs = (0, m')"
      "mem_bytes m' (a + 1) (length bs) = Some bs" "dom m' = dom m1"
      "\<And>x. (\<And>i. i < length bs \<Longrightarrow> x \<noteq> a + 1 + of_nat i) \<Longrightarrow> m' x = m1 x"
    using Cons.IH [of m1 "a + 1"] by blast
  have far: "a \<noteq> a + 1 + of_nat i" if "i < length bs" for i
    using of_nat_offset_distinct [of "Suc i" "length (b # bs)" a] that Cons.prems(1) by (simp add: add.assoc)
  have "m' a = Some b" using m'(4) [of a] far m1(1) by simp
  moreover have "dom m' = dom m" unfolding m'(3) m1(3) using a by (simp add: insert_absorb domIff)
  moreover have "m' x = m x" if x: "\<forall>i<length (b # bs). x \<noteq> a + of_nat i" for x
  proof -
    have "x \<noteq> a" using x [rule_format, of 0] by simp
    moreover have "x \<noteq> a + 1 + of_nat i" if "i < length bs" for i
      using x [rule_format, of "Suc i"] that by (simp add: add.assoc)
    ultimately show ?thesis using m'(4) [of x] m1(2) [of x] by simp
  qed
  moreover have "copy_to_user m a (b # bs) = (0, m')" using a m'(1) by (simp add: m1_def)
  ultimately show ?case using m'(2) by (intro exI [of _ m']) simp
qed simp

text \<open>All scalar stores are stores of a byte list.\<close>

definition put_list :: "u8 list \<Rightarrow> u32 \<Rightarrow> fpu \<Rightarrow> fpu" where
  "put_list bs a s = s\<lparr>fpu_m := (fpu_m s)\<lparr>m_mem := snd (copy_to_user (m_mem (fpu_m s)) a bs)\<rparr>\<rparr>"

lemma put_lists:
  "put1 x a s = put_list [x] a s" "put2 y a s = put_list [ucast y, ucast (drop_bit 8 y)] a s"
  "put4 z a s = put_list (bytes32 z) a s"
  by (simp_all add: put1_def put2_def put4_def put_list_def put_user_1_def put_user_2_def put_user_def bytes32_def
      split: prod.split del: copy_to_user.simps)

lemma bytes32_length [simp]: "length (bytes32 w) = 4"
  by (simp add: bytes32_def)

lemma put_list_frame [simp]:
  "control_word (put_list bs a s) = control_word s" "partial_status (put_list bs a s) = partial_status s"
  "st_space (put_list bs a s) = st_space s" "fpu_tag_word (put_list bs a s) = fpu_tag_word s"
  "fpu_top (put_list bs a s) = fpu_top s" "m_limit (fpu_m (put_list bs a s)) = m_limit (fpu_m s)"
  "m_regs (fpu_m (put_list bs a s)) = m_regs (fpu_m s)"
  by (simp_all add: put_list_def)

lemma FPU_access_ok_put_list [simp]: "FPU_access_ok (put_list bs a s) b n = FPU_access_ok s b n"
  by (simp add: FPU_access_ok_def)

lemma put_list_bytes:
  assumes "length bs \<le> 2 ^ 32" "user_bytes s a (length bs) \<noteq> None"
  shows "user_bytes (put_list bs a s) a (length bs) = Some bs"
    and "dom (m_mem (fpu_m (put_list bs a s))) = dom (m_mem (fpu_m s))"
    and "\<And>x. (\<And>i. i < length bs \<Longrightarrow> x \<noteq> a + of_nat i) \<Longrightarrow> m_mem (fpu_m (put_list bs a s)) x = m_mem (fpu_m s) x"
proof -
  obtain m' where m': "copy_to_user (m_mem (fpu_m s)) a bs = (0, m')" "mem_bytes m' a (length bs) = Some bs"
      "dom m' = dom (m_mem (fpu_m s))" "\<forall>x. (\<forall>i<length bs. x \<noteq> a + of_nat i) \<longrightarrow> m' x = m_mem (fpu_m s) x"
    using copy_to_user_mapped [OF assms(1) assms(2) [unfolded user_bytes_def]] by blast
  have e: "m_mem (fpu_m (put_list bs a s)) = m'" by (simp add: put_list_def m'(1))
  show "user_bytes (put_list bs a s) a (length bs) = Some bs"
    and "dom (m_mem (fpu_m (put_list bs a s))) = dom (m_mem (fpu_m s))"
    and "\<And>x. (\<And>i. i < length bs \<Longrightarrow> x \<noteq> a + of_nat i) \<Longrightarrow> m_mem (fpu_m (put_list bs a s)) x = m_mem (fpu_m s) x"
    unfolding user_bytes_def e using m'(2-4) by blast+
qed

lemma put_list_append:
  assumes "length (xs @ ys) \<le> 2 ^ 32" "user_bytes s a (length (xs @ ys)) \<noteq> None"
  shows "put_list ys (a + of_nat (length xs)) (put_list xs a s) = put_list (xs @ ys) a s"
proof -
  have "copy_to_user m a (xs @ ys) = copy_to_user (snd (copy_to_user m a xs)) (a + of_nat (length xs)) ys"
    if "\<forall>i<length xs. m (a + of_nat i) \<noteq> None" for m
    using that
  proof (induction xs arbitrary: m a)
    case (Cons x xs)
    obtain v where v: "m a = Some v" using Cons.prems [rule_format, of 0] by auto
    define m1 where "m1 = m(a \<mapsto> x)"
    have c: "copy_to_user m a (x # zs) = copy_to_user m1 (a + 1) zs" for zs by (simp add: v m1_def)
    have "\<forall>i<length xs. m1 (a + 1 + of_nat i) \<noteq> None"
      using Cons.prems [rule_format, of "Suc i" for i] by (auto simp: add.assoc m1_def)
    from Cons.IH [OF this] show ?case unfolding append_Cons c by (simp add: add.assoc)
  qed simp
  moreover have "\<forall>i<length xs. m_mem (fpu_m s) (a + of_nat i) \<noteq> None"
    using assms(2) unfolding user_bytes_def mem_bytes_mapped by simp
  ultimately show ?thesis by (simp add: put_list_def)
qed

section \<open>Reads\<close>

lemma access_ok_bound:
  assumes "access_ok l a (of_nat n)" "n < 2 ^ 32" "k < n"
  shows "\<not> a + of_nat k < a" "a + of_nat k < l"
proof -
  have u: "unat (of_nat n :: u32) = n" "unat (of_nat k :: u32) = k"
    using assms(2, 3) by (simp_all add: unat_of_nat take_bit_nat_eq_self)
  have "a \<le> a + of_nat n" and l: "a + of_nat n \<le> l" using assms(1) by (simp_all add: access_ok_def Let_def not_less)
  then have n: "unat (a + of_nat n) = unat a + n" using u unat_plus_simple [of a "of_nat n"] by simp
  have k: "unat (a + of_nat k) = unat a + k"
  proof -
    have "unat a + k < 2 ^ 32" using n unat_lt_32 [of "a + of_nat n"] assms(3) by simp
    then show ?thesis by (simp add: unat_word_ariths u)
  qed
  show "\<not> a + of_nat k < a" "a + of_nat k < l"
    using n k l assms(3) by (auto simp: word_less_nat_alt word_le_nat_alt)
qed

lemma FPU_access_ok_part:
  assumes "FPU_access_ok s a (of_nat n)" "n < 2 ^ 32" "i + j \<le> n" "0 < j"
  shows "FPU_access_ok s (a + of_nat i) (of_nat j)"
proof -
  have u: "unat (of_nat k :: u32) = k" if "k \<le> n" for k
    using assms(2) that by (simp add: unat_of_nat take_bit_nat_eq_self)
  have "a \<le> a + of_nat n" and l: "a + of_nat n \<le> m_limit (fpu_m s)"
    using assms(1) by (simp_all add: FPU_access_ok_def access_ok_def Let_def not_less)
  then have n: "unat (a + of_nat n) = unat a + n" using u unat_plus_simple [of a "of_nat n"] by simp
  have k: "unat (a + of_nat k) = unat a + k" if "k \<le> n" for k
  proof -
    have "unat a + k < 2 ^ 32" using n unat_lt_32 [of "a + of_nat n"] that by simp
    then show ?thesis using u [OF that] by (simp add: unat_word_ariths)
  qed
  have ij: "a + of_nat i + of_nat j = a + of_nat (i + j)" by simp
  show ?thesis
    unfolding FPU_access_ok_def access_ok_def Let_def ij
    using k [of i] k [of "i + j"] n l assms(3) by (auto simp: word_less_nat_alt word_le_nat_alt)
qed

lemma get4_bytes:
  assumes "FPU_access_ok s a 4" "user_bytes s a 4 = Some [b0, b1, b2, b3]"
  shows "get4 s a = le32 b0 b1 b2 b3"
proof -
  have "\<not> a + 3 < a" "a + 3 < m_limit (fpu_m s)"
    using access_ok_bound [of "m_limit (fpu_m s)" a 4 3] assms(1) by (simp_all add: FPU_access_ok_def)
  then show ?thesis
    using assms(2)
    by (auto simp: get4_def get_user_def user_bytes_def mem_bytes_4 mem_read32_def not_le [symmetric]
        split: option.splits)
qed

lemma mem_bytes_2: "mem_bytes m a 2 = (case (m a, m (a + 1)) of (Some b0, Some b1) \<Rightarrow> Some [b0, b1] | _ \<Rightarrow> None)"
  by (auto simp: numeral_eq_Suc split: option.splits)

lemma get2_bytes:
  assumes "FPU_access_ok s a 2" "user_bytes s a 2 = Some [b0, b1]"
  shows "get2 s a = le16 b0 b1"
proof -
  have "\<not> a + 1 < a" "a + 1 < m_limit (fpu_m s)"
    using access_ok_bound [of "m_limit (fpu_m s)" a 2 1] assms(1) by (simp_all add: FPU_access_ok_def)
  then show ?thesis
    using assms(2)
    by (auto simp: get2_def get_user_2_def user_bytes_def mem_bytes_2 not_le [symmetric] split: option.splits)
qed

lemma get1_byte:
  assumes "FPU_access_ok s a 1" "user_bytes s a 1 = Some [b]"
  shows "get1 s a = b"
proof -
  have "a < m_limit (fpu_m s)"
    using access_ok_bound [of "m_limit (fpu_m s)" a 1 0] assms(1) by (simp_all add: FPU_access_ok_def)
  then show ?thesis
    using assms(2) by (auto simp: get1_def get_user_1_def user_bytes_def not_le [symmetric] split: option.splits)
qed

lemma le32_bytes32: "bytes32 (le32 b0 b1 b2 b3) = [b0, b1, b2, b3]"
  by (simp add: bytes32_def)

lemma get4_bytes32: "FPU_access_ok s a 4 \<Longrightarrow> user_bytes s a 4 = Some (bytes32 w) \<Longrightarrow> get4 s a = w"
  unfolding bytes32_def by (drule (1) get4_bytes) simp

lemma le16_bytes [simp]: "le16 (ucast w) (ucast (drop_bit 8 w)) = w"
  by (rule bit_word_eqI) (auto simp: le16_def bit_simps not_less)

lemma get2_bytes16: "FPU_access_ok s a 2 \<Longrightarrow> user_bytes s a 2 = Some [ucast w, ucast (drop_bit 8 w)] \<Longrightarrow> get2 s a = w"
  by (drule (1) get2_bytes) simp

end
