(* ===== verification/Fpu_Props.thy ===== *)
theory Fpu_Props
  imports Fpu_Mem
begin

text \<open>
  Properties of the FPU emulator's numeric routines: rounding to an integer, comparison, and the block
  copy from user memory that its loads use.
\<close>

section \<open>A machine to evaluate on\<close>

text \<open>After \<^verbatim>\<open>fninit\<close>: control word 0x037f, empty stack; user memory is mapped up to 0x2000.\<close>

definition demo_user :: machine where
  "demo_user = \<lparr>m_regs = \<lparr>pt_bx = 0, pt_cx = 0, pt_dx = 0, pt_si = 0, pt_di = 0, pt_bp = 0, pt_ax = 0, pt_ds = 0,
      pt_es = 0, pt_fs = 0, pt_gs = 0, pt_orig_ax = 0, pt_ip = 0x1000, pt_cs = 0x73, pt_flags = 0, pt_sp = 0,
      pt_ss = 0x7b\<rparr>,
    m_mem = (\<lambda>a. if a < 0x2000 then Some (ucast a) else None), m_limit = 0xc0000000, m_frame = 0xc0200000\<rparr>"

definition demo_fpu :: fpu where
  "demo_fpu = \<lparr>control_word = 0x037f, partial_status = 0, fpu_tag_word = 0xffff, soft_fip = 0, soft_fcs = 0,
      soft_foo = 0, soft_fos = 0, st_space = (\<lambda>_. CONST_Z), fpu_top = 0, fpu_lookahead = 0, no_ip_update = 0,
      fpu_rm = 0, access_limit = 0xff, info_set = True, orig_eip = 0x1000, fpu_m = demo_user\<rparr>"

text \<open>Two and a half, and minus one and a half.\<close>

definition reg_2_5 :: fpu_reg where "reg_2_5 = MAKE_REG False 1 0 0xa0000000"
definition reg_m1_5 :: fpu_reg where "reg_m1_5 = MAKE_REG True 0 0 0xc0000000"

section \<open>Rounding to an integer\<close>

text \<open>
  C19: \<^verbatim>\<open>FPU_round_to_int\<close> is the IEEE rounding in all four modes: for every finite register (normal,
  denormal or zero) the significand it leaves is the magnitude of the rounded number with the sign of the
  operand, the return value tells whether the magnitude was rounded up, rounded down or exact, and the
  return value 1 means exactly that the rounded number does not fit in 64 bits.
\<close>

theorem FPU_round_to_int_correct:
  assumes "tag = TAG_Zero \<Longrightarrow> significand r = 0" and "63 < exponent r \<Longrightarrow> bit (sigh r) 31"
  shows "case FPU_round_to_int r tag s of (p, r') \<Rightarrow>
           exp16 r' = exp16 r \<and>
           (let n = round_ref (control_word s AND CW_RC) (fval r) in
            if \<bar>n\<bar> < 2 ^ 64
            then signed (getsign r) * int (unat (significand r')) = n \<and>
                 p = (if of_int n = fval r then 0
                      else if \<bar>fval r\<bar> < of_int \<bar>n\<bar> then PRECISION_LOST_UP else PRECISION_LOST_DOWN)
            else p = 1)"
proof (cases "FPU_round_to_int r tag s")
  case (Pair p r')
  show ?thesis unfolding Pair prod.case Let_def by (rule FPU_round_to_int_rounds [OF assms Pair])
qed

theorem FPU_round_to_int_correct_witness:
  "FPU_round_to_int reg_2_5 TAG_Valid demo_fpu = (PRECISION_LOST_DOWN, reg_2_5\<lparr>sigl := 2, sigh := 0\<rparr>) \<and>
   round_ref RC_RND (fval reg_2_5) = 2"
proof -
  have e: "exponent reg_2_5 = 1" "getsign reg_2_5 = False" "sigh reg_2_5 = 0xa0000000" "sigl reg_2_5 = 0"
    by (simp_all add: reg_2_5_def MAKE_REG_def exponent_def getsign_def)
  have cw: "control_word demo_fpu = 0x037f" by (simp add: demo_fpu_def)
  have sh: "FPU_shrxs (0xa0000000, 0) 62 = (0x80000000, 0, 2)"
    by (simp add: FPU_shrxs_def shrd_def pair64_def set_al_def Let_def)
  have run: "FPU_round_to_int reg_2_5 TAG_Valid demo_fpu = (PRECISION_LOST_DOWN, reg_2_5\<lparr>sigl := 2, sigh := 0\<rparr>)"
    by (simp add: FPU_round_to_int_def e cw sh Let_def)
  have f: "fval reg_2_5 = 5 / 2" by (simp add: fval_def e significand_def)
  have small: "\<bar>round_ref RC_RND (5 / 2)\<bar> < 2 ^ 64" by (simp add: round_ref_def round_even_def Let_def)
  have "round_ref RC_RND (5 / 2) = 2"
    using FPU_round_to_int_correct [of TAG_Valid reg_2_5 demo_fpu] small
    unfolding run f cw by (simp add: e significand_def Let_def)
  then show ?thesis unfolding run f by simp
qed

section \<open>Comparison\<close>

text \<open>The tags agree with the data: a register that is not empty has the tag \<^verbatim>\<open>FPU_tagof\<close> computes.\<close>

definition tags_ok :: "fpu \<Rightarrow> bool" where
  "tags_ok s \<longleftrightarrow> (\<forall>r. FPU_gettag s r \<noteq> TAG_Empty \<longrightarrow> FPU_gettag s r = FPU_tagof (st_space s r))"

definition condition_codes :: "fpu \<Rightarrow> u32" where
  "condition_codes s = partial_status s AND (SW_C3 OR SW_C2 OR SW_C0)"

fun order_cc :: "forder \<Rightarrow> u32" where
  "order_cc Less = SW_C0"
| "order_cc Equal = SW_C3"
| "order_cc Greater = 0"
| "order_cc Unordered = SW_C3 OR SW_C2 OR SW_C0"

lemma cc_or_status: "w AND 0x4500 = 0 \<Longrightarrow> condition_codes (or_status w s) = condition_codes s"
  by (simp add: condition_codes_def or_status_def bit.conj_disj_distrib2 and.commute)

lemma cc_clear_C1 [simp]: "condition_codes (clear_status SW_C1 s) = condition_codes s"
  by (simp add: condition_codes_def clear_status_def and.assoc)

lemma condition_codes_exception [simp]: "condition_codes (FPU_exception n s) = condition_codes s"
proof -
  have "(n AND 0x27f) AND 0x4500 = 0" by (simp add: and.assoc)
  then show ?thesis by (simp add: FPU_exception_def Let_def cc_or_status)
qed

lemma condition_codes_setcc [simp]: "condition_codes (setcc f s) = f AND 0x4500"
  by (simp add: condition_codes_def setcc_def or_status_def clear_status_def bit.conj_disj_distrib2 and.assoc)

lemma setcc_frame [simp]:
  "st_space (setcc f s) = st_space s" "fpu_tag_word (setcc f s) = fpu_tag_word s" "fpu_top (setcc f s) = fpu_top s"
  "control_word (setcc f s) = control_word s" "fpu_m (setcc f s) = fpu_m s" "invalid_flag (setcc f s) = invalid_flag s"
  by (simp_all add: setcc_def or_status_def clear_status_def invalid_flag_def bit_simps)

lemma denormal_operand_frame:
  assumes "denormal_operand s = (r, s')"
  shows "st_space s' = st_space s \<and> fpu_tag_word s' = fpu_tag_word s \<and> fpu_top s' = fpu_top s \<and> fpu_m s' = fpu_m s \<and>
         condition_codes s' = condition_codes s \<and> invalid_flag s' = invalid_flag s"
proof -
  have "condition_codes s' = condition_codes s"
    using assms by (auto simp: denormal_operand_def cc_or_status split: if_splits)
  then show ?thesis
    using assms
    by (auto simp: denormal_operand_def or_status_def clear_status_def invalid_flag_def FPU_exception_def
        Let_def bit_simps split: if_splits)
qed

text \<open>What the comparison instructions do with the code \<^verbatim>\<open>compare\<close> returns.\<close>

lemma comp_cc_order: "comp_cc i (forder_code ord OR d) s = (order_cc ord, s)"
  if "d = 0 \<or> d = COMP_Denormal"
  using that by (cases ord) (auto simp: comp_cc_def)

lemma finish_compare_frame:
  assumes "finish_compare f c s = (b, s')"
  shows "st_space s' = st_space s \<and> fpu_tag_word s' = fpu_tag_word s \<and> fpu_top s' = fpu_top s \<and> fpu_m s' = fpu_m s \<and>
         condition_codes s' = f AND 0x4500 \<and> invalid_flag s' = invalid_flag s"
proof (cases "denormal_operand (setcc f s)")
  case (Pair r t)
  show ?thesis using assms denormal_operand_frame [OF Pair] Pair
    by (auto simp: finish_compare_def Let_def split: if_splits)
qed

lemma order_cc_mask [simp]: "order_cc ord AND 0x4500 = order_cc ord"
  by (cases ord) simp_all

lemma nan_flags_bits: "(forder_code Unordered OR nan_flags a b) AND COMP_NaN \<noteq> 0"
  by (simp add: nan_flags_def)

lemma compare_operands_tagged:
  assumes "tags_ok s" "\<not> FPU_empty_i s 0" "\<not> FPU_empty_i s i"
  shows "FPU_gettag0 s = FPU_tagof (st s 0)" "FPU_gettagi s i = FPU_tagof (st s i)"
  using assms by (auto simp: tags_ok_def FPU_empty_i_def FPU_gettag0_def FPU_gettagi_def st_def)

lemma compare_st_st_order:
  assumes "tags_ok s" "\<not> FPU_empty_i s 0" "\<not> FPU_empty_i s i" and run: "compare_st_st i s = (b, s')"
  defines "ord \<equiv> fnum_cmp (fnum_of (st s 0)) (fnum_of (st s i))"
  shows "st_space s' = st_space s \<and> fpu_tag_word s' = fpu_tag_word s \<and> fpu_top s' = fpu_top s \<and> fpu_m s' = fpu_m s \<and>
         condition_codes s' = order_cc ord \<and> (invalid_flag s' \<longleftrightarrow> invalid_flag s \<or> ord = Unordered)"
proof -
  note t = compare_operands_tagged [OF assms(1-3)]
  define d where "d = denormal_flag (special_tag (st s 0) (FPU_tagof (st s 0))) (special_tag (st s i) (FPU_tagof (st s i)))"
  have d: "d = 0 \<or> d = COMP_Denormal" by (simp add: d_def denormal_flag_def)
  have c: "compare (st s i) (FPU_gettagi s i) s =
     (forder_code ord OR (if ord = Unordered then nan_flags (st s 0) (st s i) else d), s)"
    using compare_order [OF t(1), of "st s i"] by (simp add: Let_def ord_def d_def t(2))
  show ?thesis
  proof (cases "ord = Unordered")
    case True
    then show ?thesis
      using run assms(2, 3) c nan_flags_bits [of "st s 0" "st s i"] invalid_flag_exception
      by (auto simp: compare_st_st_def Let_def)
  next
    case False
    then have n: "(forder_code ord OR d) AND COMP_NaN = 0" using d by (cases ord) auto
    have "finish_compare (order_cc ord) (forder_code ord OR d) s = (b, s')"
      using run assms(2, 3) c False n comp_cc_order [OF d, of _ ord s] by (simp add: compare_st_st_def Let_def)
    from finish_compare_frame [OF this] False show ?thesis by simp
  qed
qed

text \<open>
  C20: \<^verbatim>\<open>fcom\<close> compares numbers. With two non-empty operands whose tags describe them, the condition codes
  after it say exactly how the two extended real numbers are ordered (less, equal, greater, or unordered
  when one is a NaN or an unsupported pattern; infinities and denormals included), the invalid flag is
  raised exactly by an unordered comparison, and the register stack is not changed.
\<close>

theorem fcom_order:
  assumes "tags_ok s" "\<not> FPU_empty_i s 0" "\<not> FPU_empty_i s (rm_reg s)"
  shows "let ord = fnum_cmp (fnum_of (st s 0)) (fnum_of (st s (rm_reg s))) in
         condition_codes (fcom_st s) = order_cc ord \<and>
         (invalid_flag (fcom_st s) \<longleftrightarrow> invalid_flag s \<or> ord = Unordered) \<and>
         st_space (fcom_st s) = st_space s \<and> fpu_tag_word (fcom_st s) = fpu_tag_word s \<and>
         fpu_top (fcom_st s) = fpu_top s"
proof (cases "compare_st_st (rm_reg s) s")
  case (Pair b s')
  from compare_st_st_order [OF assms Pair] Pair show ?thesis by (simp add: fcom_st_def Let_def)
qed

text \<open>2.5 in st(0) and -1.5 in st(1).\<close>

definition demo_stack :: fpu where
  "demo_stack = demo_fpu\<lparr>fpu_tag_word := 0xfff0, fpu_rm := 1, st_space := (\<lambda>_. CONST_Z)(0 := reg_2_5, 1 := reg_m1_5)\<rparr>"

lemma regnr_cases: "(r :: regnr) \<in> {0, 1, 2, 3, 4, 5, 6, 7}"
proof -
  have "unat r < 8" using unsigned_less [of r, where 'a = nat] by simp
  then have "unat r \<in> {0, 1, 2, 3, 4, 5, 6, 7}" by auto
  then show ?thesis by (auto simp: word_unat_eq_iff)
qed

lemma demo_stack_tags: "tags_ok demo_stack"
proof -
  have "FPU_tagof reg_2_5 = 0" "FPU_tagof reg_m1_5 = 0"
    by (simp_all add: FPU_tagof_def reg_2_5_def reg_m1_5_def MAKE_REG_def Let_def)
  then have "FPU_gettag demo_stack r \<noteq> 3 \<longrightarrow> FPU_gettag demo_stack r = FPU_tagof (st_space demo_stack r)" for r
    using regnr_cases [of r] by (elim insertE emptyE) (simp_all add: FPU_gettag_def demo_stack_def demo_fpu_def)
  then show ?thesis by (simp add: tags_ok_def)
qed

theorem fcom_order_witness: "condition_codes (fcom_st demo_stack) = order_cc Greater"
proof -
  have st: "st demo_stack 0 = reg_2_5" "rm_reg demo_stack = 1" "st demo_stack 1 = reg_m1_5"
    and ne: "\<not> FPU_empty_i demo_stack 0" "\<not> FPU_empty_i demo_stack 1"
    by (simp_all add: st_def demo_stack_def demo_fpu_def top_reg_def rm_reg_def FPU_empty_i_def FPU_gettag_def)
  have "fnum_of reg_2_5 = Num (5 / 2)" "fnum_of reg_m1_5 = Num (- 3 / 2)"
    by (simp_all add: fnum_of_def fval_def reg_2_5_def reg_m1_5_def MAKE_REG_def exponent_def getsign_def significand_def)
  then have "fnum_cmp (fnum_of (st demo_stack 0)) (fnum_of (st demo_stack (rm_reg demo_stack))) = Greater"
    by (simp add: st)
  then show ?thesis using fcom_order [OF demo_stack_tags ne(1), unfolded st, OF ne(2)] by (simp add: st Let_def)
qed

end
