(* ===== verification/Fpu_Int.thy ===== *)
theory Fpu_Int
  imports Fpu_Props
begin

text \<open>
  Integer operands: \<^verbatim>\<open>FPU_store_int16\<close>, \<^verbatim>\<open>FPU_store_int32\<close> and \<^verbatim>\<open>FPU_store_int64\<close> store the correctly
  rounded number or the integer indefinite, the integer loads are exact, and loading back what was
  stored gives the same number.
\<close>

section \<open>Two's complement in memory\<close>

definition user_int :: "nat \<Rightarrow> fpu \<Rightarrow> u32 \<Rightarrow> int option" where
  "user_int n s d = map_option (\<lambda>bs. signed_take_bit (8 * n - 1) (horner_sum uint (2 ^ 8) bs)) (user_bytes s d n)"

lemma uint_drop_bit_div: "uint (drop_bit n (v :: 'a::len word)) = uint v div 2 ^ n"
proof -
  have "int (unat (drop_bit n v)) = int (unat v div 2 ^ n)" by (simp only: unat_drop_bit_div)
  then show ?thesis by (simp add: zdiv_int)
qed

lemma uint_byte_of: "uint (byte_of i w) = uint w div 2 ^ (8 * i) mod 2 ^ 8"
  unfolding byte_of_def unsigned_ucast_eq uint_drop_bit_div [symmetric] by (simp add: take_bit_eq_mod)

lemma four_digits:
  fixes x :: int
  assumes "0 \<le> x" "x < 2 ^ 32"
  shows "x mod 2 ^ 8 + 2 ^ 8 * (x div 2 ^ 8 mod 2 ^ 8 + 2 ^ 8 * (x div 2 ^ 16 mod 2 ^ 8 + 2 ^ 8 * (x div 2 ^ 24 mod 2 ^ 8))) = x"
proof -
  have q: "x div 2 ^ 16 = x div 2 ^ 8 div 2 ^ 8" "x div 2 ^ 24 = x div 2 ^ 16 div 2 ^ 8"
    by (simp_all add: zdiv_zmult2_eq [symmetric])
  have "x div 2 ^ 24 mod 2 ^ 8 = x div 2 ^ 24" using assms by (intro mod_pos_pos_trivial) (auto simp: zdiv_mono1 pos_imp_zdiv_nonneg_iff)
  then show ?thesis unfolding q by (simp only: mod_mult_div_eq)
qed

lemma horner_bytes32: "horner_sum uint (2 ^ 8) (bytes32 w @ bs) = uint w + 2 ^ 32 * horner_sum uint (2 ^ 8) bs"
proof -
  define a b c d where "a = uint (byte_of 0 w)" and "b = uint (byte_of 1 w)" and "c = uint (byte_of 2 w)"
    and "d = uint (byte_of 3 w)"
  have "a + 2 ^ 8 * (b + 2 ^ 8 * (c + 2 ^ 8 * d)) = uint w"
  proof -
    have "0 \<le> uint w" "uint w < 2 ^ 32" using unsigned_less [of w, where 'a = int] by simp_all
    from four_digits [OF this] show ?thesis
      unfolding a_def b_def c_def d_def uint_byte_of by (simp only: mult_zero_right power_0 div_by_1 mult_1_right)
        (simp only: arith_simps)
  qed
  moreover have "horner_sum uint (2 ^ 8) (bytes32 w @ bs) =
      a + 2 ^ 8 * (b + 2 ^ 8 * (c + 2 ^ 8 * (d + 2 ^ 8 * horner_sum uint (2 ^ 8) bs)))"
    by (simp only: bytes32_def append_Cons append_Nil horner_sum_simps a_def b_def c_def d_def)
  ultimately show ?thesis by simp
qed

lemma horner_bytes16: "horner_sum uint (2 ^ 8) [ucast w :: u8, ucast (drop_bit 8 w)] = uint (w :: u16)"
proof -
  have "uint (ucast w :: u8) = uint w mod 2 ^ 8" "uint (ucast (drop_bit 8 w) :: u8) = uint w div 2 ^ 8 mod 2 ^ 8"
    unfolding uint_drop_bit_div [symmetric] unsigned_ucast_eq by (simp_all add: take_bit_eq_mod)
  moreover have "0 \<le> uint w" "uint w < 2 ^ 16" using unsigned_less [of w, where 'a = int] by simp_all
  moreover have "uint w div 2 ^ 8 mod 2 ^ 8 = uint w div 2 ^ 8"
    using unsigned_less [of w, where 'a = int] by (intro mod_pos_pos_trivial) (auto simp: pos_imp_zdiv_nonneg_iff)
  ultimately show ?thesis by simp
qed

lemma uint_pair64: "uint (pair64 h l) = uint l + 2 ^ 32 * uint h"
proof -
  have "int (unat (pair64 h l)) = int (unat h * 2 ^ 32 + unat l)" by (simp only: unat_pair64)
  then show ?thesis by simp
qed

lemma user_int_put:
  assumes "user_ok s d 4"
  shows "user_int 4 (put_list (bytes32 v) d s) d = Some (sint v)"
  using put_list_bytes(1) [of "bytes32 v" s d] assms horner_bytes32 [of v "[]"]
  by (simp add: user_ok_def user_int_def sint_uint)

lemma user_int_put2:
  assumes "user_ok s d 2"
  shows "user_int 2 (put_list [ucast v, ucast (drop_bit 8 v)] d s) d = Some (sint (v :: u16))"
proof -
  have "user_bytes (put_list [ucast v, ucast (drop_bit 8 v)] d s) d 2 = Some [ucast v, ucast (drop_bit 8 v)]"
    using put_list_bytes(1) [of "[ucast v, ucast (drop_bit 8 v)]" s d, unfolded list.size] assms
    by (simp add: user_ok_def flip: numeral_2_eq_2)
  then show ?thesis using horner_bytes16 [of v] by (simp add: user_int_def sint_uint)
qed

lemma put_int32_mapped:
  assumes "user_ok s d 4"
  shows "\<exists>s'. put_int32 v d s = Ret 1 s' \<and> user_int 4 s' d = Some (sint v) \<and> s' = put_list (bytes32 v) d s"
  using assms user_int_put [OF assms] by (simp add: put_int32_def user_ok_def put_lists)

lemma put_int16_mapped:
  assumes "user_ok s d 2"
  shows "\<exists>s'. put_int16 v d s = Ret 1 s' \<and> user_int 2 s' d = Some (sint (ucast v :: u16)) \<and>
              s' = put_list [ucast (ucast v :: u16), ucast (drop_bit 8 (ucast v :: u16))] d s"
  using assms user_int_put2 [OF assms] by (simp add: put_int16_def user_ok_def put_lists)

lemma put_int64_mapped:
  assumes "user_ok s d 8"
  shows "\<exists>s'. put_int64 v d s = Ret 1 s' \<and> user_int 8 s' d = Some (sint v) \<and>
              s' = put_list (bytes32 (ucast v) @ bytes32 (ucast (drop_bit 32 v))) d s"
proof -
  define bs where "bs = bytes32 (ucast v) @ bytes32 (ucast (drop_bit 32 v))"
  have l: "length bs = 8" by (simp add: bs_def)
  then obtain m' where m': "copy_to_user (m_mem (fpu_m s)) d bs = (0, m')"
    using copy_to_user_mapped [of bs "m_mem (fpu_m s)" d] assms by (auto simp: user_ok_def user_bytes_def)
  have b: "user_bytes (put_list bs d s) d 8 = Some bs"
    using put_list_bytes(1) [of bs s d] assms l by (simp add: user_ok_def)
  have "horner_sum uint (2 ^ 8) bs = uint (pair64 (ucast (drop_bit 32 v)) (ucast v))"
    unfolding bs_def horner_bytes32 uint_pair64
    using horner_bytes32 [of "ucast (drop_bit 32 v)" "[]"] by simp
  also have "pair64 (ucast (drop_bit 32 v)) (ucast v) = v"
    by (rule bit_word_eqI) (auto simp: pair64_def bit_simps not_less)
  finally have "user_int 8 (put_list bs d s) d = Some (sint v)" by (simp add: user_int_def b sint_uint)
  moreover have "put_int64 v d s = Ret 1 (put_list bs d s)"
    using assms m' by (simp add: put_int64_def bs_def [symmetric] put_list_def user_ok_def)
  ultimately show ?thesis by (simp add: bs_def)
qed

section \<open>Stores round correctly\<close>

lemma FPU_round_to_int_big: "FPU_round_to_int r tag s = (1, r') \<Longrightarrow> sigh r' = 0xffffffff \<and> exp16 r' = exp16 r"
proof -
  have n: "NOT h OR NOT l = 0 \<Longrightarrow> h = 0xffffffff" for h l :: u32
  proof -
    assume "NOT h OR NOT l = 0"
    then have "NOT h = 0" by (simp add: or_eq_0_iff)
    then have "NOT (NOT h) = NOT 0" by (rule arg_cong)
    then show "h = 0xffffffff" by simp
  qed
  assume "FPU_round_to_int r tag s = (1, r')"
  then show ?thesis
    unfolding FPU_round_to_int_def Let_def by (auto split: if_splits prod.splits dest: n)
qed

text \<open>
  The outcome of a store of \<open>n\<close> bytes: the rounded number if it is representable, otherwise the
  invalid exception and, where it is masked, the integer indefinite.
\<close>

definition rounded :: "fpu_reg \<Rightarrow> fpu \<Rightarrow> int option" where
  "rounded r s = (case fnum_of r of Num x \<Rightarrow> Some (round_ref (control_word s AND CW_RC) x) | _ \<Rightarrow> None)"

definition precision_flag :: "fpu \<Rightarrow> bool" where
  "precision_flag s \<longleftrightarrow> bit (partial_status s) 5"

definition int_range :: "nat \<Rightarrow> int set" where
  "int_range n = {- (2 ^ (8 * n - 1)) ..< 2 ^ (8 * n - 1)}"

definition int_stored :: "nat \<Rightarrow> fpu_reg \<Rightarrow> u32 \<Rightarrow> fpu \<Rightarrow> int fres \<Rightarrow> bool" where
  "int_stored n r d s res \<longleftrightarrow>
     (\<exists>x s'. res = Ret x s' \<and> st_space s' = st_space s \<and> fpu_tag_word s' = fpu_tag_word s \<and> fpu_top s' = fpu_top s \<and>
        (case rounded r s of
           Some k \<Rightarrow>
             if k \<in> int_range n then
               x = 1 \<and> user_int n s' d = Some k \<and> invalid_flag s' = invalid_flag s \<and>
               (precision_flag s' \<longleftrightarrow> precision_flag s \<or> of_int k \<noteq> fval r)
             else invalid_flag s' \<and> (if masked CW_Invalid s then x = 1 \<and> user_int n s' d = Some (- (2 ^ (8 * n - 1)))
                                     else x = 0 \<and> fpu_m s' = fpu_m s)
         | None \<Rightarrow> invalid_flag s' \<and> (if masked CW_Invalid s then x = 1 \<and> user_int n s' d = Some (- (2 ^ (8 * n - 1)))
                                     else x = 0 \<and> fpu_m s' = fpu_m s)))"

lemma user_ok_exception [simp]: "user_ok (FPU_exception e s) d n = user_ok s d n"
  by (simp add: user_ok_def user_bytes_def FPU_access_ok_def)

lemma masked_exception [simp]: "masked m (FPU_exception e s) = masked m s"
  by (simp add: masked_def)

lemma flag_precision_frame [simp]:
  "st_space (flag_precision p s) = st_space s" "fpu_tag_word (flag_precision p s) = fpu_tag_word s"
  "fpu_top (flag_precision p s) = fpu_top s" "fpu_m (flag_precision p s) = fpu_m s"
  "control_word (flag_precision p s) = control_word s"
  by (simp_all add: flag_precision_def set_precision_flag_def or_status_def clear_status_def)

lemma user_ok_flag_precision [simp]: "user_ok (flag_precision p s) d n = user_ok s d n"
  by (simp add: user_ok_def user_bytes_def FPU_access_ok_def)

lemma flag_precision_flags:
  assumes "p \<in> {0, PRECISION_LOST_UP, PRECISION_LOST_DOWN}"
  shows "precision_flag (flag_precision p s) \<longleftrightarrow> precision_flag s \<or> p \<noteq> 0"
    and "invalid_flag (flag_precision p s) = invalid_flag s"
  using assms
  by (auto simp: flag_precision_def set_precision_flag_def or_status_def clear_status_def precision_flag_def
      invalid_flag_def FPU_exception_def Let_def bit_simps)

lemma int_operand_none:
  assumes "rounded r s = None"
  shows "int_operand r (FPU_tagof r) s = (None, FPU_exception EX_Invalid s)"
proof -
  have t: "FPU_tagof r \<noteq> TAG_Empty" by (simp add: FPU_tagof_def Let_def)
  obtain "special_tag r (FPU_tagof r) = TW_Infinity \<or> special_tag r (FPU_tagof r) = TW_NaN"
    using assms by (cases rule: operand_cases [OF refl, of r]) (auto simp: rounded_def)
  then show ?thesis using t by (auto simp: int_operand_def special_tag_def FPU_tagof_def Let_def split: if_splits)
qed

lemma int_store_rounding:
  assumes "rounded r s = Some k"
  obtains tag p t where "int_operand r (FPU_tagof r) s = (Some tag, s)" "FPU_round_to_int r tag s = (p, t)"
    "getsign t = getsign r" "p = 1 \<longrightarrow> sigh t = 0xffffffff \<and> 2 ^ 64 \<le> \<bar>k\<bar>"
    "p \<noteq> 1 \<longrightarrow> k = signed (getsign r) * int (unat (significand t)) \<and> p \<in> {0, PRECISION_LOST_UP, PRECISION_LOST_DOWN} \<and>
              (p \<noteq> 0 \<longleftrightarrow> of_int k \<noteq> fval r)"
proof -
  define tag where "tag = special_tag r (FPU_tagof r)"
  obtain p t where run: "FPU_round_to_int r tag s = (p, t)" by force
  have *: "tag \<noteq> TW_Infinity \<and> tag \<noteq> TW_NaN \<and> k = round_ref (control_word s AND CW_RC) (fval r) \<and>
        (tag = TAG_Zero \<longrightarrow> significand r = 0) \<and> (63 < exponent r \<longrightarrow> bit (sigh r) 31)"
  proof (cases rule: operand_cases [OF tag_def, case_names finite zero inf nan])
    case finite
    then show ?thesis using assms by (auto simp: rounded_def finite_operand_def)
  next
    case zero
    then have "exponent r = EXP_UNDER" "sigval r = 0"
      by (auto simp: tag_def special_tag_def FPU_tagof_def FPU_Special_def Let_def exponent_eq_iff sig_zero_iff split: if_splits)
    then show ?thesis using assms zero by (auto simp: rounded_def fnum_of_def sigval_def unat_eq_zero)
  qed (use assms in \<open>auto simp: rounded_def\<close>)
  have o: "int_operand r (FPU_tagof r) s = (Some tag, s)"
    using * unfolding tag_def by (auto simp: int_operand_def special_tag_def FPU_tagof_def Let_def split: if_splits)
  note R = FPU_round_to_int_rounds [OF _ _ run, folded conjunct1 [OF conjunct2 [OF conjunct2 [OF *]]]]
  have e: "exp16 t = exp16 r" using R * by blast
  have p1: "p = 1 \<longleftrightarrow> \<not> \<bar>k\<bar> < 2 ^ 64" using R * by (auto split: if_splits)
  show thesis
  proof (rule that [OF o run])
    show "getsign t = getsign r" by (simp add: getsign_def e)
    show "p = 1 \<longrightarrow> sigh t = 0xffffffff \<and> 2 ^ 64 \<le> \<bar>k\<bar>" using run FPU_round_to_int_big p1 by auto
    show "p \<noteq> 1 \<longrightarrow> k = signed (getsign r) * int (unat (significand t)) \<and> p \<in> {0, PRECISION_LOST_UP, PRECISION_LOST_DOWN} \<and>
              (p \<noteq> 0 \<longleftrightarrow> of_int k \<noteq> fval r)"
      using R * p1 by (auto split: if_splits)
  qed
qed

lemma fits_magnitude:
  fixes M :: nat
  assumes "0 < M"
  shows "signed neg * int v \<in> {- int M ..< int M} \<longleftrightarrow> \<not> (M \<le> v \<and> \<not> (v = M \<and> neg))"
  using assms by (cases neg) auto

text \<open>
  The shape the three stores share, and the contract of its parts: how the number is put into memory,
  when it does not fit, and what is put.
\<close>

definition int_store_shape ::
  "(u32 \<Rightarrow> fpu_reg \<Rightarrow> bool) \<Rightarrow> ('v \<Rightarrow> u32 \<Rightarrow> fpu \<Rightarrow> int fres) \<Rightarrow> 'v \<Rightarrow> (fpu_reg \<Rightarrow> 'v) \<Rightarrow>
   fpu_reg \<Rightarrow> u32 \<Rightarrow> u32 \<Rightarrow> fpu \<Rightarrow> int fres" where
  "int_store_shape bad put indef val r tag d s =
     (let invalid = (\<lambda>s. if masked EX_Invalid s then put indef d s else Ret 0 s) in
      case int_operand r tag s of
        (None, s) \<Rightarrow> invalid s
      | (Some tag, s) \<Rightarrow>
          (let (p, t) = FPU_round_to_int r tag s in
           if bad p t then invalid (FPU_exception EX_Invalid s) else put (val t) d (flag_precision p s)))"

locale int_store =
  fixes n :: nat and put :: "'v \<Rightarrow> u32 \<Rightarrow> fpu \<Rightarrow> int fres" and conv :: "'v \<Rightarrow> int" and indef :: 'v
    and bad :: "u32 \<Rightarrow> fpu_reg \<Rightarrow> bool" and val :: "fpu_reg \<Rightarrow> 'v"
  assumes put_mapped: "user_ok s d n \<Longrightarrow>
      \<exists>s'. put v d s = Ret 1 s' \<and> user_int n s' d = Some (conv v) \<and> (\<exists>bs. s' = put_list bs d s)"
    and conv_indef: "conv indef = - (2 ^ (8 * n - 1))"
    and bad_big: "sigh t = 0xffffffff \<Longrightarrow> bad 1 t"
    and bad_iff: "p \<noteq> 1 \<Longrightarrow> k = signed (getsign t) * int (unat (significand t)) \<Longrightarrow> bad p t \<longleftrightarrow> k \<notin> int_range n"
    and conv_val: "k = signed (getsign t) * int (unat (significand t)) \<Longrightarrow> k \<in> int_range n \<Longrightarrow> conv (val t) = k"
    and width: "n \<le> 8"
begin

lemma huge_out_of_range: "2 ^ 64 \<le> \<bar>k\<bar> \<Longrightarrow> k \<notin> int_range n"
proof
  assume "2 ^ 64 \<le> \<bar>k\<bar>" "k \<in> int_range n"
  moreover have "(2::int) ^ (8 * n - 1) \<le> 2 ^ 63" using width by (intro power_increasing) auto
  ultimately show False by (auto simp: int_range_def)
qed

lemma invalid_stored:
  assumes "user_ok s d n"
  shows "\<exists>x s'. (if masked EX_Invalid (FPU_exception EX_Invalid s) then put indef d (FPU_exception EX_Invalid s)
                 else Ret 0 (FPU_exception EX_Invalid s)) = Ret x s' \<and>
           st_space s' = st_space s \<and> fpu_tag_word s' = fpu_tag_word s \<and> fpu_top s' = fpu_top s \<and> invalid_flag s' \<and>
           (if masked CW_Invalid s then x = 1 \<and> user_int n s' d = Some (- (2 ^ (8 * n - 1)))
            else x = 0 \<and> fpu_m s' = fpu_m s)"
proof -
  obtain s' bs where s': "put indef d (FPU_exception EX_Invalid s) = Ret 1 s'"
      "user_int n s' d = Some (- (2 ^ (8 * n - 1)))" "s' = put_list bs d (FPU_exception EX_Invalid s)"
    using put_mapped [of "FPU_exception EX_Invalid s" d indef] assms conv_indef by auto
  have "invalid_flag s'" using invalid_flag_exception [of s] by (simp add: s'(3) invalid_flag_def)
  then show ?thesis using s' invalid_flag_exception [of s] by auto
qed

lemma shape_stores:
  assumes "user_ok s d n"
  shows "int_stored n r d s (int_store_shape bad put indef val r (FPU_tagof r) d s)"
proof (cases "rounded r s")
  case None
  then show ?thesis
    using invalid_stored [OF assms] int_operand_none [OF None]
    by (simp add: int_store_shape_def int_stored_def)
next
  case (Some k)
  obtain tag p t where R: "int_operand r (FPU_tagof r) s = (Some tag, s)" "FPU_round_to_int r tag s = (p, t)"
    "getsign t = getsign r" "p = 1 \<longrightarrow> sigh t = 0xffffffff \<and> 2 ^ 64 \<le> \<bar>k\<bar>"
    "p \<noteq> 1 \<longrightarrow> k = signed (getsign r) * int (unat (significand t)) \<and> p \<in> {0, PRECISION_LOST_UP, PRECISION_LOST_DOWN} \<and>
              (p \<noteq> 0 \<longleftrightarrow> of_int k \<noteq> fval r)"
    by (rule int_store_rounding [OF Some])
  have bad: "bad p t \<longleftrightarrow> k \<notin> int_range n"
    using R(3-5) bad_big [of t] bad_iff [of p k t] huge_out_of_range [of k] by (cases "p = 1") auto
  show ?thesis
  proof (cases "k \<in> int_range n")
    case False
    then show ?thesis
      using invalid_stored [OF assms] Some R(1, 2) bad by (simp add: int_store_shape_def int_stored_def)
  next
    case True
    then have p1: "p \<noteq> 1" using R(4) huge_out_of_range by blast
    have v: "conv (val t) = k" using conv_val [of k t] True R(3) mp [OF R(5) p1] by simp
    obtain s' bs where s': "put (val t) d (flag_precision p s) = Ret 1 s'" "user_int n s' d = Some k"
        "s' = put_list bs d (flag_precision p s)"
      using put_mapped [of "flag_precision p s" d "val t"] assms v by auto
    have "invalid_flag s' = invalid_flag s" "precision_flag s' \<longleftrightarrow> precision_flag s \<or> of_int k \<noteq> fval r"
    proof -
      have p: "p \<in> {0, PRECISION_LOST_UP, PRECISION_LOST_DOWN}" "p \<noteq> 0 \<longleftrightarrow> of_int k \<noteq> fval r" using R(5) p1 by blast+
      show "invalid_flag s' = invalid_flag s" "precision_flag s' \<longleftrightarrow> precision_flag s \<or> of_int k \<noteq> fval r"
        using flag_precision_flags [OF p(1), of s] unfolding p(2) [symmetric] s'(3) invalid_flag_def precision_flag_def
        by simp_all
    qed
    then show ?thesis using s' Some R(1, 2) bad True by (simp add: int_store_shape_def int_stored_def)
  qed
qed

end

lemma significand_words:
  fixes t :: fpu_reg
  defines "v \<equiv> unat (significand t)"
  shows "sigh t = 0 \<longleftrightarrow> v < 2 ^ 32" "sigh t = 0 \<Longrightarrow> unat (sigl t) = v" "v < 2 ^ 64"
    "sigh t AND 0x80000000 \<noteq> 0 \<longleftrightarrow> 2 ^ 63 \<le> v" "sigh t = 0x80000000 \<and> sigl t = 0 \<longleftrightarrow> v = 2 ^ 63"
proof -
  define h l where "h = unat (sigh t)" and "l = unat (sigl t)"
  have hl: "h < 2 ^ 32" "l < 2 ^ 32" by (simp_all only: h_def l_def unat_lt_32)
  have v: "v = h * 2 ^ 32 + l" by (simp add: v_def significand_pair unat_pair64 h_def l_def)
  have z: "sigh t = 0 \<longleftrightarrow> h = 0" "sigl t = 0 \<longleftrightarrow> l = 0" by (simp_all only: h_def l_def unat_eq_zero)
  have z': "sigh t = 0x80000000 \<longleftrightarrow> h = 2 ^ 31" unfolding h_def word_unat_eq_iff by simp
  show "sigh t = 0 \<longleftrightarrow> v < 2 ^ 32" unfolding z using hl v by (cases "h = 0") auto
  show "sigh t = 0 \<Longrightarrow> unat (sigl t) = v" unfolding z l_def [symmetric] using v by simp
  show "v < 2 ^ 64" using hl v by simp
  show "sigh t = 0x80000000 \<and> sigl t = 0 \<longleftrightarrow> v = 2 ^ 63"
    unfolding z z' using hl v by (cases "h < 2 ^ 31"; cases "h = 2 ^ 31") simp_all
  show "sigh t AND 0x80000000 \<noteq> 0 \<longleftrightarrow> 2 ^ 63 \<le> v"
    unfolding and_bit31 bit31_ge h_def [symmetric] using hl v by (cases "h < 2 ^ 31") simp_all
qed

lemma word_of_signed: "(if neg then - (w :: 'a::len word) else w) = word_of_int (signed neg * int (unat w))"
  by (cases neg) simp_all

interpretation st32: int_store 4 put_int32 sint "0x80000000"
  "\<lambda>p t. sigh t \<noteq> 0 \<or> (sigl t AND 0x80000000 \<noteq> 0 \<and> \<not> (sigl t = 0x80000000 \<and> getsign t))"
  "\<lambda>t. if getsign t then - sigl t else sigl t"
proof
  show "user_ok s d 4 \<Longrightarrow> \<exists>s'. put_int32 v d s = Ret 1 s' \<and> user_int 4 s' d = Some (sint v) \<and> (\<exists>bs. s' = put_list bs d s)"
    for s d v using put_int32_mapped [of s d v] by blast
  fix t :: fpu_reg and k :: int
  define v where "v = unat (significand t)"
  note w = significand_words [of t, folded v_def]
  assume k: "k = signed (getsign t) * int (unat (significand t))"
  have fits: "k \<in> int_range 4 \<longleftrightarrow> \<not> (2 ^ 31 \<le> v \<and> \<not> (v = 2 ^ 31 \<and> getsign t))"
    using fits_magnitude [of "2 ^ 31" "getsign t" v] by (simp add: int_range_def k v_def)
  show "(sigh t \<noteq> 0 \<or> (sigl t AND 0x80000000 \<noteq> 0 \<and> \<not> (sigl t = 0x80000000 \<and> getsign t))) \<longleftrightarrow> k \<notin> int_range 4"
  proof (cases "sigh t = 0")
    case True
    then have "unat (sigl t) = v" using w(2) by blast
    moreover have "sigl t = 0x80000000 \<longleftrightarrow> unat (sigl t) = 2 ^ 31" by (simp add: word_unat_eq_iff)
    ultimately show ?thesis using True by (simp add: fits and_bit31 bit31_ge)
  next
    case False
    then show ?thesis using w(1) by (simp add: fits)
  qed
  assume r: "k \<in> int_range 4"
  then have "v < 2 ^ 32" using fits by auto
  then have v: "unat (sigl t) = v" using w(1, 2) by blast
  show "sint (if getsign t then - sigl t else sigl t) = k"
    unfolding word_of_signed v
    by (rule sint_32_eqI) (use r k in \<open>simp_all add: int_range_def v_def\<close>)
qed simp_all

lemma and_high_bits: "w AND 0xffff8000 \<noteq> 0 \<longleftrightarrow> 2 ^ 15 \<le> unat (w :: u32)"
proof -
  have m: "(0xffff8000 :: u32) = NOT (mask 15)" by (simp add: mask_eq_exp_minus_1)
  have "w AND 0xffff8000 = push_bit 15 (drop_bit 15 w)"
    unfolding m by (rule bit_word_eqI) (auto simp: bit_simps)
  moreover have "drop_bit 15 (push_bit 15 (drop_bit 15 w)) = drop_bit 15 w"
    by (rule bit_word_eqI) (auto simp: bit_simps)
  ultimately have "w AND 0xffff8000 = 0 \<longleftrightarrow> drop_bit 15 w = 0" by auto
  also have "\<dots> \<longleftrightarrow> unat (drop_bit 15 w) = 0" by (simp only: unat_eq_zero)
  also have "\<dots> \<longleftrightarrow> unat w < 2 ^ 15" unfolding unat_drop_bit_div by (simp add: div_eq_0_iff)
  finally show ?thesis by auto
qed

lemma sint_word_of_int_16: "k \<in> int_range 2 \<Longrightarrow> sint (ucast (word_of_int k :: u32) :: u16) = k"
proof -
  assume k: "k \<in> int_range 2"
  have "(ucast (word_of_int k :: u32) :: u16) = word_of_int k"
    by (rule bit_word_eqI) (simp add: bit_simps)
  then show ?thesis by (rule sint_16_eqI) (use k in \<open>simp_all add: int_range_def\<close>)
qed

interpretation st16: int_store 2 put_int16 "\<lambda>v. sint (ucast v :: u16)" "0x8000"
  "\<lambda>p t. sigh t \<noteq> 0 \<or> (sigl t AND 0xffff8000 \<noteq> 0 \<and> \<not> (sigl t = 0x8000 \<and> getsign t))"
  "\<lambda>t. if getsign t then - sigl t else sigl t"
proof
  show "user_ok s d 2 \<Longrightarrow> \<exists>s'. put_int16 v d s = Ret 1 s' \<and> user_int 2 s' d = Some (sint (ucast v :: u16)) \<and> (\<exists>bs. s' = put_list bs d s)"
    for s d v using put_int16_mapped [of s d v] by blast
  fix t :: fpu_reg and k :: int
  define v where "v = unat (significand t)"
  note w = significand_words [of t, folded v_def]
  assume k: "k = signed (getsign t) * int (unat (significand t))"
  have fits: "k \<in> int_range 2 \<longleftrightarrow> \<not> (2 ^ 15 \<le> v \<and> \<not> (v = 2 ^ 15 \<and> getsign t))"
    using fits_magnitude [of "2 ^ 15" "getsign t" v] by (simp add: int_range_def k v_def)
  show "(sigh t \<noteq> 0 \<or> (sigl t AND 0xffff8000 \<noteq> 0 \<and> \<not> (sigl t = 0x8000 \<and> getsign t))) \<longleftrightarrow> k \<notin> int_range 2"
  proof (cases "sigh t = 0")
    case True
    then have "unat (sigl t) = v" using w(2) by blast
    moreover have "sigl t = 0x8000 \<longleftrightarrow> unat (sigl t) = 2 ^ 15" by (simp add: word_unat_eq_iff)
    ultimately show ?thesis using True by (simp add: fits and_high_bits)
  next
    case False
    then show ?thesis using w(1) by (simp add: fits)
  qed
  assume r: "k \<in> int_range 2"
  then have "v < 2 ^ 32" using fits by auto
  then have v: "unat (sigl t) = v" using w(1, 2) by blast
  show "sint (ucast (if getsign t then - sigl t else sigl t) :: u16) = k"
    unfolding word_of_signed v using sint_word_of_int_16 [OF r] k by (simp add: v_def)
qed simp_all

interpretation st64: int_store 8 put_int64 sint "0x8000000000000000"
  "\<lambda>p t. p = 1 \<or> (sigh t AND 0x80000000 \<noteq> 0 \<and> \<not> (sigh t = 0x80000000 \<and> sigl t = 0 \<and> getsign t))"
  "\<lambda>t. if getsign t then - pair64 (sigh t) (sigl t) else pair64 (sigh t) (sigl t)"
proof
  show "user_ok s d 8 \<Longrightarrow> \<exists>s'. put_int64 v d s = Ret 1 s' \<and> user_int 8 s' d = Some (sint v) \<and> (\<exists>bs. s' = put_list bs d s)"
    for s d v using put_int64_mapped [of s d v] by blast
  fix p :: u32 and t :: fpu_reg and k :: int
  define v where "v = unat (significand t)"
  note w = significand_words [of t, folded v_def]
  assume k: "k = signed (getsign t) * int (unat (significand t))"
  have fits: "k \<in> int_range 8 \<longleftrightarrow> \<not> (2 ^ 63 \<le> v \<and> \<not> (v = 2 ^ 63 \<and> getsign t))"
    using fits_magnitude [of "2 ^ 63" "getsign t" v] by (simp add: int_range_def k v_def)
  show "p \<noteq> 1 \<Longrightarrow> (p = 1 \<or> (sigh t AND 0x80000000 \<noteq> 0 \<and> \<not> (sigh t = 0x80000000 \<and> sigl t = 0 \<and> getsign t))) \<longleftrightarrow>
          k \<notin> int_range 8"
    unfolding w(4) fits using w(5) by auto
  assume r: "k \<in> int_range 8"
  have s: "signed_take_bit 63 j = j" if "j \<in> int_range 8" for j :: int
    using that by (intro signed_take_bit_int_eq_self) (auto simp: int_range_def)
  show "sint (if getsign t then - pair64 (sigh t) (sigl t) else pair64 (sigh t) (sigl t)) = k"
    unfolding word_of_signed significand_pair [symmetric] k [symmetric] using s [OF r] by (simp add: signed_of_int)
qed simp_all

text \<open>The three stores are instances of the shape.\<close>

lemma int_stores:
  "user_ok s d 2 \<Longrightarrow> int_stored 2 r d s (FPU_store_int16 r (FPU_tagof r) d s)"
  "user_ok s d 4 \<Longrightarrow> int_stored 4 r d s (FPU_store_int32 r (FPU_tagof r) d s)"
  "user_ok s d 8 \<Longrightarrow> int_stored 8 r d s (FPU_store_int64 r (FPU_tagof r) d s)"
proof -
  show "user_ok s d 2 \<Longrightarrow> int_stored 2 r d s (FPU_store_int16 r (FPU_tagof r) d s)"
    by (drule st16.shape_stores [of s d r]) (simp only: int_store_shape_def FPU_store_int16_def)
  show "user_ok s d 4 \<Longrightarrow> int_stored 4 r d s (FPU_store_int32 r (FPU_tagof r) d s)"
    by (drule st32.shape_stores [of s d r]) (simp only: int_store_shape_def FPU_store_int32_def)
  show "user_ok s d 8 \<Longrightarrow> int_stored 8 r d s (FPU_store_int64 r (FPU_tagof r) d s)"
    by (drule st64.shape_stores [of s d r]) (simp only: int_store_shape_def FPU_store_int64_def Let_def)
qed

section \<open>Loads are exact\<close>

lemma exp16_in_range:
  assumes "exp16 r = word_of_int (e + 0x3fff) OR (if neg then 0x8000 else 0)" "- 0x3fff \<le> e" "e \<le> 0x4000"
  shows "exponent r = e" "getsign r = neg"
proof -
  define x where "x = (word_of_int (e + 0x3fff) :: u16)"
  have ux: "uint x = e + 0x3fff" unfolding x_def uint_word_of_int using assms(2, 3) by simp
  have hi: "\<not> bit x n" if "15 \<le> n" for n
  proof
    assume "bit x n"
    then have "bit (uint x) n" by (simp add: bit_unsigned_iff bit_imp_possible_bit)
    moreover have "take_bit 15 (uint x) = uint x" using ux assms(2, 3) by (intro take_bit_int_eq_self) auto
    ultimately show False using that by (metis bit_take_bit_iff not_less)
  qed
  have b: "bit (exp16 r) n \<longleftrightarrow> bit x n \<or> n = 15 \<and> neg" for n
  proof -
    have p: "(0x8000 :: u16) = 2 ^ 15" by simp
    have "bit (0x8000 :: u16) n \<longleftrightarrow> n = 15" unfolding p bit_exp_iff by auto
    then show ?thesis unfolding assms(1) x_def [symmetric] bit_or_iff by (cases neg) auto
  qed
  have "exp16 r AND 0x7fff = x"
  proof -
    have m: "(0x7fff :: u16) = mask 15" by (simp add: mask_eq_exp_minus_1)
    have "n < 15" if "bit x n" for n using hi [of n] that by linarith
    then show ?thesis unfolding m by (intro bit_word_eqI) (auto simp: bit_and_iff b bit_mask_iff)
  qed
  then show "exponent r = e" by (simp add: exponent_def ux)
  show "getsign r = neg" using hi [of 15] by (simp add: getsign_def b)
qed

lemma normal_tag:
  assumes "bit (sigh r) 31" "exponent r = e" "- 0x3ffe \<le> e" "e \<le> 0x3fff"
  shows "FPU_tagof r = TAG_Valid" "fnum_of r = Num (fval r)"
    "fval r = signed (getsign r) * real (unat (significand r)) * 2 powi (e - 63)"
proof -
  have ne: "exponent r \<noteq> EXP_UNDER" "exponent r \<noteq> EXP_OVER" using assms by auto
  then show "FPU_tagof r = TAG_Valid"
    using assms(1) and_bit31 [of "sigh r"] by (simp add: FPU_tagof_def Let_def exponent_eq_iff)
  show "fnum_of r = Num (fval r)" using ne assms(1) by (simp add: fnum_of_def)
  have "max (exponent r) (- 0x3ffe) = e" using assms by simp
  then show "fval r = signed (getsign r) * real (unat (significand r)) * 2 powi (e - 63)"
    by (simp only: fval_def)
qed

lemma normalize_no_excep_exact:
  assumes "normalize_no_excep r e neg = (tag, r')" "significand r \<noteq> 0" "- 0x3f00 \<le> e" "e \<le> 0x3fff"
  shows "tag = TAG_Valid \<and> FPU_tagof r' = TAG_Valid \<and> getsign r' = neg \<and> fnum_of r' = Num (fval r') \<and>
         fval r' = signed neg * real (unat (significand r)) * 2 powi (e - 63)"
proof -
  let ?x = "setexponent16 e r"
  obtain tag0 r1 where n: "FPU_normalize_nuo ?x = (tag0, r1)" by force
  have sx: "pair64 (sigh ?x) (sigl ?x) = significand r" by (simp add: significand_pair)
  obtain k where k: "tag0 = TAG_Valid" "bit (sigh r1) 31" "k \<le> 63"
      "unat (significand r1) = unat (significand r) * 2 ^ k" "exp16 r1 = word_of_int e - of_nat k"
    using FPU_normalize_nuo_correct [OF _ n, unfolded sx, folded significand_pair] assms(2)
    by (auto simp: setexponent16_def)
  have r': "r' = (if neg then setnegative (stdexp r1) else stdexp r1)" "tag = TAG_Valid"
    using assms(1) n k(1) by (auto simp: normalize_no_excep_def Let_def)
  have "exp16 r' = word_of_int (e - int k + 0x3fff) OR (if neg then 0x8000 else 0)"
    by (simp add: r'(1) setnegative_def stdexp_def addexponent_def k(5))
  from exp16_in_range [OF this] assms(3, 4) k(3)
  have e: "exponent r' = e - int k" "getsign r' = neg" by auto
  have sg: "sigh r' = sigh r1" "significand r' = significand r1"
    by (simp_all add: r'(1) setnegative_def stdexp_def addexponent_def significand_def)
  have "real (unat (significand r1)) * 2 powi (e - int k - 63) = real (unat (significand r)) * (2 ^ k * 2 powi (e - int k - 63))"
    unfolding k(4) by simp
  also have "\<dots> = real (unat (significand r)) * 2 powi (e - 63)" by (simp only: pow_shift)
  finally have v: "real (unat (significand r1)) * 2 powi (e - int k - 63) = real (unat (significand r)) * 2 powi (e - 63)" .
  have "bit (sigh r') 31" using k(2) sg by simp
  from normal_tag [OF this e(1)] assms(3, 4) k(3) r'(2) e(2) v sg(2) show ?thesis by (simp add: mult.assoc)
qed

lemma sint_magnitude:
  fixes v :: "'a::len word"
  shows "int (unat (if \<not> 0 < sint v then - v else v)) = \<bar>sint v\<bar>"
    and "signed (\<not> 0 < sint v) * \<bar>sint v\<bar> = sint v"
proof -
  define k where "k = sint v"
  have v: "v = word_of_int k" by (simp add: k_def)
  have "- (2 ^ (LENGTH('a) - 1)) \<le> k" "k < 2 ^ (LENGTH('a) - 1)"
    using sint_ge [of v] sint_lt [of v] by (simp_all add: k_def)
  moreover have "(2::int) ^ (LENGTH('a) - 1) < 2 ^ LENGTH('a)" by (intro power_strict_increasing) auto
  ultimately have lt: "\<bar>k\<bar> < 2 ^ LENGTH('a)" by linarith
  have w: "(if \<not> 0 < k then - v else v) = word_of_int \<bar>k\<bar>" by (auto simp: v)
  show "int (unat (if \<not> 0 < sint v then - v else v)) = \<bar>sint v\<bar>"
    unfolding k_def [symmetric] w using lt by (simp add: take_bit_int_eq_self unsigned_of_int)
  show "signed (\<not> 0 < sint v) * \<bar>sint v\<bar> = sint v" by (auto simp: signed_def)
qed

lemma zero_operand: "FPU_tagof CONST_Z = TAG_Zero" "fnum_of CONST_Z = Num 0"
  by (simp_all add: CONST_Z_def MAKE_REG_def FPU_tagof_def fnum_of_def exponent_def fval_def significand_def Let_def)

text \<open>A loaded integer register: tagged, and denoting the integer.\<close>

definition denotes :: "u32 \<Rightarrow> fpu_reg \<Rightarrow> int \<Rightarrow> bool" where
  "denotes tag r k \<longleftrightarrow> tag = FPU_tagof r \<and> fnum_of r = Num (of_int k)"

lemma normalize_int:
  fixes v :: "'a::len word"
  assumes "sint v \<noteq> 0" "0 \<le> e" "e \<le> 63"
    and "unat (significand r) = unat (if \<not> 0 < sint v then - v else v) * 2 ^ (63 - e)"
  shows "\<exists>tag r'. normalize_no_excep r (int e) (\<not> 0 < sint v) = (tag, r') \<and> denotes tag r' (sint v)"
proof -
  obtain tag r' where n: "normalize_no_excep r (int e) (\<not> 0 < sint v) = (tag, r')" by force
  define m where "m = unat (if \<not> 0 < sint v then - v else v)"
  have m: "int m = \<bar>sint v\<bar>" unfolding m_def by (rule sint_magnitude)
  have sg: "unat (significand r) = m * 2 ^ (63 - e)" using assms(4) by (simp add: m_def)
  have "m \<noteq> 0" using m assms(1) by auto
  then have "significand r \<noteq> 0" using sg by (metis mult_eq_0_iff power_not_zero unat_0 zero_neq_numeral)
  from normalize_no_excep_exact [OF n this] assms(3)
  have N: "tag = TAG_Valid" "FPU_tagof r' = TAG_Valid" "fnum_of r' = Num (fval r')"
    "fval r' = signed (\<not> 0 < sint v) * real (unat (significand r)) * 2 powi (int e - 63)" by auto
  have "(2::real) ^ (63 - e) * 2 powi (int e - 63) = 1"
  proof -
    have "(2::real) powi (int e - 63) = 1 / 2 ^ (63 - e)" using assms(3) by (auto simp: power_int_def nat_diff_distrib' field_simps)
    then show ?thesis by simp
  qed
  then have "fval r' = signed (\<not> 0 < sint v) * real m" unfolding N(4) sg by (simp add: mult.assoc)
  also have "\<dots> = of_int (signed (\<not> 0 < sint v) * int m)" by simp
  also have "\<dots> = of_int (sint v)" unfolding m by (simp only: sint_magnitude(2))
  finally show ?thesis using n N(1-3) by (simp add: denotes_def)
qed

lemma user_int_get4: "user_ok s a 4 \<Longrightarrow> user_int 4 s a = Some (sint (get4 s a))"
proof -
  assume u: "user_ok s a 4"
  then obtain bs where bs: "user_bytes s a 4 = Some bs" by (auto simp: user_ok_def)
  then have "length bs = 4" unfolding user_bytes_def by (rule mem_bytes_length)
  then obtain b0 b1 b2 b3 where b: "bs = [b0, b1, b2, b3]"
    by (auto simp: length_Suc_conv numeral_eq_Suc)
  have g: "get4 s a = le32 b0 b1 b2 b3" using get4_bytes u bs b by (simp add: user_ok_def)
  then have "bs = bytes32 (get4 s a)" by (simp only: b le32_bytes32)
  then show ?thesis using bs horner_bytes32 [of "get4 s a" "[]"] by (simp add: user_int_def sint_uint)
qed

lemma user_int_get2: "user_ok s a 2 \<Longrightarrow> user_int 2 s a = Some (sint (get2 s a))"
proof -
  assume u: "user_ok s a 2"
  then obtain bs where bs: "user_bytes s a 2 = Some bs" by (auto simp: user_ok_def)
  then have "length bs = 2" unfolding user_bytes_def by (rule mem_bytes_length)
  then obtain b0 b1 where b: "bs = [b0, b1]" by (auto simp: length_Suc_conv numeral_2_eq_2)
  have g: "get2 s a = le16 b0 b1" using get2_bytes u bs b by (simp add: user_ok_def)
  have "b0 = ucast (le16 b0 b1)" "b1 = ucast (drop_bit 8 (le16 b0 b1))"
    by (rule bit_word_eqI; auto simp: le16_def bit_simps)+
  then have "bs = [ucast (get2 s a), ucast (drop_bit 8 (get2 s a))]" by (simp add: b g)
  then show ?thesis using bs horner_bytes16 [of "get2 s a"] by (simp add: user_int_def sint_uint)
qed

lemma load_int32_exact:
  assumes "user_ok s a 4"
  shows "\<exists>tag r. FPU_load_int32 a s = Ret (tag, r) s \<and> denotes tag r (sint (get4 s a))"
proof (cases "get4 s a = 0")
  case True
  then show ?thesis using assms zero_operand by (simp add: FPU_load_int32_def user_ok_def denotes_def)
next
  case False
  define v where "v = get4 s a"
  let ?r = "\<lparr>sigl = 0, sigh = if \<not> 0 < sint v then - v else v, exp16 = 0\<rparr>"
  have "unat (significand ?r) = unat (if \<not> 0 < sint v then - v else v) * 2 ^ (63 - 31)"
    by (simp only: significand_pair unat_pair64 fpu_reg.simps) simp
  from normalize_int [of v 31 ?r, OF _ _ _ this] False
  obtain tag r where "normalize_no_excep ?r 31 (\<not> 0 < sint v) = (tag, r)" "denotes tag r (sint v)"
    by (auto simp: v_def signed_eq_0_iff)
  then show ?thesis
    using assms False by (cases "0 < sint v") (simp_all add: FPU_load_int32_def user_ok_def v_def Let_def)
qed

lemma load_int16_exact:
  assumes "user_ok s a 2"
  shows "\<exists>tag r. FPU_load_int16 a s = Ret (tag, r) s \<and> denotes tag r (sint (get2 s a))"
proof (cases "get2 s a = 0")
  case True
  then show ?thesis using assms zero_operand by (simp add: FPU_load_int16_def user_ok_def denotes_def)
next
  case False
  define v where "v = (scast (get2 s a) :: u32)"
  have sv: "sint v = sint (get2 s a)" unfolding v_def by (rule sint_up_scast) (simp add: is_up)
  then have nz: "sint v \<noteq> 0" "v \<noteq> 0" using False by (auto simp: signed_eq_0_iff)
  define w where "w = (if \<not> 0 < sint v then - v else v)"
  have "int (unat w) = \<bar>sint (get2 s a)\<bar>" unfolding w_def sv [symmetric] by (rule sint_magnitude)
  moreover have "\<bar>sint (get2 s a)\<bar> \<le> 2 ^ 15" using sint_ge [of "get2 s a"] sint_lt [of "get2 s a"] by simp
  ultimately have "int (unat w) \<le> int (2 ^ 15)" by simp
  then have "unat w \<le> 2 ^ 15" by (simp only: of_nat_le_iff)
  then have p: "unat (push_bit 16 w) = unat w * 2 ^ 16" by (simp add: push_bit_eq_mult unat_word_ariths)
  let ?r = "\<lparr>sigl = 0, sigh = push_bit 16 w, exp16 = 0\<rparr>"
  have "unat (significand ?r) = unat w * 2 ^ (63 - 15)"
    by (simp only: significand_pair unat_pair64 fpu_reg.simps p) simp
  from normalize_int [of v 15 ?r, folded w_def, OF nz(1) _ _ this]
  obtain tag r where "normalize_no_excep ?r 15 (\<not> 0 < sint v) = (tag, r)" "denotes tag r (sint v)"
    by (auto simp: w_def)
  then show ?thesis
    using assms nz sv
    by (cases "0 < sint v") (simp_all add: FPU_load_int16_def user_ok_def v_def [symmetric] w_def Let_def)
qed

lemma load_int64_exact:
  assumes "user_ok s a 8"
  shows "\<exists>tag r k. FPU_load_int64 a s = Ret tag (set_st 0 r s) \<and> denotes tag r k \<and> user_int 8 s a = Some k"
proof -
  obtain bs where bs: "user_bytes s a 8 = Some bs" using assms by (auto simp: user_ok_def)
  then have len: "length bs = 8" unfolding user_bytes_def by (rule mem_bytes_length)
  define l h where "l = le32 (bs ! 0) (bs ! 1) (bs ! 2) (bs ! 3)" and "h = le32 (bs ! 4) (bs ! 5) (bs ! 6) (bs ! 7)"
  define v where "v = pair64 h l"
  have "bs = bytes32 l @ bytes32 h"
    by (rule nth_equalityI) (auto simp: len l_def h_def le32_bytes32 less_Suc_eq numeral_eq_Suc)
  then have k: "user_int 8 s a = Some (sint v)"
    using bs horner_bytes32 [of l "bytes32 h"] horner_bytes32 [of h "[]"]
    by (simp add: user_int_def sint_uint v_def uint_pair64)
  have c: "copy_from_user 0 (fpu_m s) a 8 = (0, bs)"
    using assms bs copy_user_zeroing_mapped [of "m_mem (fpu_m s)" a 8 bs 0]
    by (simp add: copy_from_user_def copy_from_user_ll_def user_ok_def FPU_access_ok_def user_bytes_def)
  have run: "FPU_load_int64 a s =
      (if v = 0 then Ret TAG_Zero (set_st 0 CONST_Z s)
       else (let negative = \<not> 0 < sint v; w = (if negative then - v else v);
                 (tag, r) = normalize_no_excep (set_significand w (st s 0)) 63 negative in
             Ret tag (set_st 0 r s)))"
    using assms by (simp add: FPU_load_int64_def user_ok_def c l_def h_def v_def Let_def)
  show ?thesis
  proof (cases "v = 0")
    case True
    then show ?thesis using run k zero_operand by (auto simp: denotes_def)
  next
    case False
    then have nz: "sint v \<noteq> 0" by (simp add: signed_eq_0_iff)
    let ?r = "set_significand (if \<not> 0 < sint v then - v else v) (st s 0)"
    have "unat (significand ?r) = unat (if \<not> 0 < sint v then - v else v) * 2 ^ (63 - 63)" by simp
    from normalize_int [of v 63 ?r, OF nz _ _ this]
    obtain tag r where "normalize_no_excep ?r 63 (\<not> 0 < sint v) = (tag, r)" "denotes tag r (sint v)" by auto
    then show ?thesis using run k False by (cases "0 < sint v") (auto simp: Let_def)
  qed
qed

lemmas int_loads = load_int16_exact load_int32_exact load_int64_exact

section \<open>Properties\<close>

text \<open>
  C22: the integer stores \<^verbatim>\<open>fist\<close>/\<^verbatim>\<open>fistp\<close> of 16, 32 and 64 bits round correctly. For every register and every
  accessible destination, if the register is finite and the number rounded in the current mode fits, that
  number is stored in two's complement and the precision flag is raised exactly when the rounding was
  inexact; otherwise (too large, infinite, NaN or unsupported) invalid is raised, and the most negative
  integer is stored if it is masked and nothing is stored if it is not. The stack is never changed.
\<close>

theorem FPU_store_int_rounds:
  assumes "(n, store) \<in> {(2, FPU_store_int16), (4, FPU_store_int32), (8, FPU_store_int64)}" "user_ok s d n"
  shows "int_stored n r d s (store r (FPU_tagof r) d s)"
  using assms int_stores by auto

lemma demo_user_ok: "user_ok demo_fpu 0x100 4"
proof -
  have "user_bytes demo_fpu 0x100 4 = Some [0, 1, 2, 3]"
    by (simp add: user_bytes_def mem_bytes_4 demo_fpu_def demo_user_def)
  then show ?thesis by (simp add: user_ok_def FPU_access_ok_def access_ok_def demo_fpu_def demo_user_def)
qed

lemma demo_rounded: "rounded reg_2_5 demo_fpu = Some 2" "FPU_tagof reg_2_5 = TAG_Valid"
proof -
  have "fnum_of reg_2_5 = Num (5 / 2)"
    by (simp add: fnum_of_def fval_def reg_2_5_def MAKE_REG_def exponent_def getsign_def significand_def)
  then show "rounded reg_2_5 demo_fpu = Some 2"
    by (simp add: rounded_def demo_fpu_def round_ref_def round_even_def Let_def)
  show "FPU_tagof reg_2_5 = TAG_Valid" by (simp add: FPU_tagof_def reg_2_5_def MAKE_REG_def Let_def)
qed

theorem FPU_store_int_rounds_witness:
  "\<exists>s'. FPU_store_int32 reg_2_5 TAG_Valid 0x100 demo_fpu = Ret 1 s' \<and> user_int 4 s' 0x100 = Some 2"
  using FPU_store_int_rounds [of 4 FPU_store_int32 demo_fpu "0x100" reg_2_5] demo_user_ok demo_rounded
  by (auto simp: int_stored_def int_range_def)

text \<open>
  C23: the integer loads are exact: \<^verbatim>\<open>fild\<close> of 16, 32 and 64 bits from accessible memory delivers a register
  that denotes exactly the integer in memory (the most negative one included), with the tag that describes
  it, and no exception.
\<close>

theorem FPU_load_int_exact:
  assumes "user_ok s a n" "n = 2 \<or> n = 4 \<or> n = 8"
  shows "\<exists>k tag r. user_int n s a = Some k \<and> denotes tag r k \<and>
           (if n = 8 then FPU_load_int64 a s = Ret tag (set_st 0 r s)
            else (if n = 2 then FPU_load_int16 a s else FPU_load_int32 a s) = Ret (tag, r) s)"
  using assms int_loads [of s a] user_int_get2 [of s a] user_int_get4 [of s a] by fastforce

theorem FPU_load_int_exact_witness: "\<exists>tag r. FPU_load_int32 0x100 demo_fpu = Ret (tag, r) demo_fpu \<and> denotes tag r 0x03020100"
proof -
  have "user_int 4 demo_fpu 0x100 = Some 0x03020100"
    by (simp add: user_int_def user_bytes_def mem_bytes_4 demo_fpu_def demo_user_def)
  then show ?thesis using FPU_load_int_exact [of demo_fpu "0x100" 4] demo_user_ok by auto
qed

text \<open>Loading an integer and storing it again with the same width.\<close>

definition transfer_int :: "nat \<Rightarrow> u32 \<Rightarrow> u32 \<Rightarrow> fpu \<Rightarrow> int fres" where
  "transfer_int n a d s =
     (if n = 2 then fbind (FPU_load_int16 a s) (\<lambda>(tag, r). FPU_store_int16 r tag d)
      else if n = 4 then fbind (FPU_load_int32 a s) (\<lambda>(tag, r). FPU_store_int32 r tag d)
      else fbind (FPU_load_int64 a s) (\<lambda>tag s. FPU_store_int64 (st s 0) tag d s))"

lemma stored_exactly:
  assumes "int_stored n r d s res" "fnum_of r = Num (of_int k)" "k \<in> int_range n" "fval r = of_int k"
  shows "\<exists>s'. res = Ret 1 s' \<and> user_int n s' d = Some k \<and> invalid_flag s' = invalid_flag s \<and> precision_flag s' = precision_flag s"
proof -
  have "rounded r s = Some k" using assms(2) by (simp add: rounded_def round_ref_of_int)
  then show ?thesis using assms by (auto simp: int_stored_def)
qed

lemma denotes_fval: "denotes tag r k \<Longrightarrow> fval r = of_int k"
  by (auto simp: denotes_def fnum_of_def split: if_splits)

lemma user_int_range: "0 < n \<Longrightarrow> user_int n s a = Some k \<Longrightarrow> k \<in> int_range n"
  by (auto simp: user_int_def int_range_def signed_take_bit_int_less_exp signed_take_bit_int_greater_eq_minus_exp)

lemma set_st_frame [simp]: "user_ok (set_st i r s) d n = user_ok s d n" "user_bytes (set_st i r s) d n = user_bytes s d n"
  "st (set_st i r s) i = r" "invalid_flag (set_st i r s) = invalid_flag s" "precision_flag (set_st i r s) = precision_flag s"
  by (simp_all add: set_st_def user_ok_def user_bytes_def FPU_access_ok_def st_def top_reg_def invalid_flag_def precision_flag_def)

text \<open>
  C24: loading an integer and storing it back with the same width gives the same integer for every width
  and every value, in every rounding mode, and raises neither invalid nor precision.
\<close>

theorem int_load_store_roundtrip:
  assumes "user_ok s a n" "user_ok s d n" "n = 2 \<or> n = 4 \<or> n = 8"
  shows "\<exists>s'. transfer_int n a d s = Ret 1 s' \<and> user_int n s' d = user_int n s a \<and>
              invalid_flag s' = invalid_flag s \<and> precision_flag s' = precision_flag s"
proof -
  obtain k where k: "user_int n s a = Some k" using assms(1) by (auto simp: user_ok_def user_int_def)
  then have r: "k \<in> int_range n" using assms(3) by (intro user_int_range) auto
  consider "n = 2" | "n = 4" | "n = 8" using assms(3) by blast
  then show ?thesis
  proof cases
    case 1
    then obtain tag x where x: "FPU_load_int16 a s = Ret (tag, x) s" "denotes tag x k"
      using assms(1) int_loads(1) [of s a] user_int_get2 [of s a] k by auto
    then show ?thesis
      using stored_exactly [OF int_stores(1) [of s d x], of k] assms(2) r k denotes_fval [OF x(2)] 1
      by (auto simp: transfer_int_def fbind_def denotes_def)
  next
    case 2
    then obtain tag x where x: "FPU_load_int32 a s = Ret (tag, x) s" "denotes tag x k"
      using assms(1) int_loads(2) [of s a] user_int_get4 [of s a] k by auto
    then show ?thesis
      using stored_exactly [OF int_stores(2) [of s d x], of k] assms(2) r k denotes_fval [OF x(2)] 2
      by (auto simp: transfer_int_def fbind_def denotes_def)
  next
    case 3
    then obtain tag x where x: "FPU_load_int64 a s = Ret tag (set_st 0 x s)" "denotes tag x k"
      using assms(1) int_loads(3) [of s a] k by auto
    then show ?thesis
      using stored_exactly [OF int_stores(3) [of "set_st 0 x s" d x], of k] assms(2) r k denotes_fval [OF x(2)] 3
      by (auto simp: transfer_int_def fbind_def denotes_def)
  qed
qed

theorem int_load_store_roundtrip_witness:
  "\<exists>s'. transfer_int 4 0x100 0x100 demo_fpu = Ret 1 s' \<and> user_int 4 s' 0x100 = user_int 4 demo_fpu 0x100"
  using int_load_store_roundtrip [of demo_fpu "0x100" 4 "0x100"] demo_user_ok by auto

end
