(* ===== verification/Fpu_Float.thy ===== *)
theory Fpu_Float
  imports Fpu_Int
begin

text \<open>
  Double and single precision operands. The numbers the 64-bit and 32-bit patterns of IEEE 754 denote are
  the reference; the loads deliver them exactly, the stores deliver the register rounded to the format, and
  loading and storing a pattern gives the pattern back.
\<close>

section \<open>Reference: the patterns\<close>

definition double_exp :: "u32 \<Rightarrow> int" where
  "double_exp hi = uint (drop_bit 20 (hi AND 0x7ff00000))"

definition double_frac :: "u32 \<Rightarrow> u32 \<Rightarrow> nat" where
  "double_frac hi lo = unat (pair64 (hi AND 0xfffff) lo)"

definition double_num :: "u32 \<Rightarrow> u32 \<Rightarrow> fnum" where
  "double_num hi lo =
     (let neg = bit hi 31; e = double_exp hi; f = double_frac hi lo in
      if e = 2047 then (if f = 0 then Infinite neg else Not_a_number)
      else if e = 0 then Num (signed neg * real f * 2 powi (- 1074))
      else Num (signed neg * real (2 ^ 52 + f) * 2 powi (e - 1075)))"

lemma double_exp_range: "0 \<le> double_exp hi" "double_exp hi \<le> 2047"
proof -
  have m: "hi AND 0x7ff00000 = push_bit 20 (drop_bit 20 hi AND mask 11)"
  proof (rule bit_word_eqI)
    fix n
    have p: "(0x7ff00000 :: u32) = push_bit 20 (mask 11)" by (simp add: mask_eq_exp_minus_1 push_bit_eq_mult)
    show "bit (hi AND 0x7ff00000) n = bit (push_bit 20 (drop_bit 20 hi AND mask 11)) n"
      unfolding p by (auto simp: bit_simps)
  qed
  have "drop_bit 20 (hi AND 0x7ff00000) = take_bit 11 (drop_bit 20 hi)"
    unfolding m by (rule bit_word_eqI) (auto simp: bit_simps)
  then have "double_exp hi = take_bit 11 (uint (drop_bit 20 hi))"
    unfolding double_exp_def by (simp only: unsigned_take_bit_eq)
  then have "0 \<le> double_exp hi" "double_exp hi < 2 ^ 11" by (simp_all only: take_bit_nonnegative take_bit_int_less_exp)
  then show "0 \<le> double_exp hi" "double_exp hi \<le> 2047" by simp_all
qed

lemma frac_word: "unat (hi AND 0xfffff :: u32) < 2 ^ 20"
proof -
  have "(0xfffff :: u32) = mask 20" by (simp add: mask_eq_exp_minus_1)
  then have "unat (hi AND 0xfffff) = take_bit 20 (unat hi)"
    by (metis take_bit_eq_mask unsigned_take_bit_eq)
  then show ?thesis by (simp only: take_bit_nat_less_exp)
qed

lemma double_frac_lt: "double_frac hi lo < 2 ^ 52"
proof -
  have "unat (hi AND 0xfffff) * 2 ^ 32 + unat lo < (unat (hi AND 0xfffff) + 1) * 2 ^ 32" using unat_lt_32 [of lo] by simp
  also have "\<dots> \<le> 2 ^ 20 * 2 ^ 32" using frac_word [of hi] by (intro mult_right_mono) auto
  finally show ?thesis by (simp add: double_frac_def unat_pair64)
qed

text \<open>The shifted fraction, and the fraction with the integer bit.\<close>

lemma frac_shift:
  fixes hi lo :: u32
  defines "h \<equiv> push_bit 11 (hi AND 0xfffff) OR drop_bit 21 lo" and "l \<equiv> push_bit 11 lo"
  shows "unat (pair64 h l) = double_frac hi lo * 2 ^ 11"
    and "unat (pair64 (h OR 0x80000000) l) = (2 ^ 52 + double_frac hi lo) * 2 ^ 11"
    and "bit (h OR 0x80000000) 31"
proof -
  define m where "m = hi AND 0xfffff"
  have mb: "bit m n \<Longrightarrow> n < 20" for n
  proof -
    have p: "(0xfffff :: u32) = mask 20" by (simp add: mask_eq_exp_minus_1)
    show "bit m n \<Longrightarrow> n < 20" unfolding m_def p by (simp add: bit_simps)
  qed
  have hl: "pair64 h l = push_bit 11 (pair64 m lo)"
    unfolding h_def l_def m_def [symmetric]
    by (rule bit_word_eqI) (use mb in \<open>auto simp: pair64_def bit_simps\<close>)
  have lt: "unat (pair64 m lo) * 2 ^ 11 < 2 ^ 64" using double_frac_lt [of hi lo] by (simp add: double_frac_def m_def)
  show u: "unat (pair64 h l) = double_frac hi lo * 2 ^ 11"
    unfolding hl unat_push_bit_64 [OF lt] by (simp add: double_frac_def m_def)
  have b: "\<not> bit h 31" unfolding h_def m_def [symmetric] using mb [of 20] by (auto simp: bit_simps)
  have "h OR 0x80000000 = h + 0x80000000"
  proof -
    have "h AND 0x80000000 = 0" using b and_bit31 [of h] by blast
    then show ?thesis by (simp add: disjunctive_add_eq_or)
  qed
  moreover have "unat (h + 0x80000000) = unat h + 2 ^ 31"
    using b bit31_ge [of h] by (simp add: unat_word_ariths)
  ultimately show "unat (pair64 (h OR 0x80000000) l) = (2 ^ 52 + double_frac hi lo) * 2 ^ 11"
    using u by (simp add: unat_pair64 algebra_simps)
  show "bit (h OR 0x80000000) 31" by (simp add: bit_or_iff)
qed

section \<open>Loads\<close>

lemma setexponent16_or:
  "exp16 (setexponent16 (e OR (if neg then 0x8000 else 0)) r) = word_of_int e OR (if neg then 0x8000 else 0)"
  by (simp add: setexponent16_def of_int_or_eq)

lemma loaded_normal:
  fixes neg :: bool
  assumes "- 0x3ffe \<le> e" "e \<le> 0x3fff" "bit (sigh x) 31" "E = e + 0x3fff"
  defines "r \<equiv> setexponent16 (E OR (if neg then 0x8000 else 0)) x"
  shows "FPU_tagof r = TAG_Valid" "getsign r = neg" "exponent r = e"
    "fnum_of r = Num (signed neg * real (unat (significand x)) * 2 powi (e - 63))"
proof -
  have "exp16 r = word_of_int (e + 0x3fff) OR (if neg then 0x8000 else 0)"
    unfolding r_def assms(4) by (rule setexponent16_or)
  from exp16_in_range [OF this] assms(1, 2) show e: "exponent r = e" "getsign r = neg" by auto
  have sg: "bit (sigh r) 31" "significand r = significand x"
    using assms(3) by (simp_all add: r_def setexponent16_def significand_def)
  from normal_tag [OF sg(1) e(1) assms(1, 2)] show "FPU_tagof r = TAG_Valid"
    "fnum_of r = Num (signed neg * real (unat (significand x)) * 2 powi (e - 63))"
    by (simp_all only: e sg(2))
qed

lemma loaded_over:
  fixes x :: fpu_reg and neg :: bool
  defines "r \<equiv> setexponent16 ((EXP_OVER + EXTENDED_Ebias) OR (if neg then 0x8000 else 0)) x"
  shows "FPU_tagof r = TAG_Special" "getsign r = neg" "exponent r = EXP_OVER"
    "fnum_of r = (if sigh x = 0x80000000 \<and> sigl x = 0 then Infinite neg else Not_a_number)"
proof -
  have "exp16 r = word_of_int (EXP_OVER + 0x3fff) OR (if neg then 0x8000 else 0)"
    unfolding r_def by (rule setexponent16_or)
  from exp16_in_range [OF this] show e: "exponent r = EXP_OVER" "getsign r = neg" by auto
  have "exp16 r AND 0x7fff = 0x7fff" using e(1) exponent_eq_iff(2) [of r] by simp
  then show "FPU_tagof r = TAG_Special" by (simp add: FPU_tagof_def Let_def)
  show "fnum_of r = (if sigh x = 0x80000000 \<and> sigl x = 0 then Infinite neg else Not_a_number)"
    by (simp add: fnum_of_def e) (simp add: r_def setexponent16_def)
qed

lemma zero_signed:
  fixes neg :: bool
  defines "r \<equiv> setexponent16 (0 OR (if neg then 0x8000 else 0)) CONST_Z"
  shows "FPU_tagof r = TAG_Zero" "fnum_of r = Num 0" "getsign r = neg"
proof -
  have "exp16 r = word_of_int (- 0x3fff + 0x3fff) OR (if neg then 0x8000 else 0)"
    unfolding r_def by (simp add: setexponent16_def of_int_or_eq)
  from exp16_in_range [OF this] have e: "exponent r = EXP_UNDER" "getsign r = neg" by auto
  have sg: "sigh r = 0" "sigl r = 0" by (simp_all add: r_def setexponent16_def CONST_Z_def MAKE_REG_def)
  have "exp16 r AND 0x7fff = 0" using e(1) exponent_eq_iff(1) [of r] by simp
  then show "FPU_tagof r = TAG_Zero" by (simp add: FPU_tagof_def Let_def sg)
  show "fnum_of r = Num 0" by (simp add: fnum_of_def e fval_def significand_def sg)
  show "getsign r = neg" by (rule e)
qed

text \<open>The five kinds of pattern, and the register each is loaded as.\<close>

definition double_frac_reg :: "u32 \<Rightarrow> u32 \<Rightarrow> fpu_reg" where
  "double_frac_reg hi lo = \<lparr>sigl = push_bit 11 lo, sigh = push_bit 11 (hi AND 0xfffff) OR drop_bit 21 lo, exp16 = 0\<rparr>"

definition with_int_bit :: "fpu_reg \<Rightarrow> fpu_reg" where
  "with_int_bit r = r\<lparr>sigh := sigh r OR 0x80000000\<rparr>"

lemma double_frac_reg:
  "unat (significand (double_frac_reg hi lo)) = double_frac hi lo * 2 ^ 11"
  "unat (significand (with_int_bit (double_frac_reg hi lo))) = (2 ^ 52 + double_frac hi lo) * 2 ^ 11"
  "bit (sigh (with_int_bit (double_frac_reg hi lo))) 31"
  using frac_shift [of hi lo] by (simp_all add: significand_pair double_frac_reg_def with_int_bit_def)

lemma double_frac_0: "double_frac hi lo = 0 \<longleftrightarrow> hi AND 0xfffff = 0 \<and> lo = 0"
  by (simp add: double_frac_def unat_pair64 unat_eq_zero)

lemma FPU_load_double_run:
  assumes "FPU_access_ok s a 8" "hi = get4 s (a + 4)" "lo = get4 s a"
  shows "FPU_load_double a s =
     (let sign = (if bit hi 31 then 0x8000 else 0) in
      if double_exp hi = 2047 then
        (if double_frac hi lo = 0
         then Ret (TAG_Special, setexponent16 ((EXP_OVER + EXTENDED_Ebias) OR sign) \<lparr>sigl = 0, sigh = 0x80000000, exp16 = 0\<rparr>) s
         else Ret (TAG_Special, setexponent16 ((EXP_OVER + EXTENDED_Ebias) OR sign) (with_int_bit (double_frac_reg hi lo))) s)
      else if double_exp hi = 0 then
        (if double_frac hi lo = 0 then Ret (TAG_Zero, setexponent16 (0 OR sign) CONST_Z) s
         else denormal_load (double_frac_reg hi lo) (- 1022) (bit hi 31) s)
      else Ret (TAG_Valid, setexponent16 ((double_exp hi - 1023 + 0x3fff) OR sign) (with_int_bit (double_frac_reg hi lo))) s)"
proof -
  have b: "hi AND 0x80000000 \<noteq> 0 \<longleftrightarrow> bit hi 31" by (rule and_bit31)
  have e: "double_exp hi - 1023 + 0x3fff > 1023 + 0x3fff \<longleftrightarrow> double_exp hi = 2047"
    "double_exp hi - 1023 + 0x3fff < - 1022 + 0x3fff \<longleftrightarrow> double_exp hi = 0"
    using double_exp_range [of hi] by auto
  show ?thesis
    unfolding FPU_load_double_def Let_def assms(2, 3) [symmetric] b double_exp_def [symmetric] e double_frac_0
      double_frac_reg_def [symmetric] with_int_bit_def
    using assms(1) by simp
qed

lemma load_double_exact:
  assumes "FPU_access_ok s a 8" "hi = get4 s (a + 4)" "lo = get4 s a"
  shows "\<exists>tag r s'. FPU_load_double a s = Ret (tag, r) s' \<and> fnum_of r = double_num hi lo \<and> getsign r = bit hi 31 \<and>
     (if double_exp hi = 0 \<and> double_frac hi lo \<noteq> 0
      then s' = snd (denormal_operand s) \<and> tag = FPU_tagof r OR exc_if (\<not> masked CW_Denormal s)
      else s' = s \<and> tag = FPU_tagof r) \<and>
     FPU_tagof r = (if double_exp hi = 2047 then TAG_Special
                    else if double_exp hi = 0 \<and> double_frac hi lo = 0 then TAG_Zero else TAG_Valid)"
proof -
  note run = FPU_load_double_run [OF assms]
  consider "double_exp hi = 2047" "double_frac hi lo = 0" | "double_exp hi = 2047" "double_frac hi lo \<noteq> 0"
    | "double_exp hi = 0" "double_frac hi lo = 0" | "double_exp hi = 0" "double_frac hi lo \<noteq> 0"
    | "double_exp hi \<noteq> 0" "double_exp hi \<noteq> 2047" by fastforce
  then show ?thesis
  proof cases
    case 1
    then show ?thesis using run loaded_over by (simp add: double_num_def Let_def)
  next
    case 2
    have "\<not> (sigh (with_int_bit (double_frac_reg hi lo)) = 0x80000000 \<and> sigl (with_int_bit (double_frac_reg hi lo)) = 0)"
      using double_frac_reg(2) [of hi lo] 2(2) by (auto simp: significand_pair unat_pair64)
    then show ?thesis using run 2 loaded_over [of "bit hi 31" "with_int_bit (double_frac_reg hi lo)"]
      by (auto simp: double_num_def Let_def)
  next
    case 3
    then show ?thesis using run zero_signed [of "bit hi 31"] by (simp add: double_num_def Let_def)
  next
    case 4
    obtain tag r where n: "normalize_no_excep (double_frac_reg hi lo) (- 1022) (bit hi 31) = (tag, r)" by force
    have "significand (double_frac_reg hi lo) \<noteq> 0" using double_frac_reg(1) [of hi lo] 4(2) by (auto simp: unat_eq_zero)
    from normalize_no_excep_exact [OF n this]
    have N: "tag = TAG_Valid" "FPU_tagof r = TAG_Valid" "getsign r = bit hi 31" "fnum_of r = Num (fval r)"
      "fval r = signed (bit hi 31) * real (double_frac hi lo * 2 ^ 11) * 2 powi (- 1022 - 63)"
      unfolding double_frac_reg(1) by simp_all
    have "real (double_frac hi lo * 2 ^ 11) * 2 powi (- 1022 - 63) = real (double_frac hi lo) * (2 ^ 11 * 2 powi (- 1085))" by simp
    also have "(2::real) ^ 11 * 2 powi (- 1085) = 2 powi (- 1074)" using pow_shift [of 11 "- 1011"] by simp
    finally have "fval r = signed (bit hi 31) * real (double_frac hi lo) * 2 powi (- 1074)" unfolding N(5) by (simp only: mult.assoc)
    then show ?thesis
      using run 4 N n
      by (auto simp: denormal_load_def double_num_def denormal_operand_def exc_if_def Let_def)
  next
    case 5
    have "double_exp hi - 1023 + 0x3fff = (double_exp hi - 1023) + 0x3fff" by simp
    from loaded_normal [of "double_exp hi - 1023", OF _ _ double_frac_reg(3) this, of "bit hi 31" hi lo] double_exp_range [of hi]
    have L: "FPU_tagof (setexponent16 ((double_exp hi - 1023 + 0x3fff) OR (if bit hi 31 then 0x8000 else 0)) (with_int_bit (double_frac_reg hi lo))) = TAG_Valid"
      "getsign (setexponent16 ((double_exp hi - 1023 + 0x3fff) OR (if bit hi 31 then 0x8000 else 0)) (with_int_bit (double_frac_reg hi lo))) = bit hi 31"
      "fnum_of (setexponent16 ((double_exp hi - 1023 + 0x3fff) OR (if bit hi 31 then 0x8000 else 0)) (with_int_bit (double_frac_reg hi lo))) =
         Num (signed (bit hi 31) * real ((2 ^ 52 + double_frac hi lo) * 2 ^ 11) * 2 powi (double_exp hi - 1023 - 63))"
      unfolding double_frac_reg(2) by simp_all
    have "real ((2 ^ 52 + double_frac hi lo) * 2 ^ 11) * 2 powi (double_exp hi - 1023 - 63) =
          real (2 ^ 52 + double_frac hi lo) * (2 ^ 11 * 2 powi (double_exp hi - 1012 - int 11 - 63))" by simp
    also have "\<dots> = real (2 ^ 52 + double_frac hi lo) * 2 powi (double_exp hi - 1075)" by (simp only: pow_shift) simp
    finally show ?thesis using run 5 L by (simp add: double_num_def Let_def mult.assoc)
  qed
qed

section \<open>Stores\<close>

lemma user_bytes_split:
  assumes "user_bytes s a (m + n) = Some bs"
  shows "user_bytes s a m = Some (take m bs)" "user_bytes s (a + of_nat m) n = Some (drop m bs)"
proof -
  obtain xs ys where xy: "mem_bytes (m_mem (fpu_m s)) a m = Some xs" "mem_bytes (m_mem (fpu_m s)) (a + of_nat m) n = Some ys" "bs = xs @ ys"
    using assms by (auto simp: user_bytes_def mem_bytes_add split: option.splits)
  moreover have "length xs = m" using xy(1) by (rule mem_bytes_length)
  ultimately show "user_bytes s a m = Some (take m bs)" "user_bytes s (a + of_nat m) n = Some (drop m bs)"
    by (simp_all add: user_bytes_def)
qed

lemma put_double_mapped:
  assumes "user_ok s d 8"
  shows "\<exists>s' bs. put_double neg l0 l1 d s = Ret 1 s' \<and> s' = put_list bs d s \<and> get4 s' d = l0 \<and>
                 get4 s' (d + 4) = (if neg then l1 OR 0x80000000 else l1) \<and> user_ok s' d 8"
proof -
  define h where "h = (if neg then l1 OR 0x80000000 else l1)"
  define s' where "s' = put_list (bytes32 l0 @ bytes32 h) d s"
  have len: "length (bytes32 l0 @ bytes32 h) = 8" by simp
  have ok: "FPU_access_ok s d 8" "user_bytes s d 8 \<noteq> None" using assms by (simp_all add: user_ok_def)
  have "put4 h (d + 4) (put4 l0 d s) = s'"
    using put_list_append [of "bytes32 l0" "bytes32 h" s d] ok len by (simp add: put_lists s'_def)
  then have run: "put_double neg l0 l1 d s = Ret 1 s'" using ok by (simp add: put_double_def h_def)
  have b: "user_bytes s' d 8 = Some (bytes32 l0 @ bytes32 h)"
    using put_list_bytes(1) [of "bytes32 l0 @ bytes32 h" s d] ok len by (simp add: s'_def)
  have "user_bytes s' d 4 = Some (bytes32 l0)" "user_bytes s' (d + 4) 4 = Some (bytes32 h)"
    using user_bytes_split [of s' d 4 4] b by simp_all
  moreover have "FPU_access_ok s' d 4" "FPU_access_ok s' (d + 4) 4"
    using FPU_access_ok_part [of s d 8 0 4] FPU_access_ok_part [of s d 8 4 4] ok by (simp_all add: s'_def)
  ultimately have "get4 s' d = l0" "get4 s' (d + 4) = h" using get4_bytes32 by blast+
  moreover have "user_ok s' d 8" using b ok(1) by (simp add: user_ok_def s'_def)
  ultimately show ?thesis using run s'_def h_def by blast
qed

text \<open>Reading the pattern of a normal number back.\<close>

lemma and_mask_word: "w AND mask n = take_bit n (w :: 'a::len word)"
  by (simp add: take_bit_eq_mask)

lemma unat_take_bit_word: "unat (take_bit n (w :: 'a::len word)) = unat w mod 2 ^ n"
  by (simp only: unsigned_take_bit_eq) (simp add: take_bit_eq_mod)

lemma double_sign [simp]: "double_exp (h OR 0x80000000) = double_exp h" "double_frac (h OR 0x80000000) l = double_frac h l"
  "bit (h OR 0x80000000) 31"
  by (simp_all add: double_exp_def double_frac_def bit_or_iff bit.conj_disj_distrib2)

lemma pattern_normal:
  fixes h l :: u32 and sig :: nat and e :: int
  assumes sig: "sig = unat (pair64 h l)" "2 ^ 63 \<le> sig" and e: "1 \<le> e" "e \<le> 2046"
  defines "l0 \<equiv> drop_bit 11 l OR push_bit 21 h"
    and "l1 \<equiv> drop_bit 11 h AND 0xfffff OR push_bit 20 (word_of_int e AND 0x7ff)"
  shows "double_exp l1 = e" "double_frac l1 l0 = sig div 2 ^ 11 - 2 ^ 52" "\<not> bit l1 31"
proof -
  have m: "(0xfffff :: u32) = mask 20" "(0x7ff :: u32) = mask 11" "(0x7ff00000 :: u32) = push_bit 20 (mask 11)"
    by (simp_all add: mask_eq_exp_minus_1 push_bit_eq_mult)
  have "drop_bit 20 (l1 AND 0x7ff00000) = take_bit 11 (word_of_int e)"
    unfolding l1_def m by (rule bit_word_eqI) (auto simp: bit_simps)
  then have "double_exp l1 = uint (take_bit 11 (word_of_int e :: u32))" by (simp only: double_exp_def)
  also have "\<dots> = e" using e by (simp only: unsigned_take_bit_eq uint_word_of_int) (simp add: take_bit_eq_mod)
  finally show "double_exp l1 = e" .
  have f: "pair64 (l1 AND 0xfffff) l0 = take_bit 52 (drop_bit 11 (pair64 h l))"
    unfolding l1_def l0_def m by (rule bit_word_eqI) (auto simp: bit_simps pair64_def)
  have "sig div 2 ^ 11 < 2 ^ 53" using unat_lt_64 [of "pair64 h l"] by (simp add: sig less_mult_imp_div_less)
  moreover have "2 ^ 52 \<le> sig div 2 ^ 11" using sig(2) by (simp add: less_eq_div_iff_mult_less_eq)
  ultimately have "sig div 2 ^ 11 mod 2 ^ 52 = sig div 2 ^ 11 - 2 ^ 52" by (simp add: mod_if)
  then show "double_frac l1 l0 = sig div 2 ^ 11 - 2 ^ 52"
    unfolding double_frac_def f unat_take_bit_word unat_drop_bit_div sig(1) [symmetric] .
  show "\<not> bit l1 31" unfolding l1_def m by (simp add: bit_simps)
qed

lemma sigl_low: "unat (sigl r AND 0x7ff) = unat (significand r) mod 2 ^ 11"
proof -
  have m: "(0x7ff :: u32) = mask 11" by (simp add: mask_eq_exp_minus_1)
  have "unat (significand r) mod 2 ^ 11 = unat (sigl r) mod 2 ^ 11"
    unfolding significand_pair unat_pair64 by (rule low_part_mod) simp
  then show ?thesis unfolding m and_mask_word unat_take_bit_word by simp
qed

lemma sigl_inexact: "sigl r AND 0x7ff \<noteq> 0 \<longleftrightarrow> unat (significand r) mod 2 ^ 11 \<noteq> 0"
  using sigl_low [of r] by (metis unat_eq_zero)

lemma bit_significand: "n < 32 \<Longrightarrow> bit (sigl r) n \<longleftrightarrow> odd (unat (significand r) div 2 ^ n)"
proof -
  assume n: "n < 32"
  have "bit (significand r) n \<longleftrightarrow> bit (sigl r) n" using n by (auto simp: significand_def bit_simps)
  moreover have "bit (unat (significand r)) n \<longleftrightarrow> bit (significand r) n"
    using n bit_unsigned_iff [of "significand r" n, where 'a = nat] by simp
  ultimately show ?thesis by (simp add: bit_iff_odd)
qed

lemma increment_double_inc:
  assumes "sigl r AND 0x7ff \<noteq> 0" and v: "v = unat (significand r)"
  shows "increment_double r s = round_inc (control_word s AND CW_RC) (getsign r) v 11"
proof -
  define x where "x = v mod 2 ^ 11"
  have x: "unat (sigl r AND 0x7ff) = x" by (simp only: sigl_low v x_def)
  have nz: "x \<noteq> 0" using assms sigl_inexact [of r] by (simp add: x_def)
  have gt: "sigl r AND 0x7ff > 0x400 \<longleftrightarrow> 2 ^ 11 < 2 * x" unfolding word_less_nat_alt x by simp
  have "sigl r AND 0xc00 = 0xc00 \<longleftrightarrow> bit (sigl r) 10 \<and> bit (sigl r) 11"
  proof -
    have c: "(0xc00 :: u32) = 2 ^ 10 OR 2 ^ 11" by simp
    have "sigl r AND 0xc00 = 0xc00 \<longleftrightarrow> (\<forall>n. bit (0xc00 :: u32) n \<longrightarrow> bit (sigl r) n)"
      by (auto simp: bit_eq_iff bit_and_iff)
    also have "\<dots> \<longleftrightarrow> bit (sigl r) 10 \<and> bit (sigl r) 11" unfolding c bit_or_iff bit_exp_iff by (auto dest: spec [of _ 10] spec [of _ 11])
    finally show ?thesis .
  qed
  also have "\<dots> \<longleftrightarrow> 2 ^ 10 \<le> x \<and> odd (v div 2 ^ 11)"
  proof -
    have "x div 2 ^ 10 = v div 2 ^ 10 mod 2"
    proof -
      have "x = 2 ^ 10 * (v div 2 ^ 10 mod 2) + v mod 2 ^ 10"
        unfolding x_def using mod_mult2_eq [of v "2 ^ 10" 2] by simp
      then show ?thesis by simp
    qed
    then have "odd (v div 2 ^ 10) \<longleftrightarrow> odd (x div 2 ^ 10)" by simp
    moreover have "x < 2 ^ 11" unfolding x_def by simp
    then have "odd (x div 2 ^ 10) \<longleftrightarrow> 2 ^ 10 \<le> x"
    proof -
      have "x div 2 ^ 10 < 2" using \<open>x < 2 ^ 11\<close> by (simp add: less_mult_imp_div_less)
      moreover have "x div 2 ^ 10 = 0 \<longleftrightarrow> x < 2 ^ 10" by (simp add: div_eq_0_iff)
      ultimately show ?thesis by (cases "x div 2 ^ 10 = 0") auto
    qed
    ultimately show ?thesis unfolding bit_significand [of 10 r, simplified] bit_significand [of 11 r, simplified] v [symmetric] by simp
  qed
  finally have c: "sigl r AND 0xc00 = 0xc00 \<longleftrightarrow> 2 ^ 11 \<le> 2 * x \<and> odd (v div 2 ^ 11)" by simp
  show ?thesis
    unfolding increment_double_def round_inc_def Let_def gt c x_def [symmetric] using assms(1) nz by simp
qed

lemma unat_and_fffff800: "unat (w AND 0xfffff800 :: u32) = unat w div 2 ^ 11 * 2 ^ 11"
proof -
  have m: "(0xfffff800 :: u32) = NOT (mask 11)" by (simp add: mask_eq_exp_minus_1)
  have "w AND 0xfffff800 = push_bit 11 (drop_bit 11 w)"
    unfolding m by (rule bit_word_eqI) (auto simp: bit_simps)
  then have "unat (w AND 0xfffff800) = unat w div 2 ^ 11 * 2 ^ 11 mod 2 ^ 32"
    by (simp only: unsigned_push_bit_eq) (simp add: push_bit_eq_mult take_bit_eq_mod unat_drop_bit_div)
  moreover have "unat w div 2 ^ 11 * 2 ^ 11 < 2 ^ 32"
    using unat_lt_32 [of w] div_times_less_eq_dividend [of "unat w" "2 ^ 11"] by (rule le_less_trans [rotated])
  ultimately show ?thesis by simp
qed

lemma round_double_correct:
  assumes v: "v = unat (significand r)" and "bit (sigh r) 31" and e: "e = exponent r"
    and M: "M = v div 2 ^ 11 + of_bool (v mod 2 ^ 11 \<noteq> 0 \<and> inc)"
  shows "round_double r inc =
           (if M = 2 ^ 53 \<and> EXP_OVER \<le> e + 1 then None
            else Some (set_significand (if M = 2 ^ 53 then 2 ^ 63 else of_nat (M * 2 ^ 11)) r, if M = 2 ^ 53 then e + 1 else e))"
proof -
  define h l where "h = unat (sigh r)" and "l = unat (sigl r)"
  have hl: "h < 2 ^ 32" "l < 2 ^ 32" "2 ^ 31 \<le> h" using assms(2) unfolding h_def l_def bit31_ge by (simp_all only: unat_lt_32)
  have vhl: "v = h * 2 ^ 32 + l" by (simp add: v significand_pair unat_pair64 h_def l_def)
  define q where "q = l div 2 ^ 11"
  have q: "q < 2 ^ 21" "q * 2 ^ 11 \<le> l" using hl(2) by (simp_all add: q_def less_mult_imp_div_less)
  have vq: "v div 2 ^ 11 = h * 2 ^ 21 + q"
  proof -
    have "v = l + h * 2 ^ 21 * 2 ^ 11" by (simp add: vhl)
    then show ?thesis by (simp only: div_mult_self1) (simp add: q_def)
  qed
  have inex: "sigl r AND 0x7ff \<noteq> 0 \<longleftrightarrow> v mod 2 ^ 11 \<noteq> 0" unfolding v by (rule sigl_inexact)
  have tl: "unat (sigl r AND 0xfffff800) = q * 2 ^ 11" by (simp only: unat_and_fffff800 q_def l_def)
  have ss: "r\<lparr>sigh := b, sigl := a\<rparr> = set_significand w r" if "unat w = unat b * 2 ^ 32 + unat a" for a b w
  proof -
    have "w = pair64 b a" using that by (simp add: word_unat_eq_iff unat_pair64)
    then show ?thesis by (simp add: set_significand_def pair64_parts)
  qed
  have ss1: "r\<lparr>sigl := a\<rparr> = set_significand w r" if "unat w = unat (sigh r) * 2 ^ 32 + unat a" for a w
    using ss [OF that] by simp
  have Mlt: "M * 2 ^ 11 < 2 ^ 64" if "M \<noteq> 2 ^ 53"
  proof -
    have "v div 2 ^ 11 < 2 ^ 53" unfolding vq using hl q by simp
    then have "M < 2 ^ 53" using M that by (auto simp: of_bool_def split: if_splits)
    then show ?thesis by simp
  qed
  have un: "unat (of_nat (M * 2 ^ 11) :: u64) = M * 2 ^ 11" if "M \<noteq> 2 ^ 53"
    unfolding unat_of_nat using Mlt [OF that] by (intro mod_less) simp
  show ?thesis
  proof (cases "v mod 2 ^ 11 \<noteq> 0")
    case False
    then have "M = v div 2 ^ 11" "v div 2 ^ 11 * 2 ^ 11 = v" using M by auto
    moreover have "v div 2 ^ 11 \<noteq> 2 ^ 53" unfolding vq using hl q by simp
    moreover have "set_significand (significand r) r = r" by (simp add: set_significand_def significand_pair pair64_parts)
    ultimately show ?thesis using False inex e by (simp add: round_double_def v Let_def)
  next
    case True
    show ?thesis
    proof (cases inc)
      case False
      then have Mv: "M = v div 2 ^ 11" "M \<noteq> 2 ^ 53" using M hl q unfolding vq by simp_all
      have "unat (of_nat (M * 2 ^ 11) :: u64) = unat (sigh r) * 2 ^ 32 + unat (sigl r AND 0xfffff800)"
        unfolding un [OF Mv(2)] tl h_def [symmetric] unfolding Mv(1) vq by simp
      from ss1 [OF this] show ?thesis using True False inex Mv e by (simp add: round_double_def Let_def)
    next
      case inc: True
      then have Mv: "M = h * 2 ^ 21 + q + 1" using M True unfolding vq by simp
      have top: "0xfffff800 \<le> sigl r AND 0xfffff800 \<longleftrightarrow> q = 2 ^ 21 - 1" unfolding word_le_nat_alt tl using q by auto
      have big: "M = 2 ^ 53 \<longleftrightarrow> q = 2 ^ 21 - 1 \<and> sigh r = 0xffffffff"
      proof -
        have "sigh r = 0xffffffff \<longleftrightarrow> h = 2 ^ 32 - 1" unfolding h_def word_unat_eq_iff by simp
        then show ?thesis using Mv q hl by auto
      qed
      consider "M = 2 ^ 53" | "M \<noteq> 2 ^ 53" "q = 2 ^ 21 - 1" | "M \<noteq> 2 ^ 53" "q \<noteq> 2 ^ 21 - 1" by blast
      then show ?thesis
      proof cases
        case 1
        have "r\<lparr>sigh := 0x80000000, sigl := 0\<rparr> = set_significand (2 ^ 63) r" by (rule ss) simp
        then show ?thesis using 1 big top True inc inex e by (simp add: round_double_def Let_def)
      next
        case 2
        have "unat (sigh r + 1) = h + 1"
          using 2 big hl unfolding h_def by (simp add: unat_word_ariths word_unat_eq_iff)
        then have "r\<lparr>sigh := sigh r + 1, sigl := 0\<rparr> = set_significand (of_nat (M * 2 ^ 11)) r"
          using 2 Mv by (intro ss) (subst un [OF 2(1)], simp)
        then show ?thesis using 2 big top True inc inex e by (simp add: round_double_def Let_def)
      next
        case 3
        have "unat ((sigl r AND 0xfffff800) + 0x800) = q * 2 ^ 11 + 2 ^ 11"
          using 3(2) q tl by (simp add: unat_word_ariths)
        then have "r\<lparr>sigl := (sigl r AND 0xfffff800) + 0x800\<rparr> = set_significand (of_nat (M * 2 ^ 11)) r"
          using Mv by (intro ss1) (subst un [OF 3(1)], simp add: h_def)
        then show ?thesis using 3 big top True inc inex e by (simp add: round_double_def Let_def)
      qed
    qed
  qed
qed

text \<open>The flags: both ways of recording lost precision raise the flag and touch nothing else.\<close>

definition flag_rounding :: "bool \<Rightarrow> bool \<Rightarrow> fpu \<Rightarrow> fpu" where
  "flag_rounding loss up s = (if loss then (if up then set_precision_flag_up s else set_precision_flag_down s) else s)"

lemma flag_rounding_frame [simp]:
  "st_space (flag_rounding l u s) = st_space s" "fpu_tag_word (flag_rounding l u s) = fpu_tag_word s"
  "fpu_top (flag_rounding l u s) = fpu_top s" "fpu_m (flag_rounding l u s) = fpu_m s"
  "control_word (flag_rounding l u s) = control_word s"
  by (simp_all add: flag_rounding_def set_precision_flag_up_def set_precision_flag_down_def or_status_def clear_status_def)

lemma flag_rounding_flags:
  "precision_flag (flag_rounding l u s) \<longleftrightarrow> precision_flag s \<or> l" "invalid_flag (flag_rounding l u s) = invalid_flag s"
  by (auto simp: flag_rounding_def set_precision_flag_up_def set_precision_flag_down_def or_status_def clear_status_def
      precision_flag_def invalid_flag_def FPU_exception_def Let_def bit_simps)

lemma user_ok_flag_rounding [simp]: "user_ok (flag_rounding l u s) d n = user_ok s d n"
  by (simp add: user_ok_def user_bytes_def FPU_access_ok_def)

text \<open>The unit in the last place of the result, and the register as a rounded multiple of it.\<close>

definition double_ulp :: "fpu_reg \<Rightarrow> int" where
  "double_ulp r = max (exponent r) (- 1022) - 52"

definition double_rounded :: "fpu_reg \<Rightarrow> fpu \<Rightarrow> int" where
  "double_rounded r s = round_ref (control_word s AND CW_RC) (fval r / 2 powi (double_ulp r))"

definition double_stored :: "fpu_reg \<Rightarrow> u32 \<Rightarrow> fpu \<Rightarrow> int fres \<Rightarrow> bool" where
  "double_stored r d s res \<longleftrightarrow>
     (\<exists>s'. res = Ret 1 s' \<and> st_space s' = st_space s \<and> fpu_tag_word s' = fpu_tag_word s \<and> fpu_top s' = fpu_top s \<and>
        double_num (get4 s' (d + 4)) (get4 s' d) = Num (of_int (double_rounded r s) * 2 powi (double_ulp r)) \<and>
        (precision_flag s' \<longleftrightarrow> precision_flag s \<or> of_int (double_rounded r s) * 2 powi (double_ulp r) \<noteq> fval r))"

lemma scaled_value:
  assumes "e = exponent r" "- 1022 \<le> e" and v: "v = unat (significand r)"
  shows "double_ulp r = e - 52" "fval r / 2 powi (e - 52) = signed (getsign r) * (real v / 2 ^ 11)"
proof -
  show "double_ulp r = e - 52" using assms(1, 2) by (simp add: double_ulp_def)
  have "max e (- 0x3ffe) = e" using assms(2) by simp
  then have "fval r = signed (getsign r) * real v * 2 powi (e - 63)" unfolding fval_def assms(1) v by simp
  moreover have "(2::real) powi (e - 52) = 2 powi (e - 63) * 2 ^ 11"
    using pow_shift [of 11 "e + 11"] by (simp add: mult.commute)
  ultimately show "fval r / 2 powi (e - 52) = signed (getsign r) * (real v / 2 ^ 11)" by simp
qed

lemma rounded_magnitude:
  assumes "e = exponent r" "- 1022 \<le> e" "v = unat (significand r)"
    and M: "M = v div 2 ^ 11 + of_bool (round_inc (control_word s AND CW_RC) (getsign r) v 11)"
  shows "double_rounded r s = signed (getsign r) * int M" "of_int (double_rounded r s) * 2 powi (double_ulp r) = fval r \<longleftrightarrow> v mod 2 ^ 11 = 0"
proof -
  note S = scaled_value [OF assms(1-3)]
  show R: "double_rounded r s = signed (getsign r) * int M"
    unfolding double_rounded_def S M round_ref_nat ..
  have "of_int (double_rounded r s) * 2 powi (double_ulp r) = fval r \<longleftrightarrow> of_int (double_rounded r s) = fval r / 2 powi (e - 52)"
    unfolding S(1) by (simp add: field_simps)
  also have "\<dots> \<longleftrightarrow> real M = real v / 2 ^ 11" unfolding S(2) R by simp
  also have "\<dots> \<longleftrightarrow> v mod 2 ^ 11 = 0"
  proof -
    define b where "b = round_inc (control_word s AND CW_RC) (getsign r) v 11"
    define f where "f = real (v mod 2 ^ 11) / 2 ^ 11"
    have f: "f < 1" "f = 0 \<longleftrightarrow> v mod 2 ^ 11 = 0" unfolding f_def by (rule frac_parts)+
    have "real v / 2 ^ 11 = real (v div 2 ^ 11) + f" unfolding f_def nat_quotient_parts [of v 11] by simp
    then have "real M = real v / 2 ^ 11 \<longleftrightarrow> of_bool b = f" unfolding M b_def by simp
    moreover have "b \<Longrightarrow> f \<noteq> 0" unfolding b_def f(2) using round_inc_exact by blast
    ultimately show ?thesis using f by (cases b) auto
  qed
  finally show "of_int (double_rounded r s) * 2 powi (double_ulp r) = fval r \<longleftrightarrow> v mod 2 ^ 11 = 0" .
qed

lemma tagof_valid: "FPU_tagof r = TAG_Valid \<Longrightarrow> bit (sigh r) 31 \<and> - 0x3ffe \<le> exponent r \<and> exponent r \<le> 0x3fff"
  using exponent_range [of r] exponent_eq_iff [of r] and_bit31 [of "sigh r"]
  by (auto simp: FPU_tagof_def Let_def split: if_splits)

text \<open>
  The normal range: the 53-bit significand \<open>M\<close> the rounding leaves, its carry into the exponent, and when
  the result is too large for the format.
\<close>

lemma store_double_steps:
  assumes tag: "FPU_tagof r = TAG_Valid" and emin: "- 1022 \<le> exponent r"
  obtains M e' w where "double_rounded r s = signed (getsign r) * int M"
    "of_int (double_rounded r s) * 2 powi (double_ulp r) = fval r \<longleftrightarrow> unat (significand r) mod 2 ^ 11 = 0"
    "2 ^ 52 \<le> M" "M \<le> 2 ^ 53" "e' = (if M = 2 ^ 53 then exponent r + 1 else exponent r)"
    "unat w = (if M = 2 ^ 53 then 2 ^ 63 else M * 2 ^ 11)"
    "round_double r (increment_double r s) =
       (if M = 2 ^ 53 \<and> EXP_OVER \<le> exponent r + 1 then None else Some (set_significand w r, e'))"
    "\<bar>of_int (double_rounded r s)\<bar> * 2 powi (double_ulp r) < (2 powi 1024 :: real) \<longleftrightarrow> e' \<le> 1023"
proof -
  define v e rc where "v = unat (significand r)" and "e = exponent r" and "rc = control_word s AND CW_RC"
  define b where "b = round_inc rc (getsign r) v 11"
  define M where "M = v div 2 ^ 11 + of_bool b"
  define e' where "e' = (if M = 2 ^ 53 then e + 1 else e)"
  define w where "w = (if M = 2 ^ 53 then 2 ^ 63 else of_nat (M * 2 ^ 11) :: u64)"
  have msb: "bit (sigh r) 31" using tagof_valid [OF tag] by simp
  note R = rounded_magnitude [OF e_def emin [folded e_def] v_def, of M s, folded rc_def b_def, OF M_def]
  have ulp: "double_ulp r = e - 52" using scaled_value(1) [OF e_def emin [folded e_def] v_def] .
  have v: "2 ^ 63 \<le> v" "v < 2 ^ 64" using sig_bounds [OF msb] by (simp_all add: v_def sigval_def)
  have M52: "2 ^ 52 \<le> M" using v by (simp add: M_def less_eq_div_iff_mult_less_eq)
  have M53: "M \<le> 2 ^ 53" using v less_mult_imp_div_less [of v "2 ^ 53" "2 ^ 11"] by (cases b) (simp_all add: M_def)
  have inc: "M = v div 2 ^ 11 + of_bool (v mod 2 ^ 11 \<noteq> 0 \<and> increment_double r s)"
    using increment_double_inc [of r v s, OF _ v_def] sigl_inexact [of r] round_inc_exact [of v 11 rc "getsign r"]
    unfolding M_def b_def rc_def v_def by (auto simp del: power_numeral)
  have w: "unat w = (if M = 2 ^ 53 then 2 ^ 63 else M * 2 ^ 11)"
  proof -
    have "unat (of_nat (M * 2 ^ 11) :: u64) = M * 2 ^ 11" if "M \<noteq> 2 ^ 53"
      unfolding unat_of_nat using that M53 by (intro mod_less) simp
    then show ?thesis by (simp add: w_def)
  qed
  have fits: "real M * 2 powi (e - 52) < 2 powi 1024 \<longleftrightarrow> e' \<le> 1023"
  proof
    have lo: "2 powi e' \<le> real M * 2 powi (e - 52)"
    proof (cases "M = 2 ^ 53")
      case True
      then show ?thesis using pow_shift [of 53 "e + 64"] by (simp add: e'_def algebra_simps)
    next
      case False
      have "2 ^ 52 * 2 powi (e - 52) \<le> real M * 2 powi (e - 52)"
        using M52 by (intro mult_right_mono) (auto simp: of_nat_le_iff [symmetric] simp del: of_nat_le_iff)
      moreover have "(2::real) powi e = 2 ^ 52 * 2 powi (e - 52)" using pow_shift [of 52 "e + 63"] by simp
      ultimately have "2 powi e \<le> real M * 2 powi (e - 52)" by (simp only:)
      then show ?thesis using False by (simp add: e'_def)
    qed
    show "e' \<le> 1023" if lt: "real M * 2 powi (e - 52) < 2 powi 1024"
    proof (rule ccontr)
      assume "\<not> e' \<le> 1023"
      then have "(2::real) powi 1024 \<le> 2 powi e'" by (intro power_int_increasing) auto
      from le_less_trans [OF order_trans [OF this lo] lt] show False by simp
    qed
    show "real M * 2 powi (e - 52) < 2 powi 1024" if "e' \<le> 1023"
    proof -
      have "real M * 2 powi (e - 52) < 2 ^ 53 * 2 powi (e' - 52)"
      proof (cases "M = 2 ^ 53")
        case True
        have "(2::real) powi (e - 52) < 2 powi (e' - 52)" using True by (simp add: e'_def power_int_strict_increasing)
        then show ?thesis unfolding True by simp
      next
        case False
        then have "real M < 2 ^ 53" using M53 by (simp add: of_nat_less_iff [symmetric] del: of_nat_less_iff)
        then show ?thesis using False by (simp add: e'_def)
      qed
      also have "(2::real) ^ 53 * 2 powi (e' - 52) = 2 powi (e' + 1)" using pow_shift [of 53 "e' + 64"] by (simp add: add.commute)
      also have "\<dots> \<le> 2 powi 1024" using that by (intro power_int_increasing) auto
      finally show ?thesis .
    qed
  qed
  show thesis
  proof (rule that [OF R [unfolded v_def] M52 M53 e'_def [unfolded e_def] w])
    show "round_double r (increment_double r s) =
       (if M = 2 ^ 53 \<and> EXP_OVER \<le> exponent r + 1 then None else Some (set_significand w r, e'))"
      using round_double_correct [OF v_def msb e_def inc] unfolding w_def e'_def e_def by auto
    show "\<bar>of_int (double_rounded r s)\<bar> * 2 powi (double_ulp r) < (2 powi 1024 :: real) \<longleftrightarrow> e' \<le> 1023"
      unfolding fits [symmetric] R(1) ulp by (simp add: abs_mult)
  qed
qed

lemma store_double_normal:
  assumes ok: "user_ok s d 8" and tag: "FPU_tagof r = TAG_Valid" and emin: "- 1022 \<le> exponent r"
    and fits: "\<bar>of_int (double_rounded r s)\<bar> * 2 powi (double_ulp r) < (2 powi 1024 :: real)"
  shows "double_stored r d s (store_double_valid r tag0 d s)"
proof -
  obtain M e' w where S: "double_rounded r s = signed (getsign r) * int M"
    "of_int (double_rounded r s) * 2 powi (double_ulp r) = fval r \<longleftrightarrow> unat (significand r) mod 2 ^ 11 = 0"
    "2 ^ 52 \<le> M" "M \<le> 2 ^ 53" "e' = (if M = 2 ^ 53 then exponent r + 1 else exponent r)"
    "unat w = (if M = 2 ^ 53 then 2 ^ 63 else M * 2 ^ 11)"
    "round_double r (increment_double r s) =
       (if M = 2 ^ 53 \<and> EXP_OVER \<le> exponent r + 1 then None else Some (set_significand w r, e'))"
    "\<bar>of_int (double_rounded r s)\<bar> * 2 powi (double_ulp r) < (2 powi 1024 :: real) \<longleftrightarrow> e' \<le> 1023"
    by (rule store_double_steps [OF tag emin])
  have e': "e' \<le> 1023" using S(8) fits by simp
  have ulp: "double_ulp r = exponent r - 52" using emin by (simp add: double_ulp_def)
  have rd: "round_double r (increment_double r s) = Some (set_significand w r, e')" using S(5, 7) e' by auto
  have sw: "unat w div 2 ^ 11 = (if M = 2 ^ 53 then 2 ^ 52 else M)" "2 ^ 63 \<le> unat w" using S(3, 6) by simp_all
  let ?t = "set_significand w r"
  have st: "unat w = unat (pair64 (sigh ?t) (sigl ?t))" by (simp add: significand_pair [symmetric])
  define l0 l1 where "l0 = drop_bit 11 (sigl ?t) OR push_bit 21 (sigh ?t)"
    and "l1 = drop_bit 11 (sigh ?t) AND 0xfffff OR push_bit 20 (word_of_int (e' + 1023) AND 0x7ff)"
  have er: "1 \<le> e' + 1023" "e' + 1023 \<le> 2046" using e' emin by (simp_all add: S(5))
  note P = pattern_normal [OF st sw(2) er, folded l0_def l1_def]
  define x where "x \<longleftrightarrow> unat (significand r) mod 2 ^ 11 \<noteq> 0"
  define s1 where "s1 = flag_rounding x (increment_double r s) s"
  have run: "store_double_valid r tag0 d s = put_double (getsign r) l0 l1 d s1"
    using emin e' unfolding store_double_valid_def rd Let_def l0_def l1_def s1_def flag_rounding_def
    by (simp add: sigl_inexact x_def)
  obtain s' bs where s': "put_double (getsign r) l0 l1 d s1 = Ret 1 s'" "s' = put_list bs d s1" "get4 s' d = l0"
      "get4 s' (d + 4) = (if getsign r then l1 OR 0x80000000 else l1)"
    using put_double_mapped [of s1 d "getsign r" l0 l1] ok by (auto simp: s1_def)
  have "double_num (get4 s' (d + 4)) (get4 s' d) = Num (signed (getsign r) * (real (unat w div 2 ^ 11) * 2 powi (e' - 52)))"
    using P er sw S(3) unfolding s'(3, 4) by (cases "getsign r") (simp_all add: double_num_def Let_def)
  also have "real (unat w div 2 ^ 11) * 2 powi (e' - 52) = real M * 2 powi (exponent r - 52)"
    unfolding sw(1) S(5) using pow_shift [of 1 "exponent r + 12"] by (simp add: algebra_simps)
  finally have num: "double_num (get4 s' (d + 4)) (get4 s' d) = Num (of_int (double_rounded r s) * 2 powi (double_ulp r))"
    unfolding S(1) ulp by (simp add: mult.assoc)
  have "precision_flag s' \<longleftrightarrow> precision_flag s \<or> of_int (double_rounded r s) * 2 powi (double_ulp r) \<noteq> fval r"
    unfolding S(2) using flag_rounding_flags(1) [of x "increment_double r s" s]
    by (simp add: s'(2) s1_def precision_flag_def x_def)
  then show ?thesis unfolding double_stored_def run s'(1) using num by (simp add: s'(2) s1_def)
qed

text \<open>
  A result too large for the format: the high word becomes that of infinity, but the low word keeps the low
  bits of the significand.
\<close>

lemma store_double_too_large:
  assumes ok: "user_ok s d 8" and tag: "FPU_tagof r = TAG_Valid"
    and big: "2 powi 1024 \<le> \<bar>of_int (double_rounded r s)\<bar> * (2 powi (double_ulp r) :: real)"
    and emin: "- 1022 \<le> exponent r" and mask: "masked CW_Overflow s" "masked CW_Precision s"
  shows "\<exists>s'. store_double_valid r tag0 d s = Ret 1 s' \<and>
              double_num (get4 s' (d + 4)) (get4 s' d) =
                (if nat \<bar>double_rounded r s\<bar> mod 2 ^ 32 = 0 then Infinite (getsign r) else Not_a_number)"
proof -
  obtain M e' w where S: "double_rounded r s = signed (getsign r) * int M"
    "of_int (double_rounded r s) * 2 powi (double_ulp r) = fval r \<longleftrightarrow> unat (significand r) mod 2 ^ 11 = 0"
    "2 ^ 52 \<le> M" "M \<le> 2 ^ 53" "e' = (if M = 2 ^ 53 then exponent r + 1 else exponent r)"
    "unat w = (if M = 2 ^ 53 then 2 ^ 63 else M * 2 ^ 11)"
    "round_double r (increment_double r s) =
       (if M = 2 ^ 53 \<and> EXP_OVER \<le> exponent r + 1 then None else Some (set_significand w r, e'))"
    "\<bar>of_int (double_rounded r s)\<bar> * 2 powi (double_ulp r) < (2 powi 1024 :: real) \<longleftrightarrow> e' \<le> 1023"
    by (rule store_double_steps [OF tag emin])
  have e': "\<not> e' \<le> 1023" using S(8) big by (simp add: not_less)
  let ?t = "set_significand w r"
  define l0 where "l0 = drop_bit 11 (sigl ?t) OR push_bit 21 (sigh ?t)"
  define l where "l = (if M = 2 ^ 53 \<and> EXP_OVER \<le> exponent r + 1 then 0 else l0)"
  define s1 where "s1 = set_precision_flag_up (FPU_exception EX_Overflow s)"
  have s1: "user_ok s1 d 8" "control_word s1 = control_word s"
    using ok by (simp_all add: s1_def user_ok_def user_bytes_def FPU_access_ok_def set_precision_flag_up_def or_status_def)
  have run: "store_double_valid r tag0 d s = put_double (getsign r) l 0x7ff00000 d s1"
    using emin e' S(7) mask s1(2)
    by (auto simp: store_double_valid_def store_double_overflow_def Let_def l_def l0_def s1_def masked_def)
  have "l0 = ucast (drop_bit 11 (pair64 (sigh ?t) (sigl ?t)))"
    unfolding l0_def by (rule bit_word_eqI) (auto simp: bit_simps pair64_def)
  then have "unat l0 = unat w div 2 ^ 11 mod 2 ^ 32"
    by (simp only: significand_pair [symmetric] significand_set unat_ucast_64_32 unat_drop_bit_div)
  then have "unat l = M mod 2 ^ 32" using S(6) by (simp add: l_def)
  then have l: "l = 0 \<longleftrightarrow> M mod 2 ^ 32 = 0" by (simp add: unat_eq_zero [symmetric])
  have M: "nat \<bar>double_rounded r s\<bar> = M" by (simp add: S(1) abs_mult)
  obtain s' where s': "put_double (getsign r) l 0x7ff00000 d s1 = Ret 1 s'" "get4 s' d = l"
      "get4 s' (d + 4) = (if getsign r then 0x7ff00000 OR 0x80000000 else 0x7ff00000)"
    using put_double_mapped [OF s1(1), of "getsign r" l "0x7ff00000"] by blast
  have "double_num (get4 s' (d + 4)) l = (if l = 0 then Infinite (getsign r) else Not_a_number)"
    unfolding s'(3) by (auto simp: double_num_def double_exp_def double_frac_0 Let_def)
  then show ?thesis using run s'(1, 2) unfolding M l by auto
qed

text \<open>Scaling by a power of two through the exponent.\<close>

lemma bit_8000: "bit (0x8000 :: u16) n \<longleftrightarrow> n = 15"
proof -
  have p: "(0x8000 :: u16) = 2 ^ 15" by simp
  show ?thesis unfolding p bit_exp_iff by auto
qed

lemma exp16_decomp: "exp16 r = word_of_int (exponent r + 0x3fff) OR (if getsign r then 0x8000 else 0)"
proof -
  have e: "word_of_int (exponent r + 0x3fff) = exp16 r AND 0x7fff" by (simp add: exponent_def)
  have p: "(0x7fff :: u16) = mask 15" by (simp add: mask_eq_exp_minus_1)
  show ?thesis
    unfolding e getsign_def p
    by (rule bit_word_eqI) (auto simp: bit_and_iff bit_or_iff bit_mask_iff bit_8000 less_Suc_eq numeral_eq_Suc)
qed

lemma addexponent_scales:
  assumes "- 0x3fff \<le> exponent r + k" "exponent r + k \<le> 0x4000"
  shows "exponent (addexponent k r) = exponent r + k" "getsign (addexponent k r) = getsign r"
    "significand (addexponent k r) = significand r"
proof -
  have plus: "word_of_int x OR (if neg then 0x8000 else 0) = word_of_int x + (if neg then 0x8000 else 0 :: u16)"
    if "0 \<le> x" "x < 2 ^ 15" for x neg
  proof -
    have p: "(0x8000 :: u16) = 2 ^ 15" by simp
    have "\<not> bit (word_of_int x :: u16) 15"
    proof -
      have "take_bit 15 x = x" using that by (simp add: take_bit_int_eq_self)
      then have "\<not> bit x 15" by (metis bit_take_bit_iff less_irrefl)
      then show ?thesis by (simp add: bit_word_of_int_iff)
    qed
    then have "word_of_int x AND (0x8000 :: u16) = 0" unfolding p by (simp only: and_exp_eq_0_iff_not_bit not_False_eq_True)
    then show ?thesis by (auto simp: disjunctive_add_eq_or)
  qed
  have "exp16 (addexponent k r) = word_of_int (exponent r + 0x3fff) + (if getsign r then 0x8000 else 0) + word_of_int k"
    using plus [of "exponent r + 0x3fff" "getsign r"] exponent_range [of r] exp16_decomp [of r]
    by (simp add: addexponent_def)
  also have "\<dots> = word_of_int (exponent r + k + 0x3fff) + (if getsign r then 0x8000 else 0)" by simp
  also have "\<dots> = word_of_int (exponent r + k + 0x3fff) OR (if getsign r then 0x8000 else 0)"
    using plus [of "exponent r + k + 0x3fff" "getsign r"] assms by simp
  finally have E: "exp16 (addexponent k r) = word_of_int (exponent r + k + 0x3fff) OR (if getsign r then 0x8000 else 0)" .
  show "exponent (addexponent k r) = exponent r + k" "getsign (addexponent k r) = getsign r"
    using exp16_in_range [OF E assms] by auto
  show "significand (addexponent k r) = significand r" by (simp add: addexponent_def significand_def)
qed

lemma double_num_signed:
  assumes "\<not> bit h 31"
  shows "double_exp h = 0 \<Longrightarrow> double_num (if neg then h OR 0x80000000 else h) l = Num (signed neg * real (double_frac h l) * 2 powi (- 1074))"
    and "double_exp h \<noteq> 0 \<Longrightarrow> double_exp h \<noteq> 2047 \<Longrightarrow> double_num (if neg then h OR 0x80000000 else h) l =
           Num (signed neg * real (2 ^ 52 + double_frac h l) * 2 powi (double_exp h - 1075))"
  using assms by (cases neg; simp add: double_num_def Let_def)+

lemma pattern_small:
  fixes h l :: u32
  assumes sig: "sig = unat (pair64 h l)" "sig \<le> 2 ^ 52"
  shows "double_num (if neg then h OR 0x80000000 else h) l = Num (signed neg * real sig * 2 powi (- 1074))"
proof -
  have h: "unat h \<le> 2 ^ 20" using sig by (simp add: unat_pair64)
  have "double_num (if neg then h OR 0x80000000 else h) l = Num (signed neg * real sig * 2 powi (- 1074))"
    if nb: "\<not> bit h 31" "double_exp h = 0 \<and> double_frac h l = sig \<or> double_exp h = 1 \<and> 2 ^ 52 + double_frac h l = sig"
    using nb(2)
  proof
    assume "double_exp h = 1 \<and> 2 ^ 52 + double_frac h l = sig"
    moreover have "(1 :: int) - 1075 = - 1074" by simp
    ultimately show ?thesis using double_num_signed(2) [OF nb(1), of neg l] by (simp only:)
  qed (use double_num_signed(1) [OF nb(1)] in blast)
  moreover have "\<not> bit h 31" using h by (simp add: bit31_ge)
  moreover have "double_exp h = 0 \<and> double_frac h l = sig \<or> double_exp h = 1 \<and> 2 ^ 52 + double_frac h l = sig"
  proof (cases "unat h = 2 ^ 20")
    case True
    then have "h = 0x100000" by (simp add: word_unat_eq_iff)
    then show ?thesis using sig(1) by (simp add: double_exp_def double_frac_def unat_pair64)
  next
    case False
    have m: "(0xfffff :: u32) = mask 20" "(0x7ff00000 :: u32) = push_bit 20 (mask 11)"
      by (simp_all add: mask_eq_exp_minus_1 push_bit_eq_mult)
    have "unat (take_bit 20 h) = unat h" using False h by (simp add: unat_take_bit_word)
    then have t: "take_bit 20 h = h" by (simp only: word_unat_eq_iff)
    have "h AND 0xfffff = h" unfolding m and_mask_word by (rule t)
    moreover have "h AND 0x7ff00000 = 0"
    proof -
      have "n < 20" if "bit h n" for n using t that by (metis bit_take_bit_iff)
      then show ?thesis unfolding m by (intro bit_word_eqI) (auto simp: bit_simps not_less [symmetric])
    qed
    ultimately show ?thesis using sig(1) by (simp add: double_exp_def double_frac_def)
  qed
  ultimately show ?thesis by blast
qed

lemma precision_flag_exception:
  "precision_flag (FPU_exception EX_Underflow s) = precision_flag s"
  "p \<in> {PRECISION_LOST_UP, PRECISION_LOST_DOWN} \<Longrightarrow> precision_flag (FPU_exception p s)"
  by (auto simp: precision_flag_def FPU_exception_def or_status_def clear_status_def Let_def bit_simps)

lemma store_double_tiny:
  assumes ok: "user_ok s d 8" and tag: "FPU_tagof r = TAG_Valid" and tiny: "exponent r < - 1022"
    and mask: "masked CW_Underflow s" "masked CW_Precision s"
  shows "double_stored r d s (store_double_valid r TAG_Valid d s)"
proof -
  define t0 where "t0 = addexponent (1022 + 52) r"
  define v k where "v = unat (significand r)" and "k = nat (63 - (exponent r + 1074))"
  have er: "- 0x3ffe \<le> exponent r" using tagof_valid [OF tag] by simp
  have t0: "exponent t0 = exponent r + 1074" "getsign t0 = getsign r" "significand t0 = significand r"
    using addexponent_scales [of r "1022 + 52"] er tiny by (simp_all add: t0_def)
  have ulp: "double_ulp r = - 1074" using tiny by (simp add: double_ulp_def)
  have k: "12 \<le> k" "(2::real) powi (exponent r + 1074 - 63) = 1 / 2 ^ k"
    using tiny by (simp_all add: k_def power_int_def field_simps)
  have "max (exponent r) (- 0x3ffe) = exponent r" using er by simp
  then have "fval r = signed (getsign r) * real v * 2 powi (exponent r - 63)" unfolding fval_def v_def by simp
  moreover have "2 powi (exponent r - 63) = (2 powi (exponent r + 1074 - 63)) * (2 powi (- 1074) :: real)"
    by (subst power_int_add [symmetric]) simp_all
  ultimately have val: "fval r / 2 powi (- 1074) = signed (getsign r) * (real v / 2 ^ k)" unfolding k(2) by simp
  have "max (exponent t0) (- 0x3ffe) = exponent r + 1074" using er by (simp add: t0)
  then have val0: "fval t0 = signed (getsign r) * (real v / 2 ^ k)" unfolding fval_def t0 v_def using k(2) by simp
  define n where "n = round_ref (control_word s AND CW_RC) (fval t0)"
  define N where "N = v div 2 ^ k + of_bool (round_inc (control_word s AND CW_RC) (getsign r) v k)"
  have n: "n = signed (getsign r) * int N" unfolding n_def val0 round_ref_nat N_def ..
  have dr: "double_rounded r s = n" unfolding double_rounded_def ulp val n_def val0 ..
  have N: "N \<le> 2 ^ 52"
  proof -
    have "v < 2 ^ 64" unfolding v_def by (rule unat_lt_64)
    also have "(2::nat) ^ 64 \<le> 2 ^ (52 + k)" using k(1) by (intro power_increasing) auto
    also have "(2::nat) ^ (52 + k) = 2 ^ 52 * 2 ^ k" by (rule power_add)
    finally have "v div 2 ^ k < 2 ^ 52" by (simp add: less_mult_imp_div_less)
    then show ?thesis by (auto simp: N_def of_bool_def)
  qed
  obtain p t where run: "FPU_round_to_int t0 TAG_Valid s = (p, t)" by force
  have small: "exponent t0 \<le> 63" using tiny by (simp add: t0)
  have bound: "\<bar>n\<bar> < 2 ^ 64" using N unfolding n by (simp add: abs_mult)
  from FPU_round_to_int_rounds [OF _ _ run, folded n_def] small bound
  have T: "signed (getsign r) * int (unat (significand t)) = n"
    "p = (if of_int n = fval t0 then 0 else if \<bar>fval t0\<bar> < of_int \<bar>n\<bar> then PRECISION_LOST_UP else PRECISION_LOST_DOWN)"
    unfolding t0 by auto
  have sg: "unat (significand t) = N"
  proof -
    have "signed (getsign r) * int (unat (significand t)) = signed (getsign r) * int N" using T(1) n by simp
    then have "int (unat (significand t)) = int N" by (simp only: mult_cancel_left signed_simps if_False simp_thms)
    then show ?thesis by (simp only: of_nat_eq_iff)
  qed
  have inexact: "p \<noteq> 0 \<longleftrightarrow> of_int n * 2 powi (- 1074) \<noteq> fval r"
  proof -
    have "fval r = fval t0 * 2 powi (- 1074)" using val unfolding val0 [symmetric] by (simp add: field_simps)
    then show ?thesis using T(2) by simp
  qed
  define uf where "uf \<longleftrightarrow> \<not> (sigh t = 0x00100000 \<and> sigl t = 0 \<and> sigl r AND 0x7ff \<noteq> 0)"
  define s1 where "s1 = (if p \<noteq> 0 then FPU_exception p (if uf then FPU_exception EX_Underflow s else s) else s)"
  have "store_double_valid r TAG_Valid d s = put_double (getsign r) (sigl t) (sigh t) d s1"
    unfolding store_double_valid_def store_double_denormal_def t0_def [symmetric] run Let_def prod.case
      uf_def [symmetric] s1_def
    using tiny mask by simp
  moreover obtain s' bs where s': "put_double (getsign r) (sigl t) (sigh t) d s1 = Ret 1 s'" "s' = put_list bs d s1"
      "get4 s' d = sigl t" "get4 s' (d + 4) = (if getsign r then sigh t OR 0x80000000 else sigh t)"
  proof -
    have "user_ok s1 d 8" using ok by (simp add: s1_def)
    from put_double_mapped [OF this, of "getsign r" "sigl t" "sigh t"] that show thesis by blast
  qed
  moreover have "double_num (get4 s' (d + 4)) (get4 s' d) = Num (of_int (double_rounded r s) * 2 powi (double_ulp r))"
  proof -
    have "N = unat (pair64 (sigh t) (sigl t))" by (simp add: sg [symmetric] significand_pair)
    from pattern_small [OF this N, of "getsign r"]
    have "double_num (get4 s' (d + 4)) (get4 s' d) = Num (signed (getsign r) * real N * 2 powi (- 1074))"
      unfolding s'(3, 4) .
    then show ?thesis unfolding dr n ulp by (simp only: of_int_mult of_int_of_nat_eq signed_simps)
  qed
  moreover have "precision_flag s' \<longleftrightarrow> precision_flag s \<or> of_int (double_rounded r s) * 2 powi (double_ulp r) \<noteq> fval r"
    unfolding dr ulp inexact [symmetric] using T(2) precision_flag_exception
    by (simp add: s'(2) s1_def) (simp add: precision_flag_def)
  ultimately show ?thesis unfolding double_stored_def by (simp add: s'(2) s1_def)
qed

end
