(* ===== verification/Fpu_Float_Props.thy ===== *)
theory Fpu_Float_Props
  imports Fpu_Float
begin

text \<open>
  The properties of the double precision operands: loads are exact, stores round correctly, a result that
  is too large is not always stored as infinity, and a number loaded and stored again is unchanged.
\<close>

text \<open>
  C25: \<^verbatim>\<open>FPU_load_double\<close> is exact: for every 64-bit pattern in accessible memory the register denotes the
  number IEEE 754 assigns to the pattern, with its sign, and carries the tag of its class; the state is
  unchanged, except that a denormal pattern raises the denormal exception, which the returned tag reports
  when it is not masked.
\<close>

theorem FPU_load_double_exact:
  assumes "user_ok s a 8"
  defines "hi \<equiv> get4 s (a + 4)" and "lo \<equiv> get4 s a"
  shows "\<exists>tag r s'. FPU_load_double a s = Ret (tag, r) s' \<and> fnum_of r = double_num hi lo \<and> getsign r = bit hi 31 \<and>
     (if double_exp hi = 0 \<and> double_frac hi lo \<noteq> 0
      then s' = snd (denormal_operand s) \<and> tag = FPU_tagof r OR exc_if (\<not> masked CW_Denormal s)
      else s' = s \<and> tag = FPU_tagof r) \<and>
     FPU_tagof r = (if double_exp hi = 2047 then TAG_Special
                    else if double_exp hi = 0 \<and> double_frac hi lo = 0 then TAG_Zero else TAG_Valid)"
  by (rule load_double_exact) (use assms(1) in \<open>simp_all add: user_ok_def hi_def lo_def\<close>)

lemma demo_user_ok8: "user_ok demo_fpu 0x100 8"
proof -
  have "user_bytes demo_fpu 0x100 (4 + 4) = Some [0, 1, 2, 3, 4, 5, 6, 7]"
    unfolding user_bytes_def mem_bytes_add mem_bytes_4 by (simp add: demo_fpu_def demo_user_def)
  then show ?thesis by (simp add: user_ok_def FPU_access_ok_def access_ok_def demo_fpu_def demo_user_def)
qed

lemma demo_words: "get4 demo_fpu 0x100 = 0x03020100" "get4 demo_fpu 0x104 = 0x07060504"
proof -
  have b: "user_bytes demo_fpu 0x100 4 = Some [0, 1, 2, 3]" "user_bytes demo_fpu 0x104 4 = Some [4, 5, 6, 7]"
    by (simp_all add: user_bytes_def mem_bytes_4 demo_fpu_def demo_user_def)
  have "FPU_access_ok demo_fpu 0x100 4" "FPU_access_ok demo_fpu 0x104 4"
    by (simp_all add: FPU_access_ok_def access_ok_def demo_fpu_def demo_user_def)
  from get4_bytes [OF this(1) b(1)] get4_bytes [OF this(2) b(2)]
  show "get4 demo_fpu 0x100 = 0x03020100" "get4 demo_fpu 0x104 = 0x07060504" by (simp_all add: le32_def)
qed

theorem FPU_load_double_exact_witness:
  "\<exists>tag r. FPU_load_double 0x100 demo_fpu = Ret (tag, r) demo_fpu \<and> fnum_of r = double_num 0x07060504 0x03020100"
  using FPU_load_double_exact [of demo_fpu "0x100"] demo_user_ok8 demo_words by (auto simp: double_exp_def)

text \<open>
  C26: \<^verbatim>\<open>FPU_store_double\<close> rounds correctly: with underflow and precision masked, a normal register whose rounded value is in the range of the
  format is stored as the pattern of that value. The value is the register rounded in the current mode to a
  multiple of the unit in the last place, which below the normal range is the fixed unit of the denormal
  numbers; the precision flag is raised exactly when the value differs from the register; and the stack is
  not changed.
\<close>

theorem FPU_store_double_rounds:
  assumes "user_ok s d 8" "FPU_tagof r = TAG_Valid" "masked CW_Underflow s" "masked CW_Precision s"
    "\<bar>of_int (double_rounded r s)\<bar> * 2 powi (double_ulp r) < (2 powi 1024 :: real)"
  shows "double_stored r d s (FPU_store_double r (FPU_tagof r) d s)"
  using assms store_double_normal [of s d r TAG_Valid] store_double_tiny [of s d r]
  by (cases "- 1022 \<le> exponent r") (simp_all add: FPU_store_double_def)

lemma demo_2_5: "double_ulp reg_2_5 = - 51" "double_rounded reg_2_5 demo_fpu = 5 * 2 ^ 50" "fval reg_2_5 = 5 / 2"
proof -
  show u: "double_ulp reg_2_5 = - 51" by (simp add: double_ulp_def reg_2_5_def MAKE_REG_def exponent_def)
  show f: "fval reg_2_5 = 5 / 2"
    by (simp add: fval_def reg_2_5_def MAKE_REG_def exponent_def getsign_def significand_def)
  have "fval reg_2_5 / 2 powi (- 51) = of_int (5 * 2 ^ 50)" unfolding f by simp
  then show "double_rounded reg_2_5 demo_fpu = 5 * 2 ^ 50" unfolding double_rounded_def u by (simp only: round_ref_of_int)
qed

theorem FPU_store_double_rounds_witness:
  "\<exists>s'. FPU_store_double reg_2_5 TAG_Valid 0x100 demo_fpu = Ret 1 s' \<and>
        double_num (get4 s' 0x104) (get4 s' 0x100) = Num (5 / 2) \<and> precision_flag s' = precision_flag demo_fpu"
proof -
  have "\<bar>of_int (double_rounded reg_2_5 demo_fpu)\<bar> * 2 powi (double_ulp reg_2_5) = (5 / 2 :: real)"
    unfolding demo_2_5 by simp
  moreover have "(5 / 2 :: real) < 2 powi 2" by simp
  moreover have "(2::real) powi 2 < 2 powi 1024" by (intro power_int_strict_increasing) auto
  ultimately have fits: "\<bar>of_int (double_rounded reg_2_5 demo_fpu)\<bar> * 2 powi (double_ulp reg_2_5) < (2 powi 1024 :: real)"
    by (simp only:)
  have "masked CW_Underflow demo_fpu" "masked CW_Precision demo_fpu" by (simp_all add: masked_def demo_fpu_def)
  from FPU_store_double_rounds [OF demo_user_ok8 demo_rounded(2) this fits]
  show ?thesis by (auto simp: double_stored_def demo_2_5 demo_rounded(2))
qed

text \<open>
  C27: the response to a masked overflow, with precision masked too. When the rounded value is too large for the format, the comment
  in \<^verbatim>\<open>FPU_store_double\<close> promises infinity, but only the high word of infinity is written: the low word
  keeps the low 32 bits of the rounded significand. The number in memory is infinity exactly when these
  bits are zero, and otherwise it is not a number.
\<close>

theorem FPU_store_double_overflow:
  assumes "user_ok s d 8" "FPU_tagof r = TAG_Valid" "masked CW_Overflow s" "masked CW_Precision s" "- 1022 \<le> exponent r"
    "2 powi 1024 \<le> \<bar>of_int (double_rounded r s)\<bar> * (2 powi (double_ulp r) :: real)"
  shows "\<exists>s'. FPU_store_double r (FPU_tagof r) d s = Ret 1 s' \<and>
              double_num (get4 s' (d + 4)) (get4 s' d) =
                (if nat \<bar>double_rounded r s\<bar> mod 2 ^ 32 = 0 then Infinite (getsign r) else Not_a_number)"
  using assms store_double_too_large [of s d r TAG_Valid] by (simp add: FPU_store_double_def)

definition reg_big :: fpu_reg where "reg_big = MAKE_REG False 0x2000 0x800 0x80000000"

theorem FPU_store_double_overflow_witness:
  "\<exists>s'. FPU_store_double reg_big TAG_Valid 0x100 demo_fpu = Ret 1 s' \<and>
        double_num (get4 s' 0x104) (get4 s' 0x100) = Not_a_number"
proof -
  have e: "exponent reg_big = 0x2000" "getsign reg_big = False" "unat (significand reg_big) = 2 ^ 63 + 2 ^ 11"
    by (simp_all add: reg_big_def MAKE_REG_def exponent_def getsign_def significand_def)
  have t: "FPU_tagof reg_big = TAG_Valid" by (simp add: FPU_tagof_def reg_big_def MAKE_REG_def Let_def)
  have m: "masked CW_Overflow demo_fpu" "masked CW_Precision demo_fpu" by (simp_all add: masked_def demo_fpu_def)
  have x: "double_rounded reg_big demo_fpu = 2 ^ 52 + 1"
    using rounded_magnitude(1) [OF e(1) [symmetric] _ e(3) [symmetric] refl, of demo_fpu]
    by (simp add: e(2) round_inc_def)
  have u: "double_ulp reg_big = 0x2000 - 52" by (simp add: double_ulp_def e)
  have "(2::real) powi 1024 \<le> 2 powi (0x2000 - 52)" by (intro power_int_increasing) auto
  also have "\<dots> = 1 * 2 powi (double_ulp reg_big)" unfolding u by simp
  also have "\<dots> \<le> \<bar>of_int (double_rounded reg_big demo_fpu)\<bar> * 2 powi (double_ulp reg_big)"
    by (intro mult_right_mono) (simp_all add: x)
  finally have big: "2 powi 1024 \<le> \<bar>of_int (double_rounded reg_big demo_fpu)\<bar> * (2 powi (double_ulp reg_big) :: real)" .
  from FPU_store_double_overflow [OF demo_user_ok8 t m _ big] show ?thesis by (simp add: e x t)
qed


section \<open>Loading and storing\<close>

definition transfer_double :: "u32 \<Rightarrow> u32 \<Rightarrow> fpu \<Rightarrow> int fres" where
  "transfer_double a d s = fbind (FPU_load_double a s) (\<lambda>(tag, r). FPU_store_double r tag d)"

text \<open>The number of a finite pattern has at most 53 significant bits in the range of the format.\<close>

lemma double_num_bits:
  assumes "double_exp hi \<noteq> 2047"
  obtains K q where "double_num hi lo = Num (signed (bit hi 31) * real K * 2 powi q)" "K < 2 ^ 53" "- 1074 \<le> q" "q \<le> 971"
    "K = 0 \<longleftrightarrow> double_exp hi = 0 \<and> double_frac hi lo = 0"
proof (cases "double_exp hi = 0")
  case True
  show thesis
    by (rule that [of "double_frac hi lo" "- 1074"]) (use True double_frac_lt [of hi lo] in \<open>auto simp: double_num_def Let_def\<close>)
next
  case False
  show thesis
    by (rule that [of "2 ^ 52 + double_frac hi lo" "double_exp hi - 1075"])
       (use False assms double_frac_lt [of hi lo] double_exp_range [of hi] in \<open>auto simp: double_num_def Let_def\<close>)
qed

lemma double_num_sign: "double_num h l = Num x \<Longrightarrow> x \<noteq> 0 \<Longrightarrow> bit h 31 \<longleftrightarrow> x < 0"
proof -
  assume x: "double_num h l = Num x" "x \<noteq> 0"
  then have "double_exp h \<noteq> 2047" by (auto simp: double_num_def Let_def split: if_splits)
  then obtain K q where K: "double_num h l = Num (signed (bit h 31) * real K * 2 powi q)" by (rule double_num_bits [of h l])
  define y :: real where "y = real K * 2 powi q"
  have "x = signed (bit h 31) * y" "0 \<le> y" using x K by (simp_all add: y_def)
  then show ?thesis using x(2) by (cases "bit h 31") auto
qed

lemma fval_lower:
  assumes "FPU_tagof r = TAG_Valid"
  shows "2 powi (exponent r) \<le> \<bar>fval r\<bar>"
proof -
  note t = tagof_valid [OF assms]
  define v where "v = unat (significand r)"
  have "2 ^ 63 \<le> v" using sig_bounds t by (simp add: v_def sigval_def)
  then have "(2::real) ^ 63 * 2 powi (exponent r - 63) \<le> real v * 2 powi (exponent r - 63)"
    by (intro mult_right_mono) (auto simp: of_nat_le_iff [symmetric] simp del: of_nat_le_iff)
  moreover have "\<bar>fval r\<bar> = real v * 2 powi (exponent r - 63)"
    using t unfolding fval_def v_def [symmetric] by (simp add: abs_mult)
  moreover have "(2::real) ^ 63 * 2 powi (exponent r - 63) = 2 powi (exponent r)"
    using pow_shift [of 63 "exponent r + 63"] by simp
  ultimately show ?thesis by (simp only:)
qed

text \<open>Such a number in a register is a multiple of the unit in the last place: the store is exact.\<close>

lemma double_exact:
  assumes tag: "FPU_tagof r = TAG_Valid" and x: "fval r = signed neg * real K * 2 powi q"
    and K: "K < 2 ^ 53" and q: "- 1074 \<le> q" "q \<le> 971"
  shows "of_int (double_rounded r s) * 2 powi (double_ulp r) = fval r"
    "\<bar>of_int (double_rounded r s)\<bar> * 2 powi (double_ulp r) < (2 powi 1024 :: real)"
proof -
  have up: "\<bar>fval r\<bar> < 2 powi (q + 53)"
  proof -
    have "real K * 2 powi q < 2 ^ 53 * 2 powi q"
      using K by (intro mult_strict_right_mono) (auto simp: of_nat_less_iff [symmetric] simp del: of_nat_less_iff)
    moreover have "(2::real) ^ 53 * 2 powi q = 2 powi (q + 53)" using pow_shift [of 53 "q + 116"] by (simp add: add.commute)
    ultimately show ?thesis unfolding x by (simp only: abs_mult signed_simps) simp
  qed
  have "exponent r < q + 53"
  proof (rule ccontr)
    assume "\<not> exponent r < q + 53"
    then have "(2::real) powi (q + 53) \<le> 2 powi (exponent r)" by (intro power_int_increasing) auto
    then show False using fval_lower [OF tag] up by simp
  qed
  then have u: "double_ulp r \<le> q" using q by (simp add: double_ulp_def)
  define n where "n = nat (q - double_ulp r)"
  have "(2::real) powi q = 2 ^ n * 2 powi (double_ulp r)"
    using pow_shift [of n "q + 63"] u by (simp add: n_def)
  then have m: "fval r = of_int (signed neg * int K * 2 ^ n) * 2 powi (double_ulp r)" unfolding x by simp
  then have "fval r / 2 powi (double_ulp r) = of_int (signed neg * int K * 2 ^ n)" by simp
  then have "double_rounded r s = signed neg * int K * 2 ^ n" unfolding double_rounded_def by (simp only: round_ref_of_int)
  then show e: "of_int (double_rounded r s) * 2 powi (double_ulp r) = fval r" using m by (simp only:)
  have "\<bar>of_int (double_rounded r s)\<bar> * 2 powi (double_ulp r) = \<bar>of_int (double_rounded r s) * (2 powi (double_ulp r) :: real)\<bar>"
    by (simp add: abs_mult)
  also have "\<dots> < 2 powi (q + 53)" unfolding e by (rule up)
  also have "\<dots> \<le> 2 powi 1024" using q by (intro power_int_increasing) auto
  finally show "\<bar>of_int (double_rounded r s)\<bar> * 2 powi (double_ulp r) < (2 powi 1024 :: real)" .
qed

lemma denormal_operand_user [simp]:
  "user_ok (snd (denormal_operand s)) d n = user_ok s d n" "masked c (snd (denormal_operand s)) = masked c s"
  "precision_flag (snd (denormal_operand s)) = precision_flag s"
  by (auto simp: denormal_operand_def masked_def precision_flag_def or_status_def user_ok_def user_bytes_def
      FPU_access_ok_def FPU_exception_def Let_def bit_simps)

text \<open>A finite nonzero number stored in double precision, and the constant patterns of zero and infinity.\<close>

lemma store_loaded_finite:
  assumes tv: "FPU_tagof r = TAG_Valid" and num: "fnum_of r = double_num hi lo" and e: "double_exp hi \<noteq> 2047"
    and nz: "\<not> (double_exp hi = 0 \<and> double_frac hi lo = 0)"
    and s: "user_ok s d 8" "masked CW_Underflow s" "masked CW_Precision s"
  shows "\<exists>s'. FPU_store_double r TAG_Valid d s = Ret 1 s' \<and> double_num (get4 s' (d + 4)) (get4 s' d) = double_num hi lo \<and>
              bit (get4 s' (d + 4)) 31 = bit hi 31 \<and> precision_flag s' = precision_flag s"
proof -
  obtain K q where K: "double_num hi lo = Num (signed (bit hi 31) * real K * 2 powi q)" "K < 2 ^ 53" "- 1074 \<le> q" "q \<le> 971"
      "K \<noteq> 0" by (rule double_num_bits [OF e, of lo]) (use nz in blast)
  have x: "fval r = signed (bit hi 31) * real K * 2 powi q"
    using num K(1) by (auto simp: fnum_of_def split: if_splits)
  note E = double_exact [OF tv x K(2-4), of s]
  have "double_stored r d s (FPU_store_double r TAG_Valid d s)"
    using store_double_normal [OF s(1) tv _ E(2), of TAG_Valid] store_double_tiny [OF s(1) tv _ s(2, 3)]
    by (cases "- 1022 \<le> exponent r") (simp_all add: FPU_store_double_def)
  then obtain s' where s': "FPU_store_double r TAG_Valid d s = Ret 1 s'"
      "double_num (get4 s' (d + 4)) (get4 s' d) = Num (fval r)" "precision_flag s' = precision_flag s"
    unfolding double_stored_def E(1) by auto
  have "double_num (get4 s' (d + 4)) (get4 s' d) = double_num hi lo" using s'(2) x K(1) by simp
  moreover have "fval r \<noteq> 0" using K(5) unfolding x by simp
  ultimately have "bit (get4 s' (d + 4)) 31 = bit hi 31"
    using double_num_sign [OF s'(2)] double_num_sign [of hi lo "fval r"] s'(2) by simp
  then show ?thesis using s' x K(1) by auto
qed

lemma put_double_const:
  assumes "user_ok s d 8" "h = 0 \<or> h = 0x7ff00000"
  shows "\<exists>s'. put_double neg 0 h d s = Ret 1 s' \<and>
              double_num (get4 s' (d + 4)) (get4 s' d) = (if h = 0 then Num 0 else Infinite neg) \<and>
              bit (get4 s' (d + 4)) 31 = neg \<and> precision_flag s' = precision_flag s"
proof -
  obtain s' bs where "put_double neg 0 h d s = Ret 1 s'" "s' = put_list bs d s" "get4 s' d = 0"
      "get4 s' (d + 4) = (if neg then h OR 0x80000000 else h)"
    using put_double_mapped [OF assms(1), of neg 0 h] by blast
  then show ?thesis
    using assms(2) by (cases neg) (auto simp: double_num_def double_exp_def double_frac_def pair64_def precision_flag_def Let_def)
qed

text \<open>
  C28: a number loaded from memory in double precision and stored again is unchanged, for every pattern that
  is not a NaN, with underflow, precision and denormal masked: denormal numbers, zeros of both signs and infinities included, in every rounding mode. The
  precision exception is not raised.
\<close>

theorem double_load_store_roundtrip:
  assumes "user_ok s a 8" "user_ok s d 8" "masked CW_Underflow s" "masked CW_Precision s" "masked CW_Denormal s"
    and "hi = get4 s (a + 4)" "lo = get4 s a" "double_num hi lo \<noteq> Not_a_number"
  shows "\<exists>s'. transfer_double a d s = Ret 1 s' \<and> double_num (get4 s' (d + 4)) (get4 s' d) = double_num hi lo \<and>
              bit (get4 s' (d + 4)) 31 = bit hi 31 \<and> precision_flag s' = precision_flag s"
proof -
  obtain tag r s1 where L: "FPU_load_double a s = Ret (tag, r) s1" "fnum_of r = double_num hi lo" "getsign r = bit hi 31"
      "s1 = s \<or> s1 = snd (denormal_operand s)" "tag = FPU_tagof r"
      "FPU_tagof r = (if double_exp hi = 2047 then TAG_Special
                      else if double_exp hi = 0 \<and> double_frac hi lo = 0 then TAG_Zero else TAG_Valid)"
    using load_double_exact [of s a hi lo] assms by (auto simp: user_ok_def exc_if_def split: if_splits)
  have s1: "user_ok s1 d 8" "masked CW_Underflow s1" "masked CW_Precision s1" "precision_flag s1 = precision_flag s"
    using L(4) assms by auto
  have run: "transfer_double a d s = FPU_store_double r (FPU_tagof r) d s1"
    by (simp add: transfer_double_def fbind_def L(1, 5))
  consider (inf) "double_exp hi = 2047" | (zero) "double_exp hi = 0" "double_frac hi lo = 0"
    | (fin) "double_exp hi \<noteq> 2047" "\<not> (double_exp hi = 0 \<and> double_frac hi lo = 0)" by auto
  then show ?thesis
  proof cases
    case fin
    then have "FPU_tagof r = TAG_Valid" using L(6) by simp
    from store_loaded_finite [OF this L(2) fin s1(1-3)] show ?thesis using run s1(4) \<open>FPU_tagof r = TAG_Valid\<close> by simp
  next
    case zero
    then have "FPU_store_double r (FPU_tagof r) d s1 = put_double (bit hi 31) 0 0 d s1"
      using L(3, 6) by (simp add: FPU_store_double_def)
    then show ?thesis
      using run zero s1(4) put_double_const [OF s1(1), of 0 "bit hi 31"] by (simp add: double_num_def Let_def)
  next
    case inf
    then have i: "double_num hi lo = Infinite (bit hi 31)"
      using assms(8) by (auto simp: double_num_def Let_def split: if_splits)
    have "FPU_Special r = TW_Infinity" using L(2) unfolding i by (auto simp: fnum_of_def FPU_Special_def split: if_splits)
    then have "FPU_store_double r (FPU_tagof r) d s1 = put_double (bit hi 31) 0 0x7ff00000 d s1"
      using L(3, 6) inf by (simp add: FPU_store_double_def Let_def)
    then show ?thesis using run i s1(4) put_double_const [OF s1(1), of "0x7ff00000" "bit hi 31"] by simp
  qed
qed

theorem double_load_store_roundtrip_witness:
  "\<exists>s'. transfer_double 0x100 0x100 demo_fpu = Ret 1 s' \<and>
        double_num (get4 s' 0x104) (get4 s' 0x100) = double_num 0x07060504 0x03020100"
proof -
  have "masked CW_Underflow demo_fpu" "masked CW_Precision demo_fpu" "masked CW_Denormal demo_fpu"
    by (simp_all add: masked_def demo_fpu_def)
  moreover have "double_num 0x07060504 0x03020100 \<noteq> Not_a_number" by (simp add: double_num_def double_exp_def Let_def)
  ultimately show ?thesis
    using double_load_store_roundtrip [of demo_fpu "0x100" "0x100" "0x07060504" "0x03020100"] demo_user_ok8 demo_words by auto
qed

end
