(* ===== verification/Fpu_Load_Store.thy ===== *)
theory Fpu_Load_Store
  imports Fpu_Load Fpu_Compare
begin

text \<open>
  The instructions with a memory operand that load, store or control (\<^verbatim>\<open>load_store.c\<close>): the check of the segment
  limit, the check of the stack, and the instruction itself. The type is the number 0 to 31 the decoder makes from
  the opcode; the result is the value that goes into \<^verbatim>\<open>no_ip_update\<close>.
\<close>

datatype ls_type = LS_NONE | LS_REG0 | LS_PUSH | LS_null

definition ls_type_table :: "ls_type list" where
  "ls_type_table =
     [LS_PUSH, LS_PUSH, LS_PUSH, LS_PUSH, LS_null, LS_null, LS_null, LS_null,
      LS_REG0, LS_REG0, LS_REG0, LS_REG0, LS_REG0, LS_REG0, LS_REG0, LS_REG0,
      LS_NONE, LS_null, LS_NONE, LS_PUSH, LS_NONE, LS_PUSH, LS_null, LS_PUSH,
      LS_NONE, LS_null, LS_NONE, LS_REG0, LS_NONE, LS_REG0, LS_NONE, LS_REG0]"

definition data_sizes_16 :: "u8 list" where
  "data_sizes_16 =
     [4, 4, 8, 2, 0, 0, 0, 0, 4, 4, 8, 2, 4, 4, 8, 2,
      14, 0, 94, 10, 2, 10, 0, 8, 14, 0, 94, 10, 2, 10, 2, 8]"

definition data_sizes_32 :: "u8 list" where
  "data_sizes_32 =
     [4, 4, 8, 2, 0, 0, 0, 0, 4, 4, 8, 2, 4, 4, 8, 2,
      28, 0, 108, 10, 2, 10, 0, 8, 28, 0, 108, 10, 2, 10, 2, 8]"

definition pop_0 :: "fpu \<Rightarrow> fpu" where
  "pop_0 s = (let s = FPU_settag0 TAG_Empty s in s\<lparr>fpu_top := fpu_top s + 1\<rparr>)"

text \<open>\<^verbatim>\<open>fld\<close> of a single or double: a signalling NaN whose exception is not masked undoes the push. Tags are bytes.\<close>

definition fld_real :: "(fpu \<Rightarrow> (u32 \<times> fpu_reg) fres) \<Rightarrow> fpu \<Rightarrow> u8 fres" where
  "fld_real load s =
     fbind (load (clear_C1 s)) (\<lambda>(tag, r) s.
       (let tag = tag AND 0xff in
        if tag = TAG_Special \<and> isNaN r then
          (let (x, r, s) = real_1op_NaN r s in
           if bit x 31 then Ret 0 (s\<lparr>fpu_top := fpu_top s + 1\<rparr>)
           else Ret 0 (FPU_copy_to_reg0 r tag s))
        else Ret 0 (FPU_copy_to_reg0 r tag s)))"

definition fild :: "(fpu \<Rightarrow> (u32 \<times> fpu_reg) fres) \<Rightarrow> fpu \<Rightarrow> u8 fres" where
  "fild load s = fbind (load (clear_C1 s)) (\<lambda>(tag, r) s. Ret 0 (FPU_copy_to_reg0 r (tag AND 0xff) s))"

text \<open>The loads that write \<^verbatim>\<open>st(0)\<close> themselves and return only the tag.\<close>

definition fld_in_place :: "(fpu \<Rightarrow> u32 fres) \<Rightarrow> fpu \<Rightarrow> u8 fres" where
  "fld_in_place load s = fbind (load (clear_C1 s)) (\<lambda>tag s. Ret 0 (FPU_settag0 (tag AND 0xff) s))"

definition fst_mem :: "(fpu_reg \<Rightarrow> u32 \<Rightarrow> u32 \<Rightarrow> fpu \<Rightarrow> int fres) \<Rightarrow> u32 \<Rightarrow> fpu \<Rightarrow> u8 fres" where
  "fst_mem store d s = fbind (store (st s 0) (FPU_gettag0 s) d (clear_C1 s)) (\<lambda>_ s. Ret 0 s)"

definition fstp_mem :: "(fpu_reg \<Rightarrow> u32 \<Rightarrow> u32 \<Rightarrow> fpu \<Rightarrow> int fres) \<Rightarrow> u32 \<Rightarrow> fpu \<Rightarrow> u8 fres" where
  "fstp_mem store d s =
     fbind (store (st s 0) (FPU_gettag0 s) d (clear_C1 s)) (\<lambda>r s. Ret 0 (if r \<noteq> 0 then pop_0 s else s))"

definition fldcw :: "u32 \<Rightarrow> fpu \<Rightarrow> u8 fres" where
  "fldcw a s =
     (if \<not> FPU_access_ok s a 2 then math_abort SIGSEGV s
      else
        (let s = s\<lparr>control_word := ucast (get2 s a)\<rparr>;
             s = (if partial_status s AND NOT (control_word s) AND CW_Exceptions \<noteq> 0
                  then or_status (SW_Summary OR SW_Backward) s
                  else clear_status (SW_Summary OR SW_Backward) s) in
         Ret 1 (s\<lparr>control_word := control_word s OR 0x40\<rparr>)))"

definition fstcw :: "u32 \<Rightarrow> fpu \<Rightarrow> u8 fres" where
  "fstcw d s =
     (if \<not> FPU_access_ok s d 2 then math_abort SIGSEGV s else Ret 1 (put2 (ucast (control_word s)) d s))"

definition fstsw_mem :: "u32 \<Rightarrow> fpu \<Rightarrow> u8 fres" where
  "fstsw_mem d s =
     (if \<not> FPU_access_ok s d 2 then math_abort SIGSEGV s else Ret 1 (put2 (ucast (status_word s)) d s))"

text \<open>The second \<^verbatim>\<open>switch\<close>, on the type (octal in the source). \<^verbatim>\<open>FPU_load_int64\<close> aborts itself and never returns \<^verbatim>\<open>TAG_Error\<close>.\<close>

definition load_store_op :: "nat \<Rightarrow> addr_modes \<Rightarrow> u32 \<Rightarrow> fpu \<Rightarrow> u8 fres" where
  "load_store_op typ am a s =
     (if typ = 0 then fld_real (FPU_load_single a) s
      else if typ = 1 then fild (FPU_load_int32 a) s
      else if typ = 2 then fld_real (FPU_load_double a) s
      else if typ = 3 then fild (FPU_load_int16 a) s
      else if typ = 8 then fst_mem FPU_store_single a s
      else if typ = 9 then fst_mem FPU_store_int32 a s
      else if typ = 10 then fst_mem FPU_store_double a s
      else if typ = 11 then fst_mem FPU_store_int16 a s
      else if typ = 12 then fstp_mem FPU_store_single a s
      else if typ = 13 then fstp_mem FPU_store_int32 a s
      else if typ = 14 then fstp_mem FPU_store_double a s
      else if typ = 15 then fstp_mem FPU_store_int16 a s
      else if typ = 16 then fbind (fldenv am a s) (\<lambda>_ s. Ret 1 s)
      else if typ = 18 then fbind (frstor am a s) (\<lambda>_ s. Ret 1 s)
      else if typ = 19 then fld_in_place (FPU_load_bcd a) s
      else if typ = 20 then fldcw a s
      else if typ = 21 then fld_in_place (FPU_load_extended a 0) s
      else if typ = 23 then fld_in_place (FPU_load_int64 a) s
      else if typ = 24 then fbind (fstenv am a s) (\<lambda>_ s. Ret 1 s)
      else if typ = 26 then fbind (fsave am a s) (\<lambda>_ s. Ret 1 s)
      else if typ = 27 then fstp_mem FPU_store_bcd a s
      else if typ = 28 then fstcw a s
      else if typ = 29 then fstp_mem FPU_store_extended a s
      else if typ = 30 then fstsw_mem a s
      else if typ = 31 then fstp_mem FPU_store_int64 a s
      else Ret 0 s)"

text \<open>\<^verbatim>\<open>PROTECTED\<close> is 4, \<^verbatim>\<open>SEG32\<close> 4 and \<^verbatim>\<open>PM16\<close> 5.\<close>

definition FPU_load_store :: "nat \<Rightarrow> addr_modes \<Rightarrow> u32 \<Rightarrow> fpu \<Rightarrow> u8 fres" where
  "FPU_load_store typ am a s =
     (let mode = am_default_mode am in
      if (mode = 4 \<and> access_limit s < data_sizes_32 ! typ) \<or> (mode = 5 \<and> access_limit s < data_sizes_16 ! typ)
      then math_abort SIGSEGV s
      else
        (let s = (if mode AND 4 \<noteq> 0 \<and> mode \<noteq> 4 \<and> mode \<noteq> 5 then FPU_exception (EX_INTERNAL OR 0x140) s else s) in
         case ls_type_table ! typ of
           LS_NONE \<Rightarrow> load_store_op typ am a s
         | LS_REG0 \<Rightarrow> load_store_op typ am a s
         | LS_PUSH \<Rightarrow>
             (if FPU_gettagi s (- 1) \<noteq> TAG_Empty then Ret 0 (FPU_stack_overflow s)
              else load_store_op typ am a (fpu_push s))
         | LS_null \<Rightarrow> fbind (FPU_illegal s) (\<lambda>_ s. Ret 0 s)))"

end
