(* ===== verification/Fpu_Address.thy ===== *)
theory Fpu_Address
  imports Fpu_Load
begin

text \<open>
  The address of a memory operand (\<^verbatim>\<open>get_address.c\<close>): the ModRM and SIB bytes with their displacements, for 32-bit
  and 16-bit addressing, and the segments outside the flat 32-bit mode. A routine returns the linear address with
  the selector and offset for the operand pointer, and advances the instruction pointer over the bytes it reads.
  What it needs from outside the saved registers is in \<open>seg_env\<close>: the local descriptor table, the user's \<^verbatim>\<open>gs\<close> and
  the segment registers of \<^verbatim>\<open>kernel_vm86_regs\<close>.
\<close>

record desc_struct =
  desc_a :: u32
  desc_b :: u32

record seg_env =
  se_ldt :: "nat \<Rightarrow> desc_struct"
  se_user_gs :: u16
  se_vm86_ds :: u16
  se_vm86_es :: u16
  se_vm86_fs :: u16
  se_vm86_gs :: u16

definition LDT_DESCRIPTOR :: "seg_env \<Rightarrow> u16 \<Rightarrow> desc_struct" where
  "LDT_DESCRIPTOR env sel = se_ldt env (unat sel div 8)"

definition SEG_D_SIZE :: "desc_struct \<Rightarrow> bool" where
  "SEG_D_SIZE d \<longleftrightarrow> desc_b d AND push_bit 21 3 \<noteq> 0"

definition SEG_G_BIT :: "desc_struct \<Rightarrow> bool" where
  "SEG_G_BIT d \<longleftrightarrow> bit (desc_b d) 23"

definition SEG_GRANULARITY :: "desc_struct \<Rightarrow> u32" where
  "SEG_GRANULARITY d = (if bit (desc_b d) 23 then 4096 else 1)"

definition SEG_BASE_ADDR :: "desc_struct \<Rightarrow> u32" where
  "SEG_BASE_ADDR d = (desc_b d AND 0xff000000) OR push_bit 16 (desc_b d AND 0xff) OR drop_bit 16 (desc_a d)"

definition SEG_LIMIT :: "desc_struct \<Rightarrow> u32" where
  "SEG_LIMIT d = (desc_b d AND 0xff0000) OR (desc_a d AND 0xffff)"

definition SEG_EXECUTE_ONLY :: "desc_struct \<Rightarrow> bool" where
  "SEG_EXECUTE_ONLY d \<longleftrightarrow> bit (desc_b d) 11 \<and> \<not> bit (desc_b d) 9"

definition SEG_WRITE_PERM :: "desc_struct \<Rightarrow> bool" where
  "SEG_WRITE_PERM d \<longleftrightarrow> \<not> bit (desc_b d) 11 \<and> bit (desc_b d) 9"

definition SEG_EXPAND_DOWN :: "desc_struct \<Rightarrow> bool" where
  "SEG_EXPAND_DOWN d \<longleftrightarrow> \<not> bit (desc_b d) 11 \<and> bit (desc_b d) 10"

text \<open>The saved registers by number, and the low halves of the segment registers.\<close>

definition fpu_regs :: "fpu \<Rightarrow> pt_regs" where
  "fpu_regs s = m_regs (fpu_m s)"

definition REG :: "u8 \<Rightarrow> fpu \<Rightarrow> u32" where
  "REG x s =
     (let r = fpu_regs s in
      if x = 0 then pt_ax r else if x = 1 then pt_cx r else if x = 2 then pt_dx r else if x = 3 then pt_bx r
      else if x = 4 then pt_sp r else if x = 5 then pt_bp r else if x = 6 then pt_si r else pt_di r)"

definition VM86_REG :: "seg_env \<Rightarrow> u8 \<Rightarrow> fpu \<Rightarrow> u16" where
  "VM86_REG env x s =
     (if x = 0 then ucast (pt_cs (fpu_regs s)) else if x = 1 then se_vm86_ds env else if x = 2 then se_vm86_es env
      else if x = 3 then se_vm86_fs env else if x = 4 then se_vm86_gs env else if x = 5 then ucast (pt_ss (fpu_regs s))
      else se_vm86_ds env)"

definition PM_REG :: "u8 \<Rightarrow> fpu \<Rightarrow> u16" where
  "PM_REG x s =
     (let r = fpu_regs s in
      if x = 0 then ucast (pt_cs r) else if x = 1 then ucast (pt_ds r) else if x = 2 then ucast (pt_es r)
      else if x = 3 then ucast (pt_fs r) else if x = 4 then ucast (pt_ds r) else if x = 5 then ucast (pt_ss r)
      else ucast (pt_ds r))"

text \<open>
  Code bytes: \<^verbatim>\<open>FPU_code_access_ok\<close> and \<^verbatim>\<open>FPU_get_user\<close> at the instruction pointer, which then advances. A byte is
  sign-extended where the code reads a \<^verbatim>\<open>signed char\<close>.
\<close>

definition advance :: "u32 \<Rightarrow> fpu \<Rightarrow> fpu" where
  "advance n s = set_fpu_eip (fpu_eip s + n) s"

definition code1 :: "fpu \<Rightarrow> u8 fres" where
  "code1 s =
     (if \<not> FPU_access_ok s (fpu_eip s) 1 then math_abort SIGSEGV s
      else Ret (get1 s (fpu_eip s)) (advance 1 s))"

definition code2 :: "fpu \<Rightarrow> u16 fres" where
  "code2 s =
     (if \<not> FPU_access_ok s (fpu_eip s) 2 then math_abort SIGSEGV s
      else Ret (get2 s (fpu_eip s)) (advance 2 s))"

definition code4 :: "fpu \<Rightarrow> u32 fres" where
  "code4 s =
     (if \<not> FPU_access_ok s (fpu_eip s) 4 then math_abort SIGSEGV s
      else Ret (get4 s (fpu_eip s)) (advance 4 s))"

definition sib :: "u8 \<Rightarrow> fpu \<Rightarrow> u32 fres" where
  "sib md s =
     fbind (code1 s) (\<lambda>byte s.
       (let ss = drop_bit 6 byte; index = drop_bit 3 byte AND 7; base = byte AND 7;
            offset = (if md = 0 \<and> base = 5 then 0 else REG base s);
            (offset, s) =
              (if index = 4 then (offset, if ss \<noteq> 0 then FPU_exception EX_Invalid s else s)
               else (offset + push_bit (unat ss) (REG index s), s)) in
        if md = 1 then fbind (code1 s) (\<lambda>d s. Ret (offset + scast d) s)
        else if md = 2 \<or> base = 5 then fbind (code4 s) (\<lambda>d s. Ret (offset + d) s)
        else Ret offset s))"

text \<open>The selector and offset of \<^verbatim>\<open>struct address\<close>, returned with the linear address.\<close>

record address =
  addr_offset :: u32
  addr_selector :: u16

definition vm86_segment :: "seg_env \<Rightarrow> u8 \<Rightarrow> fpu \<Rightarrow> (u32 \<times> u16) fres" where
  "vm86_segment env segment s =
     (let segment = segment - 1 in
      if segment > 6 then math_abort SIGSEGV (FPU_exception (EX_INTERNAL OR 0x130) s)
      else Ret (push_bit 4 (ucast (VM86_REG env segment s)), VM86_REG env segment s) s)"

definition pm_limit :: "u8 \<Rightarrow> desc_struct \<Rightarrow> u32 \<Rightarrow> u8" where
  "pm_limit modrm d addr =
     (let base_address = SEG_BASE_ADDR d;
          limit = base_address + (SEG_LIMIT d + 1) * SEG_GRANULARITY d - 1;
          limit = (if limit < base_address then 0xffffffff else limit);
          lim = (if SEG_EXPAND_DOWN d then
                   (let seg_top = (if SEG_G_BIT d then 0xffffffff
                                   else if base_address + 0x100000 < base_address then 0xffffffff
                                   else base_address + 0x100000) in
                    if addr \<le> limit \<or> seg_top \<le> addr then 0
                    else if 255 \<le> seg_top - addr then 255 else ucast (seg_top - addr))
                 else
                   (if limit < addr \<or> addr < base_address then 0
                    else if 254 \<le> limit - addr then 255 else ucast (limit - addr + 1))) in
      if SEG_EXECUTE_ONLY d \<or> (\<not> SEG_WRITE_PERM d \<and> modrm AND 0x10 \<noteq> 0) then 0 else lim)"

definition pm_address :: "seg_env \<Rightarrow> u8 \<Rightarrow> u8 \<Rightarrow> u32 \<Rightarrow> fpu \<Rightarrow> (u32 \<times> u16) fres" where
  "pm_address env modrm segment offset s =
     (let segment = segment - 1 in
      if segment > 6 then math_abort SIGSEGV (FPU_exception (EX_INTERNAL OR 0x132) s)
      else
        (let selector = (if segment = 4 then se_user_gs env else PM_REG segment s);
             d = LDT_DESCRIPTOR env (PM_REG segment s);
             addr = SEG_BASE_ADDR d + offset in
         Ret (addr, selector) (s\<lparr>access_limit := pm_limit modrm d addr\<rparr>)))"

text \<open>The \<^verbatim>\<open>switch\<close> on the addressing mode at the end of both routines.\<close>

definition add_segment ::
  "seg_env \<Rightarrow> u32 \<Rightarrow> u8 \<Rightarrow> addr_modes \<Rightarrow> u32 \<Rightarrow> u16 \<Rightarrow> fpu \<Rightarrow> (u32 \<times> address) fres" where
  "add_segment env internal modrm am addr ds s =
     (let mode = am_default_mode am; off = (\<lambda>sel. \<lparr>addr_offset = addr, addr_selector = sel\<rparr>) in
      if mode = 0 then Ret (addr, off ds) s
      else if mode = 1 then
        fbind (vm86_segment env (am_segment am) s) (\<lambda>(base, sel) s. Ret (addr + base, off sel) s)
      else if mode = 5 \<or> mode = 4 then
        fbind (pm_address env modrm (am_segment am) addr s) (\<lambda>(a, sel) s. Ret (a, off sel) s)
      else Ret (addr, off ds) (FPU_exception (EX_INTERNAL OR internal) s))"

definition cs_write :: "u8 \<Rightarrow> addr_modes \<Rightarrow> bool" where
  "cs_write modrm am \<longleftrightarrow> am_default_mode am = 0 \<and> modrm AND 0x10 \<noteq> 0 \<and> am_segment am = 1"

definition FPU_get_address :: "seg_env \<Rightarrow> u8 \<Rightarrow> addr_modes \<Rightarrow> fpu \<Rightarrow> (u32 \<times> address) fres" where
  "FPU_get_address env modrm am s =
     (let rm = modrm AND 7; md = drop_bit 6 modrm AND 3; ds = ucast (pt_ds (fpu_regs s));
          finish = (\<lambda>addr. add_segment env 0x133 modrm am addr ds);
          plain = (\<lambda>addr s. Ret (addr, \<lparr>addr_offset = addr, addr_selector = ds\<rparr>) s) in
      if cs_write modrm am then math_abort SIGSEGV s
      else if rm = 4 \<and> md \<noteq> 3 then fbind (sib md s) finish
      else if md = 0 then (if rm = 5 then fbind (code4 s) plain else plain (REG rm s) s)
      else if md = 1 then fbind (code1 s) (\<lambda>d s. finish (scast d + REG rm s) s)
      else if md = 2 then fbind (code4 s) (\<lambda>d s. finish (d + REG rm s) s)
      else finish (REG rm s) (FPU_exception EX_Invalid s))"

text \<open>With 16-bit addressing, a base of \<^verbatim>\<open>bp\<close> makes the stack segment the default.\<close>

definition base16 :: "u8 \<Rightarrow> addr_modes \<Rightarrow> fpu \<Rightarrow> u32 \<times> addr_modes" where
  "base16 rm am s =
     (let r = fpu_regs s;
          ss = (if am_segment am = 7 then am\<lparr>am_segment := 6\<rparr> else am) in
      if rm = 0 then (pt_bx r + pt_si r, am)
      else if rm = 1 then (pt_bx r + pt_di r, am)
      else if rm = 2 then (pt_bp r + pt_si r, ss)
      else if rm = 3 then (pt_bp r + pt_di r, ss)
      else if rm = 4 then (pt_si r, am)
      else if rm = 5 then (pt_di r, am)
      else if rm = 6 then (pt_bp r, ss)
      else (pt_bx r, am))"

definition FPU_get_address_16 :: "seg_env \<Rightarrow> u8 \<Rightarrow> addr_modes \<Rightarrow> fpu \<Rightarrow> (u32 \<times> address) fres" where
  "FPU_get_address_16 env modrm am s =
     (let rm = modrm AND 7; md = drop_bit 6 modrm AND 3; ds = ucast (pt_ds (fpu_regs s));
          finish = (\<lambda>disp s. let (base, am) = base16 rm am s in
                      add_segment env 0x131 modrm am ((disp + base) AND 0xffff) ds s) in
      if cs_write modrm am then math_abort SIGSEGV s
      else if md = 0 then
        (if rm = 6 then fbind (code2 s) (\<lambda>d. add_segment env 0x131 modrm am (ucast d AND 0xffff) ds) else finish 0 s)
      else if md = 1 then fbind (code1 s) (\<lambda>d. finish (scast d))
      else if md = 2 then fbind (code2 s) (\<lambda>d. finish (ucast d))
      else finish 0 (FPU_exception EX_Invalid s))"

end
