(* ===== verification/Fpu_Arith.thy ===== *)
theory Fpu_Arith
  imports Fpu_Compare
begin

text \<open>
  The basic arithmetic: rounding of an extended significand (\<^verbatim>\<open>reg_round.S\<close>), the kernels of addition,
  subtraction, multiplication and division (\<^verbatim>\<open>reg_u_add.S\<close>, \<^verbatim>\<open>reg_u_sub.S\<close>, \<^verbatim>\<open>reg_u_mul.S\<close>, \<^verbatim>\<open>reg_u_div.S\<close>), the C
  routines that dispatch on tags and signs (\<^verbatim>\<open>reg_add_sub.c\<close>, \<^verbatim>\<open>reg_mul.c\<close>, \<^verbatim>\<open>reg_divide.c\<close>) and the instructions
  on registers (\<^verbatim>\<open>fpu_arith.c\<close>). The assembler keeps the significand in \<^verbatim>\<open>eax:ebx\<close>, its extension in \<^verbatim>\<open>edx\<close> and the
  unbiased exponent in the destination register; the carry flag is a Boolean.
\<close>

section \<open>Machine instructions with carry\<close>

definition adc :: "u32 \<Rightarrow> u32 \<Rightarrow> bool \<Rightarrow> u32 \<times> bool" where
  "adc a b c = (a + b + of_bool c, 2 ^ 32 \<le> unat a + unat b + of_bool c)"

definition sbb :: "u32 \<Rightarrow> u32 \<Rightarrow> bool \<Rightarrow> u32 \<times> bool" where
  "sbb a b c = (a - b - of_bool c, unat a < unat b + of_bool c)"

definition rcr1 :: "u32 \<Rightarrow> bool \<Rightarrow> u32 \<times> bool" where
  "rcr1 a c = (drop_bit 1 a OR (if c then 0x80000000 else 0), bit a 0)"

definition rcl1 :: "u32 \<Rightarrow> bool \<Rightarrow> u32 \<times> bool" where
  "rcl1 a c = (push_bit 1 a OR of_bool c, bit a 31)"

text \<open>\<^verbatim>\<open>mull\<close> gives \<^verbatim>\<open>edx:eax\<close>; \<^verbatim>\<open>divl\<close> the quotient and the remainder of \<^verbatim>\<open>edx:eax\<close>.\<close>

definition mull :: "u32 \<Rightarrow> u32 \<Rightarrow> u32 \<times> u32" where
  "mull a b = (let p = (ucast a :: u64) * ucast b in (ucast (drop_bit 32 p), ucast p))"

definition divl :: "u32 \<Rightarrow> u32 \<Rightarrow> u32 \<Rightarrow> u32 \<times> u32" where
  "divl edx eax d = (let n = pair64 edx eax in (ucast (n div ucast d), ucast (n mod ucast d)))"

section \<open>Rounding\<close>

abbreviation (input) CW_PC :: u32 where "CW_PC \<equiv> 0x0300"
abbreviation (input) PR_24_BITS :: u32 where "PR_24_BITS \<equiv> 0x000"
abbreviation (input) PR_53_BITS :: u32 where "PR_53_BITS \<equiv> 0x200"

abbreviation (input) EXP_WAY_UNDER :: int where "EXP_WAY_UNDER \<equiv> - 0x6000"

text \<open>\<^verbatim>\<open>FPU_bits_lost\<close>.\<close>

datatype bits_lost = LOST_NONE | LOST_DOWN | LOST_UP

text \<open>
  The three precisions: the significand, whether the increment carried out of it, and what was lost. The
  rounding control field has two bits, so the error labels after the four comparisons are not reached.
\<close>

definition LRound_To_24 :: "u32 \<Rightarrow> bool \<Rightarrow> u32 \<Rightarrow> u32 \<Rightarrow> u32 \<Rightarrow> u32 \<times> u32 \<times> bool \<times> bits_lost" where
  "LRound_To_24 rc neg eax ebx edx =
     (let ecx = eax AND 0xff;
          none = (eax, ebx, False, LOST_NONE);
          truncate = (eax AND 0xffffff00, 0, False, LOST_DOWN);
          round_up = (let (a, c) = adc (eax AND 0xffffff00) 0x100 False in (a, 0, c, LOST_UP));
          check_truncate = (if ecx OR ebx OR edx = 0 then none else truncate);
          check_up = (if ecx OR ebx OR edx \<noteq> 0 then round_up else none) in
      if rc = RC_RND then
        (if ecx < 0x80 then check_truncate
         else if ecx \<noteq> 0x80 \<or> ebx \<noteq> 0 \<or> edx \<noteq> 0 \<or> eax AND 0x100 \<noteq> 0 then round_up
         else truncate)
      else if rc = RC_CHOP then check_truncate
      else if rc = RC_UP then (if neg then check_truncate else check_up)
      else (if \<not> neg then check_truncate else check_up))"

definition LRound_To_53 :: "u32 \<Rightarrow> bool \<Rightarrow> u32 \<Rightarrow> u32 \<Rightarrow> u32 \<Rightarrow> u32 \<times> u32 \<times> bool \<times> bits_lost" where
  "LRound_To_53 rc neg eax ebx edx =
     (let ecx = ebx AND 0x7ff;
          none = (eax, ebx, False, LOST_NONE);
          truncate = (eax, ebx AND 0xfffff800, False, LOST_DOWN);
          round_up = (let (b, c) = adc (ebx AND 0xfffff800) 0x800 False; (a, c) = adc eax 0 c in (a, b, c, LOST_UP));
          check_truncate = (if ecx OR edx = 0 then none else truncate);
          check_up = (if ecx OR edx \<noteq> 0 then round_up else none) in
      if rc = RC_RND then
        (if ecx < 0x400 then check_truncate
         else if ecx \<noteq> 0x400 \<or> edx \<noteq> 0 \<or> ebx AND 0x800 \<noteq> 0 then round_up
         else truncate)
      else if rc = RC_CHOP then check_truncate
      else if rc = RC_UP then (if neg then check_truncate else check_up)
      else (if \<not> neg then check_truncate else check_up))"

definition LRound_To_64 :: "u32 \<Rightarrow> bool \<Rightarrow> u32 \<Rightarrow> u32 \<Rightarrow> u32 \<Rightarrow> u32 \<times> u32 \<times> bool \<times> bits_lost" where
  "LRound_To_64 rc neg eax ebx edx =
     (let none = (eax, ebx, False, LOST_NONE);
          round_up = (let (b, c) = adc ebx 1 False; (a, c) = adc eax 0 c in (a, b, c, LOST_UP));
          check_truncate = (if edx = 0 then none else (eax, ebx, False, LOST_DOWN));
          check_up = (if edx \<noteq> 0 then round_up else none) in
      if rc = RC_RND then
        (if edx < 0x80000000 then check_truncate
         else if edx \<noteq> 0x80000000 then round_up
         else if ebx AND 1 = 0 then check_truncate else round_up)
      else if rc = RC_CHOP then check_truncate
      else if rc = RC_UP then (if neg then check_truncate else check_up)
      else (if \<not> neg then check_truncate else check_up))"

text \<open>\<^verbatim>\<open>LCheck_Round_Overflow\<close>: the carry becomes the most significant bit again.\<close>

definition LCheck_Round_Overflow :: "u32 \<Rightarrow> u32 \<Rightarrow> bool \<Rightarrow> u16 \<Rightarrow> u32 \<times> u32 \<times> u16" where
  "LCheck_Round_Overflow eax ebx c e =
     (if \<not> c then (eax, ebx, e)
      else (let (eax, c) = rcr1 eax True; (ebx, _) = rcr1 ebx c in (eax, ebx, e + 1)))"

definition round_to_precision :: "u32 \<Rightarrow> bool \<Rightarrow> u32 \<Rightarrow> u32 \<Rightarrow> u32 \<Rightarrow> u16 \<Rightarrow> u32 \<times> u32 \<times> u16 \<times> bits_lost" where
  "round_to_precision cw neg eax ebx edx e =
     (let (eax, ebx, c, lost) =
            (if cw AND CW_PC = PR_53_BITS then LRound_To_53 (cw AND CW_RC) neg eax ebx edx
             else if cw AND CW_PC = PR_24_BITS then LRound_To_24 (cw AND CW_RC) neg eax ebx edx
             else LRound_To_64 (cw AND CW_RC) neg eax ebx edx);
          (eax, ebx, e) = LCheck_Round_Overflow eax ebx c e in
      (eax, ebx, e, lost))"

text \<open>
  \<^verbatim>\<open>L_Make_denorm\<close> for a masked underflow: the significand is shifted right until the exponent is
  \<^verbatim>\<open>EXP_UNDER+1\<close>; \<^verbatim>\<open>setne\<close> and \<^verbatim>\<open>orb\<close> keep the lost bits in the lowest bit of the extension.
\<close>

definition L_Make_denorm :: "u32 \<Rightarrow> u32 \<Rightarrow> u32 \<Rightarrow> u16 \<Rightarrow> u32 \<times> u32 \<times> u32 \<times> u16" where
  "L_Make_denorm eax ebx edx e =
     (let cx = word_of_int (EXP_UNDER + 1) - e; n = unat cx in
      if n < 32 then
        (drop_bit n eax, shrd n eax ebx, shrd n ebx 0 OR of_bool (edx \<noteq> 0), e + cx)
      else if n < 64 then
        (let cl = n - 32; ch = of_bool (edx \<noteq> 0);
             ebx = ebx OR ch;
             edx = shrd cl ebx 0;
             ebx = shrd cl eax ebx;
             eax = drop_bit cl eax;
             ebx = ebx OR ch OR of_bool (edx \<noteq> 0) in
         (0, eax, ebx, e + cx))
      else if n = 64 then (0, 0, eax OR of_bool (edx \<noteq> 0) OR of_bool (ebx \<noteq> 0), e + cx)
      else (0, 0, 1, word_of_int (EXP_UNDER + 1)))"

text \<open>From \<^verbatim>\<open>L_Store_significand\<close> to the exit: the exponent gets its bias, or the overflow response is given.\<close>

definition signed_exit :: "bool \<Rightarrow> fpu_reg \<Rightarrow> fpu_reg" where
  "signed_exit neg r = (if neg then setnegative r else r)"

definition L_Store_significand :: "u32 \<Rightarrow> u32 \<Rightarrow> u32 \<Rightarrow> u16 \<Rightarrow> bool \<Rightarrow> fpu \<Rightarrow> u32 \<times> fpu_reg \<times> fpu" where
  "L_Store_significand tag eax ebx e neg s =
     (if EXP_OVER \<le> sint e then
        (let (tag, r, s) = arith_overflow \<lparr>sigl = ebx, sigh = eax, exp16 = e + word_of_int EXTENDED_Ebias\<rparr> s in
         (tag, signed_exit neg r, s))
      else
        (tag, signed_exit neg \<lparr>sigl = ebx, sigh = eax, exp16 = (e + word_of_int EXTENDED_Ebias) AND 0x7fff\<rparr>, s))"

definition L_deNormalised :: "u32 \<Rightarrow> bits_lost \<Rightarrow> u32 \<Rightarrow> u32 \<Rightarrow> u16 \<Rightarrow> bool \<Rightarrow> fpu \<Rightarrow> u32 \<times> fpu_reg \<times> fpu" where
  "L_deNormalised tag lost eax ebx e neg s =
     L_Store_significand tag eax ebx e neg
       (case lost of LOST_UP \<Rightarrow> set_precision_flag_up s | LOST_DOWN \<Rightarrow> set_precision_flag_down s | LOST_NONE \<Rightarrow> s)"

text \<open>\<^verbatim>\<open>Normalise_result\<close> after a masked underflow; an internal error returns -1.\<close>

definition Normalise_result :: "bits_lost \<Rightarrow> u32 \<Rightarrow> u32 \<Rightarrow> u16 \<Rightarrow> bool \<Rightarrow> fpu \<Rightarrow> u32 \<times> fpu_reg \<times> fpu" where
  "Normalise_result lost eax ebx e neg s =
     (if e \<noteq> word_of_int (EXP_UNDER + 1) then
        (- 1, \<lparr>sigl = ebx, sigh = eax, exp16 = e\<rparr>, FPU_exception (EX_INTERNAL OR 0x234) s)
      else if \<not> bit eax 31 \<and> eax = 0 \<and> ebx = 0 then
        L_Store_significand TAG_Zero eax ebx (word_of_int EXP_UNDER) neg
          (FPU_exception EX_Underflow (set_precision_flag_down s))
      else
        L_deNormalised TAG_Special lost eax ebx (if bit eax 31 then e else e - 1) neg
          (if lost = LOST_NONE then s else FPU_exception EX_Underflow s))"

definition fpu_reg_round :: "u32 \<Rightarrow> u32 \<Rightarrow> u32 \<Rightarrow> u16 \<Rightarrow> u32 \<Rightarrow> bool \<Rightarrow> fpu \<Rightarrow> u32 \<times> fpu_reg \<times> fpu" where
  "fpu_reg_round eax ebx edx e cw neg s =
     (if EXP_UNDER < sint e then
        (let (eax, ebx, e, lost) = round_to_precision cw neg eax ebx edx e in
         L_deNormalised TAG_Valid lost eax ebx e neg s)
      else if cw AND CW_Underflow \<noteq> 0 then
        (let (eax, ebx, edx, e) = L_Make_denorm eax ebx edx e;
             (eax, ebx, e, lost) = round_to_precision cw neg eax ebx edx e in
         Normalise_result lost eax ebx e neg s)
      else
        (let (eax, ebx, e, lost) = round_to_precision cw neg eax ebx edx e in
         if sint e \<le> EXP_UNDER
         then L_deNormalised TAG_Valid lost eax ebx (e + 3 * 2 ^ 13) neg (FPU_exception EX_Underflow s)
         else L_deNormalised TAG_Valid lost eax ebx e neg s))"

definition FPU_round :: "fpu_reg \<Rightarrow> u32 \<Rightarrow> u32 \<Rightarrow> bool \<Rightarrow> fpu \<Rightarrow> u32 \<times> fpu_reg \<times> fpu" where
  "FPU_round arg extent cw neg s = fpu_reg_round (sigh arg) (sigl arg) extent (exp16 arg) cw neg s"

section \<open>Addition and subtraction of magnitudes\<close>

text \<open>
  The smaller operand shifted into place: \<^verbatim>\<open>eax\<close>, \<^verbatim>\<open>ebx\<close> and the extension \<^verbatim>\<open>edx\<close>. The two routines differ only
  for a shift by 65, where \<^verbatim>\<open>FPU_u_sub\<close> still keeps the bits.
\<close>

definition u_shift :: "nat \<Rightarrow> u32 \<Rightarrow> u32 \<Rightarrow> u32 \<times> u32 \<times> u32" where
  "u_shift cx eax ebx =
     (if cx < 32 then (drop_bit cx eax, shrd cx eax ebx, shrd cx ebx 0)
      else if cx < 64 then
        (let cl = cx - 32 in
         if cl = 0 then (0, eax, ebx)
         else (0, drop_bit cl eax, shrd cl eax 0 OR of_bool (ebx \<noteq> 0)))
      else (0, 0, eax OR of_bool (ebx \<noteq> 0)))"

definition FPU_u_add ::
  "fpu_reg \<Rightarrow> fpu_reg \<Rightarrow> fpu_reg \<Rightarrow> u32 \<Rightarrow> bool \<Rightarrow> int \<Rightarrow> int \<Rightarrow> fpu \<Rightarrow> u32 \<times> fpu_reg \<times> fpu" where
  "FPU_u_add arg1 arg2 dest cw sign exp1 exp2 s =
     (let (large, small, e, cx) =
            (if exp2 \<le> exp1 then (arg1, arg2, exp1, exp1 - exp2) else (arg2, arg1, exp2, exp2 - exp1));
          e = word_of_int e :: u16;
          cx = unat (word_of_int cx :: u16) in
      if \<not> bit (sigh small) 31 \<or> \<not> bit (sigh large) 31 then
        (- 1, dest\<lparr>exp16 := e\<rparr>, FPU_exception (EX_INTERNAL OR 0x201) s)
      else
        (let (eax, ebx, edx) = (if cx < 65 then u_shift cx (sigh small) (sigl small) else (0, 0, 1));
             (ebx, c) = adc ebx (sigl large) False;
             (eax, c) = adc eax (sigh large) c in
         if \<not> c then fpu_reg_round eax ebx edx e cw sign s
         else
           (let (eax, c) = rcr1 eax c; (ebx, c) = rcr1 ebx c; (edx, c) = rcr1 edx c in
            fpu_reg_round eax ebx (edx OR of_bool c) (e + 1) cw sign s)))"

text \<open>The extended difference is normalised by a left shift; the first operand must be the larger.\<close>

definition u_sub_normalise :: "u32 \<Rightarrow> u32 \<Rightarrow> u32 \<Rightarrow> u16 \<Rightarrow> (u32 \<times> u32 \<times> u32 \<times> u16) option" where
  "u_sub_normalise eax ebx edx e =
     (let shift_1 = (\<lambda>eax ebx edx e. let cl = 31 - bsr eax in
            Some (shld cl ebx eax, shld cl edx ebx, push_bit cl edx, e - of_nat cl)) in
      if bit eax 31 then Some (eax, ebx, edx, e)
      else if eax \<noteq> 0 then shift_1 eax ebx edx e
      else if ebx \<noteq> 0 then shift_1 ebx edx 0 (e - 32)
      else if edx = 0x80000000 then Some (edx, ebx, eax, e - 64)
      else None)"

definition FPU_u_sub ::
  "fpu_reg \<Rightarrow> fpu_reg \<Rightarrow> fpu_reg \<Rightarrow> u32 \<Rightarrow> bool \<Rightarrow> int \<Rightarrow> int \<Rightarrow> fpu \<Rightarrow> u32 \<times> fpu_reg \<times> fpu" where
  "FPU_u_sub arg1 arg2 dest cw sign exp1 exp2 s =
     (let bugged = (\<lambda>d n. (- 1, d, FPU_exception (EX_INTERNAL OR n) s)) in
      if exp1 - exp2 < 0 then bugged dest 0x206
      else if \<not> bit (sigh arg2) 31 \<or> \<not> bit (sigh arg1) 31 then bugged dest 0x209
      else
        (let cx = unat (word_of_int (exp1 - exp2) :: u16);
             e = word_of_int exp1 :: u16;
             h = sigh arg2; l = sigl arg2;
             (eax, ebx, edx) =
               (if cx < 65 then u_shift cx h l
                else if cx = 65 then (0, 0, drop_bit 1 h OR of_bool (bit h 0 \<or> l \<noteq> 0))
                else (0, 0, 1));
             (edx, c) = sbb 0 edx False;
             (ebx, c) = sbb (sigl arg1) ebx c;
             (eax, c) = sbb (sigh arg1) eax c in
         if c then bugged (dest\<lparr>exp16 := e\<rparr>) 0x212
         else
           (case u_sub_normalise eax ebx edx e of
              Some (eax, ebx, edx, e) \<Rightarrow> fpu_reg_round eax ebx edx e cw sign s
            | None \<Rightarrow>
                (if edx \<noteq> 0 then bugged (dest\<lparr>exp16 := e\<rparr>) 0x210
                 else (TAG_Zero, \<lparr>sigl = 0, sigh = 0, exp16 = 0\<rparr>, s)))))"

section \<open>Multiplication of magnitudes\<close>

definition u_mul_product :: "fpu_reg \<Rightarrow> fpu_reg \<Rightarrow> u32 \<times> u32 \<times> u32 \<times> u32" where
  "u_mul_product a b =
     (let (accum_1, accum_0) = mull (sigl a) (sigl b);
          (edx, eax) = mull (sigl a) (sigh b);
          (accum_1, c) = adc accum_1 eax False;
          (ebx, _) = adc 0 edx c;
          (edx, eax) = mull (sigh a) (sigl b);
          (accum_1, c) = adc accum_1 eax False;
          (ebx, c) = adc ebx edx c;
          (ecx, _) = adc 0 0 c;
          (edx, eax) = mull (sigh a) (sigh b);
          (ebx, c) = adc ebx eax False;
          (ecx, _) = adc ecx edx c in
      (ecx, ebx, accum_1, accum_0))"

text \<open>The value returned from the internal error is left open by the code; it is not reached with normalised operands.\<close>

definition FPU_u_mul :: "fpu_reg \<Rightarrow> fpu_reg \<Rightarrow> fpu_reg \<Rightarrow> u32 \<Rightarrow> bool \<Rightarrow> int \<Rightarrow> fpu \<Rightarrow> u32 \<times> fpu_reg \<times> fpu" where
  "FPU_u_mul a b dest cw sign expon s =
     (if \<not> bit (sigh a) 31 \<or> \<not> bit (sigh b) 31 then
        (- 1, dest, FPU_exception (EX_INTERNAL OR 0x205) s)
      else
        (let (ecx, ebx, accum_1, accum_0) = u_mul_product a b;
             e = word_of_int (max (expon + 1) EXP_WAY_UNDER) :: u16;
             (ecx, ebx, accum_1, accum_0, e) =
               (if bit ecx 31 then (ecx, ebx, accum_1, accum_0, e)
                else
                  (let (accum_0, c) = rcl1 accum_0 False; (accum_1, c) = rcl1 accum_1 c;
                       (ebx, c) = rcl1 ebx c; (ecx, c) = rcl1 ecx c in
                   (ecx, ebx, accum_1, accum_0, e - 1))) in
         fpu_reg_round ecx ebx (accum_1 OR of_bool (accum_0 \<noteq> 0)) e cw sign s))"

section \<open>Division of magnitudes\<close>

text \<open>A divisor of 32 bits: two quotient words, the extension and the overflow flag.\<close>

definition u_div_short :: "u32 \<Rightarrow> u32 \<Rightarrow> u32 \<Rightarrow> u32 \<times> u32 \<times> u32 \<times> bool" where
  "u_div_short edx eax ecx =
     (let ovfl = (ecx \<le> edx);
          edx = (if ovfl then edx - ecx else edx);
          (result_2, edx) = divl edx eax ecx;
          (result_1, edx) = divl edx 0 ecx;
          (eax, edx) = divl edx 0 ecx in
      (result_2, result_1, eax, ovfl))"

text \<open>
  \<^verbatim>\<open>L_Full_Division\<close>, one 32-bit digit of the quotient at a time. The trial digit comes from dividing by the high
  word of the divisor plus one, which is 0 when that is \<open>2 ^ 32\<close>. \<open>None\<close> stands for the internal error checks.
\<close>

definition trial_digit :: "u32 \<Rightarrow> u32 \<Rightarrow> u32 \<Rightarrow> u32" where
  "trial_digit edx eax ecx = (if ecx = 0 then edx else fst (divl edx eax ecx))"

definition div_first_digit :: "u32 \<Rightarrow> u32 \<Rightarrow> u32 \<Rightarrow> u32 \<Rightarrow> (u32 \<times> u32 \<times> u32) option" where
  "div_first_digit dh dl accum_3 accum_2 =
     (let result_2 = trial_digit accum_3 accum_2 (dh + 1);
          (edx, eax) = mull result_2 dh;
          (accum_2, c) = sbb accum_2 eax False;
          (accum_3, c) = sbb accum_3 edx c;
          (edx, eax) = mull result_2 dl;
          (accum_1, c) = sbb 0 eax False;
          (accum_2, c) = sbb accum_2 edx c;
          (accum_3, c) = sbb accum_3 0 c in
      if accum_3 = 0 then Some (result_2, accum_2, accum_1)
      else if c then None
      else
        (let (accum_1, c) = sbb accum_1 dl False;
             (accum_2, c) = sbb accum_2 dh c;
             (accum_3, c) = sbb accum_3 0 c in
         if accum_3 \<noteq> 0 then None else Some (result_2 + 1, accum_2, accum_1)))"

definition div_second_digit ::
  "u32 \<Rightarrow> u32 \<Rightarrow> u32 \<Rightarrow> u32 \<Rightarrow> u32 \<Rightarrow> (u32 \<times> u32 \<times> u32 \<times> u32) option" where
  "div_second_digit dh dl result_2 accum_2 accum_1 =
     (let prevent = (dh < accum_2 \<or> (dh = accum_2 \<and> dl \<le> accum_1));
          (result_2', accum_2, accum_1) =
            (if prevent then
               (let (a1, c) = sbb accum_1 dl False; (a2, c) = sbb accum_2 dh c in (result_2 + 1, a2, a1))
             else (result_2, accum_2, accum_1)) in
      if prevent \<and> result_2' = 0 then None
      else
        (let result_1 = trial_digit accum_2 accum_1 (dh + 1);
             (edx, eax) = mull result_1 dh;
             (accum_1, c) = sbb accum_1 eax False;
             (accum_2, c) = sbb accum_2 edx c in
         if c then None
         else
           (let (edx, eax) = mull result_1 dl;
                (accum_0, c) = sbb 0 eax False;
                (accum_1, c) = sbb accum_1 edx c;
                (accum_2, c) = sbb accum_2 0 c in
            if c then None
            else if accum_2 = 0 then Some (result_2', result_1, accum_1, accum_0)
            else if accum_2 \<noteq> 1 then None
            else
              (let (accum_0, c) = sbb accum_0 dl False;
                   (accum_1, c) = sbb accum_1 dh c;
                   (accum_2, c) = sbb accum_2 0 c in
               if c \<or> accum_2 \<noteq> 0 then None
               else
                 (let (result_1, c) = adc result_1 1 False;
                      (result_2', c) = adc result_2' 0 c in
                  if c then None else Some (result_2', result_1, accum_1, accum_0))))))"

text \<open>The third digit is only compared with one half of the divisor.\<close>

definition div_round_prep :: "u32 \<Rightarrow> u32 \<Rightarrow> u32 \<Rightarrow> u32 \<Rightarrow> u32" where
  "div_round_prep dh dl accum_1 accum_0 =
     (if accum_0 OR accum_1 = 0 then 0
      else
        (let (ecx, c) = rcl1 accum_0 False; (edx, c) = rcl1 accum_1 c in
         if c then 0xff000000
         else
           (let (ecx, c) = sbb ecx dl False; (edx, c) = sbb edx dh c in
            if c then 0x70000000
            else if edx \<noteq> 0 then 0xff000000
            else 0x80000000)))"

definition u_div_full :: "u32 \<Rightarrow> u32 \<Rightarrow> u32 \<Rightarrow> u32 \<Rightarrow> (u32 \<times> u32 \<times> u32 \<times> bool) option" where
  "u_div_full nh nl dh dl =
     (let ovfl = (dh < nh \<or> (dh = nh \<and> dl \<le> nl));
          (accum_3, accum_2) =
            (if ovfl then (let (a2, c) = sbb nl dl False; (a3, c) = sbb nh dh c in (a3, a2)) else (nh, nl)) in
      case div_first_digit dh dl accum_3 accum_2 of
        None \<Rightarrow> None
      | Some (result_2, accum_2, accum_1) \<Rightarrow>
          (case div_second_digit dh dl result_2 accum_2 accum_1 of
             None \<Rightarrow> None
           | Some (result_2, result_1, accum_1, accum_0) \<Rightarrow>
               (if dh < accum_1 \<or> (dh = accum_1 \<and> dl \<le> accum_0) then
                  (let (a0, c) = sbb accum_0 dl False; (a1, c) = sbb accum_1 dh c;
                       (result_1, c) = adc result_1 1 False; (result_2, c) = adc result_2 0 c in
                   Some (result_2, result_1, div_round_prep dh dl a1 a0, ovfl \<or> (result_2 = 0 \<and> c)))
                else Some (result_2, result_1, div_round_prep dh dl accum_1 accum_0, ovfl))))"

definition FPU_u_div :: "fpu_reg \<Rightarrow> fpu_reg \<Rightarrow> fpu_reg \<Rightarrow> u32 \<Rightarrow> bool \<Rightarrow> fpu \<Rightarrow> u32 \<times> fpu_reg \<times> fpu" where
  "FPU_u_div a b dest cw sign s =
     (let e = word_of_int (max (exponent16 a - exponent16 b) EXP_WAY_UNDER) :: u16;
          bugged = (\<lambda>n. (- 1, dest\<lparr>exp16 := e\<rparr>, FPU_exception (EX_INTERNAL OR n) s)) in
      if \<not> bit (sigh b) 31 then bugged 0x202
      else
        (case (if sigl b = 0 then Some (u_div_short (sigh a) (sigl a) (sigh b))
               else u_div_full (sigh a) (sigl a) (sigh b) (sigl b)) of
           None \<Rightarrow> bugged 0x204
         | Some (result_2, result_1, eax, ovfl) \<Rightarrow>
             (let (result_2, result_1, eax, e) =
                    (if ovfl then
                       (let (r2, c) = rcr1 result_2 True; (r1, c) = rcr1 result_1 c; (x, c) = rcr1 eax c in
                        (r2, r1, x, e + 1))
                     else (result_2, result_1, eax, e)) in
              fpu_reg_round result_2 result_1 eax (e - 1) cw sign s)))"

section \<open>Operands and tags\<close>

text \<open>
  An operand is a register of the stack or loaded data with its tag; \<^verbatim>\<open>REV\<close> and \<^verbatim>\<open>DEST_RM\<close> are Booleans. A negative
  return value is one with the top bit set.
\<close>

datatype operand_src = Loaded fpu_reg u32 | Stack regnr

fun src_reg :: "operand_src \<Rightarrow> fpu \<Rightarrow> fpu_reg" where
  "src_reg (Loaded r tag) s = r"
| "src_reg (Stack i) s = st s i"

fun src_tag :: "operand_src \<Rightarrow> fpu \<Rightarrow> u32" where
  "src_tag (Loaded r tag) s = tag"
| "src_tag (Stack i) s = FPU_gettagi s i"

text \<open>The end of every arithmetic routine: the result and its tag, or the sign back if the kernel failed.\<close>

definition arith_done :: "regnr \<Rightarrow> bool \<Rightarrow> u32 \<times> fpu_reg \<times> fpu \<Rightarrow> u32 \<times> fpu" where
  "arith_done deststnr saved_sign = (\<lambda>(tag, dest, s).
     (let s = set_st deststnr dest s in
      if bit tag 31 then (tag, set_st deststnr (setsign saved_sign dest) s)
      else (tag, FPU_settagi deststnr tag s)))"

definition both_denormal :: "u32 \<Rightarrow> u32 \<Rightarrow> bool" where
  "both_denormal taga tagb \<longleftrightarrow>
     (taga = TAG_Valid \<and> tagb = TW_Denormal) \<or> (taga = TW_Denormal \<and> tagb = TAG_Valid) \<or>
     (taga = TW_Denormal \<and> tagb = TW_Denormal)"

text \<open>\<^verbatim>\<open>setsign(dest, (control_w & CW_RC) != RC_DOWN ? SIGN_POS : SIGN_NEG)\<close> after a zero.\<close>

definition exact_zero :: "u32 \<Rightarrow> regnr \<Rightarrow> fpu \<Rightarrow> u32 \<times> fpu" where
  "exact_zero cw deststnr s =
     (TAG_Zero, set_st deststnr (setsign (cw AND CW_RC = RC_DOWN) CONST_Z) (FPU_copy_to_regi CONST_Z TAG_Zero deststnr s))"

section \<open>\<^verbatim>\<open>reg_add_sub.c\<close>\<close>

definition add_sub_specials ::
  "fpu_reg \<Rightarrow> u32 \<Rightarrow> bool \<Rightarrow> fpu_reg \<Rightarrow> u32 \<Rightarrow> bool \<Rightarrow> regnr \<Rightarrow> u32 \<Rightarrow> fpu \<Rightarrow> u32 \<times> fpu" where
  "add_sub_specials a taga signa b tagb signb deststnr cw s =
     (let (r, s) = (if taga = TW_Denormal \<or> tagb = TW_Denormal then denormal_operand s else (0, s));
          copy = (\<lambda>x tag sign.
            (let (d, tag) = (if tag = TW_Denormal \<and> sigh x AND 0x80000000 \<noteq> 0 then (addexponent 1 x, TAG_Valid)
                             else (x, if tag > TAG_Empty then TAG_Special else tag)) in
             (tag, FPU_settagi deststnr tag (set_st deststnr (setsign sign d) s)))) in
      if bit r 31 then (FPU_Exception, s)
      else if taga = TAG_Zero then
        (if tagb = TAG_Zero then
           (let s = FPU_copy_to_regi a TAG_Zero deststnr s in
            (TAG_Zero, set_st deststnr (setsign (if signa \<noteq> signb then cw AND CW_RC = RC_DOWN else signa) a) s))
         else copy b tagb signb)
      else if tagb = TAG_Zero then copy a taga signa
      else if taga = TW_Infinity then
        (if tagb \<noteq> TW_Infinity \<or> signa = signb then
           (taga, set_st deststnr (setsign signa a) (FPU_copy_to_regi a TAG_Special deststnr s))
         else arith_invalid deststnr s)
      else if tagb = TW_Infinity then
        (tagb, set_st deststnr (setsign signb b) (FPU_copy_to_regi b TAG_Special deststnr s))
      else (FPU_Exception, FPU_exception (EX_INTERNAL OR 0x101) s))"

definition valid_add ::
  "fpu_reg \<Rightarrow> bool \<Rightarrow> int \<Rightarrow> fpu_reg \<Rightarrow> bool \<Rightarrow> int \<Rightarrow> regnr \<Rightarrow> u32 \<Rightarrow> fpu \<Rightarrow> u32 \<times> fpu" where
  "valid_add a signa expa b signb expb deststnr cw s =
     (let dest = st s deststnr; saved_sign = getsign dest in
      if signa = signb then arith_done deststnr saved_sign (FPU_u_add a b dest cw signa expa expb s)
      else
        (let diff = compare_diff a expa b expb in
         if diff > 0 then arith_done deststnr saved_sign (FPU_u_sub a b dest cw signa expa expb s)
         else if diff < 0 then arith_done deststnr saved_sign (FPU_u_sub b a dest cw signb expb expa s)
         else exact_zero cw deststnr s))"

definition FPU_add :: "fpu_reg \<Rightarrow> u32 \<Rightarrow> regnr \<Rightarrow> u32 \<Rightarrow> fpu \<Rightarrow> u32 \<times> fpu" where
  "FPU_add b tagb deststnr cw s =
     (let a = st s 0; taga = FPU_gettag0 s; signa = getsign a; signb = getsign b in
      if taga OR tagb = 0 then valid_add a signa (exponent a) b signb (exponent b) deststnr cw s
      else
        (let taga = special_tag a taga; tagb = special_tag b tagb in
         if both_denormal taga tagb then
           (let (r, s) = denormal_operand s in
            if bit r 31 then (FPU_Exception, s)
            else
              (let (_, x, s) = FPU_to_exp16 a s; (_, y, s) = FPU_to_exp16 b s in
               valid_add x signa (exponent16 x) y signb (exponent16 y) deststnr cw s))
         else if taga = TW_NaN \<or> tagb = TW_NaN then
           (if deststnr = 0 then real_2op_NaN b tagb deststnr a s else real_2op_NaN a taga deststnr a s)
         else add_sub_specials a taga signa b tagb signb deststnr cw s))"

definition valid_subtract ::
  "fpu_reg \<Rightarrow> bool \<Rightarrow> int \<Rightarrow> fpu_reg \<Rightarrow> bool \<Rightarrow> int \<Rightarrow> regnr \<Rightarrow> u32 \<Rightarrow> fpu \<Rightarrow> u32 \<times> fpu" where
  "valid_subtract a signa expa b signb expb deststnr cw s =
     (let dest = st s deststnr; saved_sign = getsign dest; diff = compare_diff a expa b expb in
      if signa = signb then
        (if diff > 0 then arith_done deststnr saved_sign (FPU_u_sub a b dest cw signa expa expb s)
         else if diff = 0 then exact_zero cw deststnr s
         else arith_done deststnr saved_sign (FPU_u_sub b a dest cw (\<not> signa) expb expa s))
      else arith_done deststnr saved_sign (FPU_u_add a b dest cw signa expa expb s))"

definition FPU_sub :: "bool \<Rightarrow> bool \<Rightarrow> operand_src \<Rightarrow> regnr \<Rightarrow> u32 \<Rightarrow> fpu \<Rightarrow> u32 \<times> fpu" where
  "FPU_sub reversed dest_rm src rm cw s =
     (let a = st s 0; taga = FPU_gettag0 s;
          b = src_reg src s; tagb = src_tag src s;
          loaded = (case src of Loaded _ _ \<Rightarrow> True | Stack _ \<Rightarrow> False);
          deststnr = (if \<not> loaded \<and> dest_rm then rm else 0);
          signa = (getsign a \<noteq> reversed); signb = (getsign b \<noteq> reversed) in
      if taga OR tagb = 0 then valid_subtract a signa (exponent a) b signb (exponent b) deststnr cw s
      else
        (let taga = special_tag a taga; tagb = special_tag b tagb in
         if both_denormal taga tagb then
           (let (r, s) = denormal_operand s in
            if bit r 31 then (FPU_Exception, s)
            else
              (let (_, x, s) = FPU_to_exp16 a s; (_, y, s) = FPU_to_exp16 b s in
               valid_subtract x signa (exponent16 x) y signb (exponent16 y) deststnr cw s))
         else if taga = TW_NaN \<or> tagb = TW_NaN then
           (let (d1, d2) = (if reversed then (b, a) else (a, b)) in
            if loaded then real_2op_NaN b tagb deststnr d1 s
            else if dest_rm then real_2op_NaN a taga deststnr d2 s
            else real_2op_NaN b tagb deststnr d2 s)
         else add_sub_specials a taga signa b tagb (\<not> signb) deststnr cw s))"

section \<open>\<^verbatim>\<open>reg_mul.c\<close> and \<^verbatim>\<open>reg_divide.c\<close>\<close>

definition signed_zero :: "bool \<Rightarrow> regnr \<Rightarrow> fpu \<Rightarrow> u32 \<times> fpu" where
  "signed_zero sign deststnr s =
     (TAG_Zero, set_st deststnr (setsign sign CONST_Z) (FPU_copy_to_regi CONST_Z TAG_Zero deststnr s))"

definition FPU_mul :: "fpu_reg \<Rightarrow> u32 \<Rightarrow> regnr \<Rightarrow> u32 \<Rightarrow> fpu \<Rightarrow> u32 \<times> fpu" where
  "FPU_mul b tagb deststnr cw s =
     (let a = st s deststnr; taga = FPU_gettagi s deststnr;
          saved_sign = getsign a; sign = (getsign a \<noteq> getsign b);
          denormal = (\<lambda>taga tagb s. if taga = TW_Denormal \<or> tagb = TW_Denormal then denormal_operand s else (0, s));
          infinity = (\<lambda>x s. (TAG_Special, set_st deststnr (setsign sign x) (FPU_copy_to_regi x TAG_Special deststnr s))) in
      if taga OR tagb = 0 then
        arith_done deststnr saved_sign (FPU_u_mul a b a cw sign (exponent a + exponent b) s)
      else
        (let taga = special_tag a taga; tagb = special_tag b tagb in
         if both_denormal taga tagb then
           (let (r, s) = denormal_operand s in
            if bit r 31 then (FPU_Exception, s)
            else
              (let (_, x, s) = FPU_to_exp16 a s; (_, y, s) = FPU_to_exp16 b s in
               arith_done deststnr saved_sign (FPU_u_mul x y a cw sign (exponent16 x + exponent16 y) s)))
         else if taga \<le> TW_Denormal \<and> tagb \<le> TW_Denormal then
           (let (r, s) = denormal taga tagb s in
            if bit r 31 then (FPU_Exception, s) else signed_zero sign deststnr s)
         else if taga = TW_NaN \<or> tagb = TW_NaN then real_2op_NaN b tagb deststnr (st s 0) s
         else if (taga = TW_Infinity \<and> tagb = TAG_Zero) \<or> (tagb = TW_Infinity \<and> taga = TAG_Zero) then
           arith_invalid deststnr s
         else
           (let (r, s) = denormal taga tagb s in
            if bit r 31 then (FPU_Exception, s)
            else if taga = TW_Infinity then infinity a s
            else if tagb = TW_Infinity then infinity b s
            else (FPU_Exception, FPU_exception (EX_INTERNAL OR 0x102) s))))"

text \<open>The division of two valid operands does not restore the sign when the kernel fails.\<close>

definition div_done :: "regnr \<Rightarrow> u32 \<times> fpu_reg \<times> fpu \<Rightarrow> u32 \<times> fpu" where
  "div_done deststnr = (\<lambda>(tag, dest, s).
     (let s = set_st deststnr dest s in
      if bit tag 31 then (tag, s) else (tag, FPU_settagi deststnr tag s)))"

definition div_NaN :: "bool \<Rightarrow> bool \<Rightarrow> operand_src \<Rightarrow> regnr \<Rightarrow> fpu \<Rightarrow> u32 \<times> fpu" where
  "div_NaN reversed dest_rm src rm s =
     (case src of
        Loaded r tag \<Rightarrow> real_2op_NaN r tag 0 (st s 0) s
      | Stack _ \<Rightarrow>
          (let d = (if reversed then st s 0 else st s rm) in
           if dest_rm then real_2op_NaN (st s 0) (special_tag (st s 0) (FPU_gettag0 s)) rm d s
           else real_2op_NaN (st s rm) (special_tag (st s rm) (FPU_gettagi s rm)) 0 d s))"

definition FPU_div :: "bool \<Rightarrow> bool \<Rightarrow> operand_src \<Rightarrow> regnr \<Rightarrow> u32 \<Rightarrow> fpu \<Rightarrow> u32 \<times> fpu" where
  "FPU_div reversed dest_rm src rm cw s =
     (let deststnr = (if dest_rm then rm else 0);
          (a, taga, b, tagb) =
            (if reversed then (src_reg src s, src_tag src s, st s 0, FPU_gettag0 s)
             else (st s 0, FPU_gettag0 s, src_reg src s, src_tag src s));
          sign = (getsign a \<noteq> getsign b); dest = st s deststnr;
          denormal = (\<lambda>tag s. if tag = TW_Denormal then denormal_operand s else (0, s)) in
      if taga OR tagb = 0 then
        div_done deststnr (FPU_u_div (setpositive a) (setpositive b) dest cw sign s)
      else
        (let taga = special_tag a taga; tagb = special_tag b tagb in
         if both_denormal taga tagb then
           (let (r, s) = denormal_operand s in
            if bit r 31 then (FPU_Exception, s)
            else
              (let (_, x, s) = FPU_to_exp16 a s; (_, y, s) = FPU_to_exp16 b s in
               div_done deststnr (FPU_u_div x y dest cw sign s)))
         else if taga \<le> TW_Denormal \<and> tagb \<le> TW_Denormal then
           (if tagb \<noteq> TAG_Zero then
              (let (r, s) = denormal tagb s in
               if bit r 31 then (FPU_Exception, s) else signed_zero sign deststnr s)
            else if taga = TAG_Zero then arith_invalid deststnr s
            else FPU_divide_by_zero deststnr sign s)
         else if taga = TW_NaN \<or> tagb = TW_NaN then div_NaN reversed dest_rm src rm s
         else if taga = TW_Infinity then
           (if tagb = TW_Infinity then arith_invalid deststnr s
            else
              (let (r, s) = denormal tagb s in
               if bit r 31 then (FPU_Exception, s)
               else (taga, set_st deststnr (setsign sign a) (FPU_copy_to_regi a TAG_Special deststnr s))))
         else if tagb = TW_Infinity then
           (let (r, s) = denormal taga s in
            if bit r 31 then (FPU_Exception, s) else signed_zero sign deststnr s)
         else (FPU_Exception, FPU_exception (EX_INTERNAL OR 0x102) s)))"

section \<open>\<^verbatim>\<open>fpu_arith.c\<close>\<close>

definition pop_if :: "u32 \<times> fpu \<Rightarrow> fpu" where
  "pop_if = (\<lambda>(r, s). if \<not> bit r 31 then FPU_pop s else s)"

definition fadd :: "fpu \<Rightarrow> fpu" where
  "fadd s = (let s = clear_C1 s; i = rm_reg s in snd (FPU_add (st s i) (FPU_gettagi s i) 0 (control_word s) s))"

definition fmul :: "fpu \<Rightarrow> fpu" where
  "fmul s = (let s = clear_C1 s; i = rm_reg s in snd (FPU_mul (st s i) (FPU_gettagi s i) 0 (control_word s) s))"

definition fsub :: "fpu \<Rightarrow> fpu" where
  "fsub s = (let s = clear_C1 s; i = rm_reg s in snd (FPU_sub False False (Stack i) i (control_word s) s))"

definition fsubr :: "fpu \<Rightarrow> fpu" where
  "fsubr s = (let s = clear_C1 s; i = rm_reg s in snd (FPU_sub True False (Stack i) i (control_word s) s))"

definition fdiv :: "fpu \<Rightarrow> fpu" where
  "fdiv s = (let s = clear_C1 s; i = rm_reg s in snd (FPU_div False False (Stack i) i (control_word s) s))"

definition fdivr :: "fpu \<Rightarrow> fpu" where
  "fdivr s = (let s = clear_C1 s; i = rm_reg s in snd (FPU_div True False (Stack i) i (control_word s) s))"

definition fadd_i :: "fpu \<Rightarrow> fpu" where
  "fadd_i s = (let s = clear_C1 s; i = rm_reg s in snd (FPU_add (st s i) (FPU_gettagi s i) i (control_word s) s))"

definition fmul_i :: "fpu \<Rightarrow> fpu" where
  "fmul_i s = (let s = clear_C1 s in snd (FPU_mul (st s 0) (FPU_gettag0 s) (rm_reg s) (control_word s) s))"

definition fsubri :: "fpu \<Rightarrow> fpu" where
  "fsubri s = (let s = clear_C1 s; i = rm_reg s in snd (FPU_sub False True (Stack i) i (control_word s) s))"

definition fsub_i :: "fpu \<Rightarrow> fpu" where
  "fsub_i s = (let s = clear_C1 s; i = rm_reg s in snd (FPU_sub True True (Stack i) i (control_word s) s))"

definition fdivri :: "fpu \<Rightarrow> fpu" where
  "fdivri s = (let s = clear_C1 s; i = rm_reg s in snd (FPU_div False True (Stack i) i (control_word s) s))"

definition fdiv_i :: "fpu \<Rightarrow> fpu" where
  "fdiv_i s = (let s = clear_C1 s; i = rm_reg s in snd (FPU_div True True (Stack i) i (control_word s) s))"

definition faddp :: "fpu \<Rightarrow> fpu" where
  "faddp s = (let s = clear_C1 s; i = rm_reg s in pop_if (FPU_add (st s i) (FPU_gettagi s i) i (control_word s) s))"

definition fmulp :: "fpu \<Rightarrow> fpu" where
  "fmulp s = (let s = clear_C1 s in pop_if (FPU_mul (st s 0) (FPU_gettag0 s) (rm_reg s) (control_word s) s))"

definition fsubrp :: "fpu \<Rightarrow> fpu" where
  "fsubrp s = (let s = clear_C1 s; i = rm_reg s in pop_if (FPU_sub False True (Stack i) i (control_word s) s))"

definition fsubp :: "fpu \<Rightarrow> fpu" where
  "fsubp s = (let s = clear_C1 s; i = rm_reg s in pop_if (FPU_sub True True (Stack i) i (control_word s) s))"

definition fdivrp :: "fpu \<Rightarrow> fpu" where
  "fdivrp s = (let s = clear_C1 s; i = rm_reg s in pop_if (FPU_div False True (Stack i) i (control_word s) s))"

definition fdivp :: "fpu \<Rightarrow> fpu" where
  "fdivp s = (let s = clear_C1 s; i = rm_reg s in pop_if (FPU_div True True (Stack i) i (control_word s) s))"

end
