(* ===== verification/Fpu_Entry.thy ===== *)
theory Fpu_Entry
  imports Fpu_Load_Store Fpu_Address Fpu_Arith
begin

text \<open>
  The emulator's entry point (\<^verbatim>\<open>fpu_entry.c\<close>): prefixes, decoding, dispatch, the pointers to the last instruction
  and operand, and the loop that goes on with the next instruction while it is one for the FPU. Parameters are the
  transcendental instructions (\<^verbatim>\<open>FPU_triga\<close>, \<^verbatim>\<open>FPU_trigb\<close>), what \<^verbatim>\<open>need_resched\<close> answers after each
  instruction, whether the task has used the FPU before and could be given a state, and the half of
  \<^verbatim>\<open>data_sel_off\<close> the code never initialises.
\<close>

record emu_env =
  ee_seg :: seg_env
  ee_triga :: "fpu \<Rightarrow> unit fres"
  ee_trigb :: "fpu \<Rightarrow> unit fres"
  ee_resched :: "nat \<Rightarrow> bool"
  ee_used_math :: bool
  ee_init_fpu_ok :: bool
  ee_stack_fill :: u16

section \<open>Prefixes\<close>

definition no_override :: "addr_modes \<Rightarrow> addr_modes" where
  "no_override am = am\<lparr>am_address_size := 0, am_operand_size := 0, am_segment := 7\<rparr>"

definition prefix_override :: "u8 \<Rightarrow> addr_modes \<Rightarrow> addr_modes option" where
  "prefix_override byte am =
     (if byte = 0x67 then Some (am\<lparr>am_address_size := 0x67\<rparr>)
      else if byte = 0x66 then Some (am\<lparr>am_operand_size := 0x66\<rparr>)
      else if byte = 0x2e then Some (am\<lparr>am_segment := 1\<rparr>)
      else if byte = 0x26 then Some (am\<lparr>am_segment := 3\<rparr>)
      else if byte = 0x36 then Some (am\<lparr>am_segment := 6\<rparr>)
      else if byte = 0x64 then Some (am\<lparr>am_segment := 4\<rparr>)
      else if byte = 0x65 then Some (am\<lparr>am_segment := 5\<rparr>)
      else if byte = 0x3e then Some (am\<lparr>am_segment := 2\<rparr>)
      else if byte = 0xf3 \<or> byte = 0xf2 then Some am
      else None)"

text \<open>
  The loop over the prefix bytes. \<^verbatim>\<open>FPU_code_access_ok\<close> always tests \<^verbatim>\<open>FPU_EIP\<close>, which the loop does not move, so only
  the first test matters; a byte that cannot be read is 0, so the loop ends at the limit of user space.
\<close>

lemma get1_top: "get1 s (- 1) = 0"
  using word_n1_ge [of "m_limit (fpu_m s)"] by (simp add: get1_def get_user_1_def)

lemma prefix_advances:
  assumes "prefix_override (get1 s ip) am = Some am'"
  shows "unat (ip + 1) = unat ip + 1"
proof -
  have "get1 s ip \<noteq> 0" using assms by (auto simp: prefix_override_def)
  then have "ip \<noteq> - 1" using get1_top by metis
  then have "1 + ip \<noteq> 0" by (simp add: add_eq_0_iff)
  then have "unat (1 + ip) = Suc (unat ip)" by (rule unatSuc)
  then show ?thesis by (simp add: add.commute)
qed

function prefix_loop :: "fpu \<Rightarrow> u32 \<Rightarrow> addr_modes \<Rightarrow> u8 \<times> u32 \<times> addr_modes" where
  "prefix_loop s ip am =
     (case prefix_override (get1 s ip) am of
        Some am' \<Rightarrow> prefix_loop s (ip + 1) am'
      | None \<Rightarrow> (get1 s ip, ip, am))"
  by pat_completeness auto
termination
proof (relation "measure (\<lambda>(s, ip, am). 2 ^ 32 - unat ip)")
  fix s ip am am'
  assume "prefix_override (get1 s ip) am = Some am'"
  from prefix_advances [OF this] unat_lt_32 [of ip]
  show "((s, ip + 1, am'), s, ip, am) \<in> measure (\<lambda>(s, ip, am). 2 ^ 32 - unat ip)" by simp
qed simp

text \<open>On \<^verbatim>\<open>fwait\<close> the routine succeeds without moving the instruction pointer over the prefixes.\<close>

definition valid_prefix :: "addr_modes \<Rightarrow> fpu \<Rightarrow> (bool \<times> u8 \<times> addr_modes) fres" where
  "valid_prefix am s =
     (if \<not> FPU_access_ok s (fpu_eip s) 1 then math_abort SIGSEGV s
      else
        (let (byte, ip, am) = prefix_loop s (fpu_eip s) (no_override am) in
         if byte = 0x9b then Ret (True, byte, am) s
         else if byte AND 0xf8 = 0xd8 then Ret (True, byte, am) (set_fpu_eip ip s)
         else Ret (False, byte, am) s))"

section \<open>The last instruction and operand\<close>

definition set_instruction_address :: "u32 \<Rightarrow> u16 \<Rightarrow> u16 \<Rightarrow> fpu \<Rightarrow> fpu" where
  "set_instruction_address offset selector opcode s =
     s\<lparr>soft_fip := offset, soft_fcs := ucast selector OR push_bit 16 (ucast opcode AND 0x7ff)\<rparr>"

definition set_operand_address :: "u16 \<Rightarrow> address \<Rightarrow> fpu \<Rightarrow> fpu" where
  "set_operand_address fill a s =
     s\<lparr>soft_foo := addr_offset a, soft_fos := ucast (addr_selector a) OR push_bit 16 (ucast fill)\<rparr>"

section \<open>Arithmetic with a memory operand\<close>

definition load_operand :: "u8 \<Rightarrow> u32 \<Rightarrow> fpu \<Rightarrow> (u32 \<times> fpu_reg) fres" where
  "load_operand k a =
     (if k = 0 then FPU_load_single a else if k = 1 then FPU_load_int32 a
      else if k = 2 then FPU_load_double a else FPU_load_int16 a)"

definition is_fcom :: "u8 \<Rightarrow> bool" where
  "is_fcom modrm \<longleftrightarrow> modrm AND 0x30 = 0x10"

text \<open>The response to a NaN among the operands.\<close>

definition mem_NaN :: "u8 \<Rightarrow> u32 \<Rightarrow> u32 \<Rightarrow> fpu_reg \<Rightarrow> fpu \<Rightarrow> fpu" where
  "mem_NaN modrm status1 tag r s =
     (let s = s\<lparr>partial_status := status1\<rparr> in
      if is_fcom modrm then
        (let s = setcc (SW_C3 OR SW_C2 OR SW_C0) (FPU_exception EX_Invalid s) in
         if modrm AND 0x08 \<noteq> 0 \<and> masked CW_Invalid s then FPU_pop s else s)
      else
        (let tag = special_tag r tag in
         if modrm AND 0x28 = 0x20 then snd (real_2op_NaN r tag 0 r s)
         else snd (real_2op_NaN r tag 0 (st s 0) s)))"

text \<open>A denormal operand whose exception is not masked ends the instruction; only \<^verbatim>\<open>fdivr\<close> by zero goes on.\<close>

definition mem_unmasked :: "u8 \<Rightarrow> u32 \<Rightarrow> u32 \<Rightarrow> u32 \<Rightarrow> fpu_reg \<Rightarrow> fpu \<Rightarrow> fpu" where
  "mem_unmasked modrm status1 st0_tag tag r s =
     (if modrm AND 0x38 = 0x38 \<and> st0_tag = TAG_Zero \<and>
         (tag = TAG_Valid \<or> (tag = TAG_Special \<and> exponent r = EXP_UNDER)) then
        (let (x, s) = FPU_divide_by_zero 0 (getsign r) s in
         if bit x 31 then or_status (status1 AND SW_Denorm_Op) (clear_status SW_Denorm_Op s)
         else set_st 0 (setsign (getsign r) (st s 0)) s)
      else s)"

definition mem_operation :: "u8 \<Rightarrow> u32 \<Rightarrow> u32 \<Rightarrow> bool \<Rightarrow> u32 \<Rightarrow> fpu_reg \<Rightarrow> fpu \<Rightarrow> fpu" where
  "mem_operation modrm status1 st0_tag unmasked tag r s =
     (let k = drop_bit 3 modrm AND 7; cw = control_word s in
      if k = 0 then snd (FPU_add r tag 0 cw (clear_C1 s))
      else if k = 1 then snd (FPU_mul r tag 0 cw (clear_C1 s))
      else if k = 2 then snd (FPU_compare_st_data r tag s)
      else if k = 3 then (let (x, s) = FPU_compare_st_data r tag s in if \<not> x \<and> \<not> unmasked then FPU_pop s else s)
      else if k = 4 then snd (FPU_sub False False (Loaded r tag) 0 cw (clear_C1 s))
      else if k = 5 then snd (FPU_sub True False (Loaded r tag) 0 cw (clear_C1 s))
      else if k = 6 then snd (FPU_div False False (Loaded r tag) 0 cw (clear_C1 s))
      else
        (let s = clear_C1 s;
             s = (if st0_tag = TAG_Zero then s\<lparr>partial_status := status1\<rparr> else s) in
         snd (FPU_div True False (Loaded r tag) 0 cw s)))"

definition mem_arith :: "u8 \<Rightarrow> u8 \<Rightarrow> addr_modes \<Rightarrow> u32 \<Rightarrow> fpu \<Rightarrow> unit fres" where
  "mem_arith byte1 modrm am a s =
     (let status1 = partial_status s AND 0xffff; st0_tag = FPU_gettag0 s; k = drop_bit 1 byte1 AND 3 in
      if st0_tag = TAG_Empty then
        (if is_fcom modrm then
           (let s = setcc (SW_C3 OR SW_C2 OR SW_C0) (FPU_exception EX_StackUnder s) in
            Ret () (if modrm AND 0x08 \<noteq> 0 \<and> masked CW_Invalid s then FPU_pop s else s))
         else Ret () (FPU_stack_underflow s))
      else if am_default_mode am AND 4 \<noteq> 0 \<and> access_limit s < data_sizes_16 ! unat k then math_abort SIGSEGV s
      else
        fbind (load_operand k a s) (\<lambda>(x, r) s.
          (let tag = x AND 0xff; unmasked = (x AND NOT 0xff \<noteq> 0) in
           if (st0_tag = TAG_Special \<and> isNaN (st s 0)) \<or> (tag = TAG_Special \<and> isNaN r) then
             Ret () (mem_NaN modrm status1 tag r s)
           else if unmasked \<and> \<not> is_fcom modrm then Ret () (mem_unmasked modrm status1 st0_tag tag r s)
           else Ret () (mem_operation modrm status1 st0_tag unmasked tag r s))))"

section \<open>Instructions on registers\<close>

datatype st_type = R_NONE | R_REG0 | R_REGI | R_null | R_REGIi | R_REGIp

text \<open>\<^verbatim>\<open>_REGi_\<close>, \<^verbatim>\<open>_REGIc\<close> and \<^verbatim>\<open>_REGIn\<close> have the same value as \<^verbatim>\<open>_NONE_\<close>.\<close>

definition st_type_table :: "st_type list" where
  "st_type_table =
     [R_REGI, R_NONE, R_null, R_null, R_REGIi, R_NONE, R_REGIp, R_NONE,
      R_REGI, R_NONE, R_null, R_null, R_REGIi, R_REGI, R_REGIp, R_REGI,
      R_NONE, R_NONE, R_null, R_null, R_NONE, R_REG0, R_NONE, R_REG0,
      R_NONE, R_REG0, R_null, R_null, R_NONE, R_REG0, R_NONE, R_REG0,
      R_REGI, R_NONE, R_null, R_NONE, R_REGIi, R_NONE, R_REGIp, R_NONE,
      R_REGI, R_NONE, R_NONE, R_null, R_REGIi, R_NONE, R_REGIp, R_null,
      R_REGI, R_NONE, R_null, R_null, R_REGIi, R_null, R_REGIp, R_null,
      R_REGI, R_NONE, R_null, R_null, R_REGIi, R_null, R_REGIp, R_null]"

definition run_st :: "(fpu \<Rightarrow> fpu) \<Rightarrow> fpu \<Rightarrow> unit fres" where
  "run_st f s = Ret () (f s)"

definition st_instr_table :: "emu_env \<Rightarrow> (fpu \<Rightarrow> unit fres) list" where
  "st_instr_table env =
     [run_st fadd, run_st fld_i, FPU_illegal, FPU_illegal, run_st fadd_i, run_st ffree, run_st faddp, run_st ffreep,
      run_st fmul, run_st fxch_i, FPU_illegal, FPU_illegal, run_st fmul_i, run_st fxch_i, run_st fmulp, run_st fxch_i,
      run_st fcom_st, fp_nop, FPU_illegal, FPU_illegal, run_st fcom_st, run_st fst_i, run_st fcompst, run_st fstp_i,
      run_st fcompst, run_st fstp_i, FPU_illegal, FPU_illegal, run_st fcompst, run_st fstp_i, fcompp, run_st fstp_i,
      run_st fsub, FPU_etc, FPU_illegal, finit_instr, run_st fsubri, run_st fucom, run_st fsubrp, fstsw_instr,
      run_st fsubr, fconst, fucompp, FPU_illegal, run_st fsub_i, run_st fucomp, run_st fsubp, FPU_illegal,
      run_st fdiv, ee_triga env, FPU_illegal, FPU_illegal, run_st fdivri, FPU_illegal, run_st fdivrp, FPU_illegal,
      run_st fdivr, ee_trigb env, FPU_illegal, FPU_illegal, run_st fdiv_i, FPU_illegal, run_st fdivp, FPU_illegal]"

definition register_instr :: "emu_env \<Rightarrow> nat \<Rightarrow> fpu \<Rightarrow> unit fres" where
  "register_instr env i s =
     (let empty0 = (FPU_gettag0 s = TAG_Empty); empty_i = FPU_empty_i s (rm_reg s); run = (st_instr_table env ! i) s in
      case st_type_table ! i of
        R_NONE \<Rightarrow> run
      | R_REG0 \<Rightarrow> (if empty0 then Ret () (FPU_stack_underflow s) else run)
      | R_REGIi \<Rightarrow> (if empty0 \<or> empty_i then Ret () (FPU_stack_underflow_i (rm_reg s) s) else run)
      | R_REGIp \<Rightarrow> (if empty0 \<or> empty_i then Ret () (FPU_stack_underflow_pop (rm_reg s) s) else run)
      | R_REGI \<Rightarrow> (if empty0 \<or> empty_i then Ret () (FPU_stack_underflow s) else run)
      | R_null \<Rightarrow> FPU_illegal s)"

section \<open>One instruction\<close>

text \<open>The control instructions that do not wait for a pending exception.\<close>

definition no_wait :: "u8 \<Rightarrow> u8 \<Rightarrow> bool" where
  "no_wait byte1 modrm \<longleftrightarrow>
     (let code = push_bit 8 (ucast modrm) OR ucast byte1 :: u16 in
      code AND 0xf803 = 0xe003 \<or> (code AND 0x3003 = 0x3001 \<and> code AND 0xc000 \<noteq> 0xc000))"

definition memory_instr :: "emu_env \<Rightarrow> u8 \<Rightarrow> u8 \<Rightarrow> addr_modes \<Rightarrow> u32 \<Rightarrow> fpu \<Rightarrow> unit fres" where
  "memory_instr env byte1 modrm am code_limit s =
     fbind (if (am_default_mode am AND 1 \<noteq> 0) \<noteq> (am_address_size am = 0x67)
            then FPU_get_address_16 (ee_seg env) modrm am s else FPU_get_address (ee_seg env) modrm am s)
       (\<lambda>(a, data_sel_off) s.
         if am_default_mode am \<noteq> 0 \<and> code_limit < fpu_eip s - 1 then math_abort SIGSEGV s
         else if byte1 AND 1 = 0 then
           fbind (mem_arith byte1 modrm am a s)
             (\<lambda>_ s. Ret () (set_operand_address (ee_stack_fill env) data_sel_off s))
         else
           fbind (FPU_load_store (unat (drop_bit 1 ((modrm AND 0x38) OR (byte1 AND 6)))) am a s) (\<lambda>r s.
             (let s = s\<lparr>no_ip_update := r\<rparr> in
              Ret () (if r = 0 then set_operand_address (ee_stack_fill env) data_sel_off s else s))))"

definition emulate_one :: "emu_env \<Rightarrow> u8 \<Rightarrow> addr_modes \<Rightarrow> u32 \<Rightarrow> fpu \<Rightarrow> unit fres" where
  "emulate_one env byte1 am code_limit s =
     (let s = advance 1 (s\<lparr>no_ip_update := 0\<rparr>) in
      if am_default_mode am \<noteq> 0 \<and> code_limit < fpu_eip s then math_abort SIGSEGV s
      else if byte1 AND 0xf8 \<noteq> 0xd8 then
        (if byte1 = 0x9b then (if partial_status s AND SW_Summary \<noteq> 0 then math_abort SIGFPE s else Ret () s)
         else math_abort SIGILL (FPU_exception (EX_INTERNAL OR 0x128) s))
      else
        fbind (code1 s) (\<lambda>modrm s.
          if partial_status s AND SW_Summary \<noteq> 0 \<and> \<not> no_wait byte1 modrm then math_abort SIGFPE s
          else
            (let orig = orig_eip s; cs = ucast (pt_cs (fpu_regs s)); opcode = push_bit 8 (ucast byte1) OR ucast modrm;
                 s = s\<lparr>fpu_rm := modrm AND 7\<rparr> in
             fbind (if modrm < 0xc0 then memory_instr env byte1 modrm am code_limit s
                    else register_instr env (unat ((modrm AND 0x38) OR (byte1 AND 7)))
                           (s\<lparr>soft_foo := 0, soft_fos := set_selector (ucast (pt_ds (fpu_regs s))) (soft_fos s)\<rparr>))
               (\<lambda>_ s. Ret () (if no_ip_update s = 0 then set_instruction_address orig cs opcode s else s)))))"

section \<open>The loop\<close>

text \<open>
  The end: back to user space, a signal, or a kernel failure. In the segmented modes the last step reads the
  instruction pointer through the \<^verbatim>\<open>info\<close> pointer, which \<^verbatim>\<open>finit\<close> and \<^verbatim>\<open>fsave\<close> have cleared.
\<close>

datatype emu_result = Resume fpu | Signalled int fpu | Kernel_panic | Null_info fpu

definition emu_finish :: "addr_modes \<Rightarrow> u32 \<Rightarrow> fpu \<Rightarrow> emu_result" where
  "emu_finish am code_base s =
     (if am_default_mode am = 0 then Resume s
      else if \<not> info_set s then Null_info s
      else Resume (set_fpu_eip (fpu_eip s - code_base) s))"

partial_function (option) emu_loop ::
  "emu_env \<Rightarrow> u32 \<Rightarrow> u32 \<Rightarrow> nat \<Rightarrow> u8 \<Rightarrow> addr_modes \<Rightarrow> fpu \<Rightarrow> emu_result option" where
  "emu_loop env code_base code_limit n byte1 am s =
     (case emulate_one env byte1 am code_limit s of
        Abort sig s \<Rightarrow> Some (Signalled sig s)
      | Ret _ s \<Rightarrow>
          if fpu_lookahead s \<noteq> 0 \<and> \<not> ee_resched env n then
            (case valid_prefix am (s\<lparr>orig_eip := fpu_eip s - code_base\<rparr>) of
               Abort sig s \<Rightarrow> Some (Signalled sig s)
             | Ret (ok, byte1, am) s \<Rightarrow>
                 if ok then emu_loop env code_base code_limit (Suc n) byte1 am s
                 else Some (emu_finish am code_base s))
          else Some (emu_finish am code_base s))"

text \<open>\<^verbatim>\<open>__USER_CS\<close> is 0x73, \<^verbatim>\<open>__USER_DS\<close> 0x7b and \<^verbatim>\<open>__KERNEL_CS\<close> 0x60.\<close>

definition segment_limit :: "desc_struct \<Rightarrow> u32" where
  "segment_limit d =
     (let base = SEG_BASE_ADDR d; limit = base + (SEG_LIMIT d + 1) * SEG_GRANULARITY d - 1 in
      if limit < base then 0xffffffff else limit)"

definition math_emulate :: "emu_env \<Rightarrow> fpu \<Rightarrow> emu_result option" where
  "math_emulate env s =
     (if \<not> ee_used_math env \<and> \<not> ee_init_fpu_ok env then Some (Signalled 9 s)
      else
        (let s = (if ee_used_math env then s else finit_soft_fpu s);
             s = s\<lparr>info_set := True, orig_eip := fpu_eip s\<rparr>;
             regs = fpu_regs s; cs = ucast (pt_cs regs) :: u16; ds = ucast (pt_ds regs) :: u16;
             start = (\<lambda>mode base limit s.
               (let s = s\<lparr>fpu_lookahead := of_bool (\<not> bit (pt_flags regs) 8)\<rparr>;
                    am = \<lparr>am_address_size = 0, am_operand_size = 0, am_segment = 7, am_default_mode = mode\<rparr> in
                case valid_prefix am s of
                  Abort sig s \<Rightarrow> Some (Signalled sig s)
                | Ret (ok, byte1, am) s \<Rightarrow>
                    if \<not> ok then Some (case math_abort SIGILL (FPU_exception (EX_INTERNAL OR 0x126) s) :: unit fres of
                                         Abort sig s \<Rightarrow> Signalled sig s | Ret _ s \<Rightarrow> Resume s)
                    else emu_loop env base limit 0 byte1 am s)) in
         if bit (pt_flags regs) 17 then
           (let base = push_bit 4 (ucast cs) in start 1 base (base + 0xffff) (advance base s))
         else if cs = 0x73 \<and> ds = 0x7b then start 0 0 0 s
         else if cs = 0x60 then Some Kernel_panic
         else if cs AND 4 \<noteq> 4 then
           Some (case math_abort SIGILL s :: unit fres of Abort sig s \<Rightarrow> Signalled sig s | Ret _ s \<Rightarrow> Resume s)
         else
           (let d = LDT_DESCRIPTOR (ee_seg env) cs; base = SEG_BASE_ADDR d in
            start (if SEG_D_SIZE d then 4 else 5) base (segment_limit d) (advance base s))))"

end
