(* ===== verification/Fpu_Rounding.thy ===== *)
theory Fpu_Rounding
  imports Fpu_Arith Fpu_Float
begin

text \<open>
  The rounding routine rounds correctly. An exact magnitude is a natural number \<open>W\<close> over \<open>2 ^ k\<close>; the routine is
  given the quotient as a 64-bit significand and an extension word that tells whether the remainder is zero, less
  than half, half or more than half.
\<close>

section \<open>Extensions\<close>

definition ext_ok :: "nat \<Rightarrow> nat \<Rightarrow> u32 \<Rightarrow> bool" where
  "ext_ok W k x \<longleftrightarrow>
     (x = 0 \<longleftrightarrow> W mod 2 ^ k = 0) \<and>
     (2 ^ 31 \<le> unat x \<longleftrightarrow> 2 ^ k \<le> 2 * (W mod 2 ^ k)) \<and>
     (2 ^ 31 < unat x \<longleftrightarrow> 2 ^ k < 2 * (W mod 2 ^ k))"

lemma ext_ok_0: "ext_ok W 0 0"
  by (simp add: ext_ok_def)

lemma mod_parts: "(W :: nat) mod 2 ^ (k + n) = (W div 2 ^ k mod 2 ^ n) * 2 ^ k + W mod 2 ^ k"
  by (simp add: power_add mod_mult2_eq)

lemma div_parts: "(W :: nat) div 2 ^ (k + n) = W div 2 ^ k div 2 ^ n"
  by (simp add: power_add div_mult2_eq)

text \<open>A bit pattern with a sticky lowest bit.\<close>

lemma or_sticky:
  fixes e :: u32
  shows "e OR of_bool L = 0 \<longleftrightarrow> e = 0 \<and> \<not> L"
    and "2 ^ 31 \<le> unat (e OR of_bool L) \<longleftrightarrow> 2 ^ 31 \<le> unat e"
    and "2 ^ 31 < unat (e OR of_bool L) \<longleftrightarrow> 2 ^ 31 \<le> unat e \<and> (unat e mod 2 ^ 31 \<noteq> 0 \<or> L)"
proof -
  show z: "e OR of_bool L = 0 \<longleftrightarrow> e = 0 \<and> \<not> L" by (cases L) (auto simp: or_eq_0_iff)
  have b: "bit (e OR of_bool L) 31 \<longleftrightarrow> bit e 31" by (cases L) (simp_all add: bit_or_iff bit_1_iff)
  then show h: "2 ^ 31 \<le> unat (e OR of_bool L) \<longleftrightarrow> 2 ^ 31 \<le> unat e" by (simp only: bit31_ge)
  have low: "unat (e OR of_bool L) mod 2 ^ 31 = 0 \<longleftrightarrow> unat e mod 2 ^ 31 = 0 \<and> \<not> L"
  proof -
    have "unat (e OR of_bool L) mod 2 ^ 31 = 0 \<longleftrightarrow> (e OR of_bool L) AND 0x7fffffff = 0"
      unfolding and_7fffffff [symmetric] by (rule unat_eq_zero)
    also have "\<dots> \<longleftrightarrow> (e AND 0x7fffffff) OR (of_bool L AND 0x7fffffff) = 0"
      by (simp only: and.commute [of _ "0x7fffffff"] bit.conj_disj_distrib)
    also have "\<dots> \<longleftrightarrow> e AND 0x7fffffff = 0 \<and> \<not> L" by (cases L) (auto simp: or_eq_0_iff)
    also have "\<dots> \<longleftrightarrow> unat e mod 2 ^ 31 = 0 \<and> \<not> L" unfolding and_7fffffff [symmetric] by (simp only: unat_eq_zero)
    finally show ?thesis .
  qed
  have "2 ^ 31 < n \<longleftrightarrow> 2 ^ 31 \<le> n \<and> n mod 2 ^ 31 \<noteq> 0" if "n < 2 ^ 32" for n :: nat
  proof -
    have "n mod 2 ^ 31 = n - 2 ^ 31" if "2 ^ 31 \<le> n" using that \<open>n < 2 ^ 32\<close> by (simp add: le_mod_geq)
    then show ?thesis by auto
  qed
  from this [OF unat_lt_32 [of "e OR of_bool L"]]
  show "2 ^ 31 < unat (e OR of_bool L) \<longleftrightarrow> 2 ^ 31 \<le> unat e \<and> (unat e mod 2 ^ 31 \<noteq> 0 \<or> L)"
    by (simp only: h low de_Morgan_conj not_not)
qed

text \<open>A right shift by \<open>n\<close> with 32 bits kept and the rest collected in the lowest one.\<close>

lemma ext_sticky:
  assumes e: "unat e = ext_bits (W div 2 ^ k) n" and L: "L \<longleftrightarrow> ext_lost (W div 2 ^ k) n \<or> W mod 2 ^ k \<noteq> 0" and n: "0 < n"
  shows "ext_ok W (k + n) (e OR of_bool L)"
proof -
  define v r where "v = W div 2 ^ k" and "r = W mod 2 ^ k"
  define p q :: nat where "p = 2 ^ k" and "q = 2 ^ n"
  define m where "m = v mod q"
  have W: "W mod 2 ^ (k + n) = m * p + r" unfolding mod_parts m_def v_def r_def p_def q_def ..
  have r: "r < p" by (simp add: r_def p_def)
  have pq: "(2::nat) ^ (k + n) = p * q" by (simp add: p_def q_def power_add)
  have ev: "even q" using n by (simp add: q_def)
  note X = ext_half [of v n, folded q_def m_def, folded e [folded v_def]]
  have z: "e = 0 \<and> \<not> ext_lost v n \<longleftrightarrow> m = 0" using X(3) by (simp add: unat_eq_zero)
  define t u where "t = m * p" and "u = p * q"
  have mp: "p * (2 * m) = 2 * t" by (simp add: t_def)
  have ge: "u \<le> 2 * (t + r) \<longleftrightarrow> q \<le> 2 * m"
  proof
    assume a: "u \<le> 2 * (t + r)"
    show "q \<le> 2 * m"
    proof (rule ccontr)
      assume "\<not> q \<le> 2 * m"
      with ev have "2 * m + 2 \<le> q" by presburger
      then have "p * (2 * m + 2) \<le> u" unfolding u_def by (rule mult_le_mono2)
      then have "2 * t + 2 * p \<le> u" by (simp only: add_mult_distrib2 mp mult.commute [of p 2])
      then show False using a r by simp
    qed
  next
    assume "q \<le> 2 * m"
    then have "u \<le> p * (2 * m)" unfolding u_def by (rule mult_le_mono2)
    then show "u \<le> 2 * (t + r)" unfolding mp by simp
  qed
  have gt: "u < 2 * (t + r) \<longleftrightarrow> q < 2 * m \<or> (q \<le> 2 * m \<and> r \<noteq> 0)"
  proof
    assume a: "u < 2 * (t + r)"
    then have "q \<le> 2 * m" using ge by simp
    moreover have "q < 2 * m" if "r = 0"
    proof -
      have "p * q < p * (2 * m)" unfolding mp u_def [symmetric] using a that by simp
      then show ?thesis by (simp only: mult_less_cancel1)
    qed
    ultimately show "q < 2 * m \<or> (q \<le> 2 * m \<and> r \<noteq> 0)" by blast
  next
    assume "q < 2 * m \<or> (q \<le> 2 * m \<and> r \<noteq> 0)"
    then show "u < 2 * (t + r)"
    proof
      assume "q < 2 * m"
      then have "u < p * (2 * m)" using r unfolding u_def by (intro mult_strict_left_mono) simp_all
      then show ?thesis unfolding mp by simp
    next
      assume a: "q \<le> 2 * m \<and> r \<noteq> 0"
      then have "u \<le> p * (2 * m)" unfolding u_def by (intro mult_le_mono2) simp
      then show ?thesis using a unfolding mp by simp
    qed
  qed
  have "e OR of_bool L = 0 \<longleftrightarrow> t + r = 0"
    unfolding or_sticky(1) L [folded v_def r_def] t_def using z r by auto
  moreover have "2 ^ 31 \<le> unat (e OR of_bool L) \<longleftrightarrow> u \<le> 2 * (t + r)"
    unfolding or_sticky(2) X(1) ge ..
  moreover have "2 ^ 31 < unat (e OR of_bool L) \<longleftrightarrow> u < 2 * (t + r)"
    unfolding or_sticky(3) L [folded v_def r_def] gt using X(1, 2) by blast
  ultimately show ?thesis unfolding ext_ok_def W unfolding pq t_def u_def by blast
qed

lemma bit_80000000: "bit (0x80000000 :: u32) n \<longleftrightarrow> n = 31"
proof -
  have p: "(0x80000000 :: u32) = 2 ^ 31" by simp
  show ?thesis unfolding p bit_exp_iff by auto
qed

text \<open>One more bit: the rotation through the carry after an addition overflowed.\<close>

lemma ext_shift_one:
  assumes "ext_ok W k x"
  shows "ext_ok W (k + 1) ((drop_bit 1 x OR (if odd (W div 2 ^ k) then 0x80000000 else 0)) OR of_bool (bit x 0))"
proof -
  define o' where "o' \<longleftrightarrow> odd (W div 2 ^ k)"
  define y where "y = drop_bit 1 x OR (if o' then 0x80000000 else 0)"
  define r where "r = W mod 2 ^ k"
  define p :: nat where "p = 2 ^ k"
  have r: "r < p" by (simp add: r_def p_def)
  have W: "W mod 2 ^ (k + 1) = (if o' then p + r else r)"
    unfolding mod_parts [of W k 1] by (simp add: o'_def r_def p_def odd_iff_mod_2_eq_one)
  have b31: "bit y 31 \<longleftrightarrow> o'"
    unfolding y_def using bit_imp_le_length [of x 32] by (auto simp: bit_or_iff bit_drop_bit_eq bit_80000000)
  have d0: "drop_bit 1 x = 0 \<and> \<not> bit x 0 \<longleftrightarrow> x = 0"
  proof
    assume a: "drop_bit 1 x = 0 \<and> \<not> bit x 0"
    show "x = 0"
    proof (rule bit_word_eqI)
      fix n
      have "bit (drop_bit 1 x) (n - 1) = bit x n" if "0 < n" using that by (simp add: bit_drop_bit_eq)
      with a show "bit x n = bit 0 n" by (cases n) (auto simp: bit_drop_bit_eq)
    qed
  qed simp
  then have x0: "y = 0 \<and> \<not> bit x 0 \<longleftrightarrow> \<not> o' \<and> x = 0"
    unfolding y_def by (auto simp: or_eq_0_iff)
  have y31: "2 ^ 31 \<le> unat y \<longleftrightarrow> o'" using b31 by (simp only: bit31_ge)
  have low: "2 ^ 31 \<le> unat y \<and> (unat y mod 2 ^ 31 \<noteq> 0 \<or> bit x 0) \<longleftrightarrow> o' \<and> x \<noteq> 0"
  proof -
    have "unat y mod 2 ^ 31 = 0 \<longleftrightarrow> drop_bit 1 x = 0"
    proof -
      have "unat y mod 2 ^ 31 = 0 \<longleftrightarrow> y AND 0x7fffffff = 0" unfolding and_7fffffff [symmetric] by (rule unat_eq_zero)
      also have "y AND 0x7fffffff = drop_bit 1 x"
      proof (rule bit_word_eqI)
        fix n assume "n < LENGTH(32)"
        have m: "(0x7fffffff :: u32) = mask 31" by (simp add: mask_eq_exp_minus_1)
        show "bit (y AND 0x7fffffff) n \<longleftrightarrow> bit (drop_bit 1 x) n"
          unfolding m y_def
          using bit_imp_le_length [of x "Suc n"]
          by (cases o') (simp_all only: bit_and_iff bit_or_iff bit_mask_iff bit_80000000 bit_drop_bit_eq if_True if_False bit_0_eq bot_apply o_apply, auto)
      qed
      finally show ?thesis .
    qed
    then show ?thesis unfolding y31 d0 [symmetric] by (simp only: de_Morgan_conj not_not)
  qed
  have xr: "x = 0 \<longleftrightarrow> r = 0" using assms by (simp add: ext_ok_def r_def)
  have "y OR of_bool (bit x 0) = 0 \<longleftrightarrow> W mod 2 ^ (k + 1) = 0"
    unfolding or_sticky(1) x0 W using xr r by auto
  moreover have "2 ^ 31 \<le> unat (y OR of_bool (bit x 0)) \<longleftrightarrow> 2 ^ (k + 1) \<le> 2 * (W mod 2 ^ (k + 1))"
    unfolding or_sticky(2) y31 W using r by (simp add: p_def)
  moreover have "2 ^ 31 < unat (y OR of_bool (bit x 0)) \<longleftrightarrow> 2 ^ (k + 1) < 2 * (W mod 2 ^ (k + 1))"
    unfolding or_sticky(3) low W using r xr by (simp add: p_def)
  ultimately show ?thesis unfolding ext_ok_def y_def o'_def by blast
qed

section \<open>Rounding to a precision\<close>

text \<open>What the three comparisons of the nearest mode see, and the remainder at the rounding position.\<close>

lemma remainder_at:
  fixes W k d :: nat
  assumes "ext_ok W k x" "v = W div 2 ^ k" "0 < d"
  defines "m \<equiv> v mod 2 ^ d" and "R \<equiv> W mod 2 ^ (k + d)"
  shows "R = 0 \<longleftrightarrow> m = 0 \<and> x = 0"
    and "2 ^ (k + d) < 2 * R \<longleftrightarrow> 2 ^ (d - 1) < m \<or> (m = 2 ^ (d - 1) \<and> x \<noteq> 0)"
    and "2 ^ (k + d) \<le> 2 * R \<longleftrightarrow> 2 ^ (d - 1) \<le> m"
proof -
  define r h p :: nat where "r = W mod 2 ^ k" and "h = 2 ^ (d - 1)" and "p = 2 ^ k"
  have R: "R = m * p + r" unfolding R_def mod_parts m_def assms(2) r_def p_def ..
  have x: "x = 0 \<longleftrightarrow> r = 0" using assms(1) by (simp add: ext_ok_def r_def)
  have r: "r < p" by (simp add: r_def p_def)
  have "(2::nat) ^ d = 2 * h" using assms(3) by (simp add: h_def power_eq_if)
  then have D: "2 ^ (k + d) = 2 * (h * p)" by (simp add: p_def power_add)
  show "R = 0 \<longleftrightarrow> m = 0 \<and> x = 0" unfolding R x using r by auto
  consider "m < h" | "m = h" | "h < m" by linarith
  then have *: "(h * p < m * p + r \<longleftrightarrow> h < m \<or> (m = h \<and> r \<noteq> 0)) \<and> (h * p \<le> m * p + r \<longleftrightarrow> h \<le> m)"
  proof cases
    case 1
    then have "(m + 1) * p \<le> h * p" by (intro mult_le_mono1) simp
    then have "m * p + p \<le> h * p" by simp
    then show ?thesis using 1 r by simp
  next
    case 3
    then have "(h + 1) * p \<le> m * p" by (intro mult_le_mono1) simp
    then have "h * p + p \<le> m * p" by simp
    then show ?thesis using 3 r by simp
  qed auto
  show "2 ^ (k + d) < 2 * R \<longleftrightarrow> 2 ^ (d - 1) < m \<or> (m = 2 ^ (d - 1) \<and> x \<noteq> 0)"
    "2 ^ (k + d) \<le> 2 * R \<longleftrightarrow> 2 ^ (d - 1) \<le> m"
    unfolding D x h_def [symmetric] R using * by auto
qed

text \<open>
  The shape all three routines have: nothing is done when no bits are lost, and otherwise the significand is
  truncated or incremented at the rounding position.
\<close>

definition rounds_at :: "nat \<Rightarrow> nat \<Rightarrow> bool \<Rightarrow> bool \<Rightarrow> u32 \<times> u32 \<times> bool \<times> bits_lost \<Rightarrow> bool" where
  "rounds_at d v lossy inc = (\<lambda>(a, b, c, lost).
     of_bool c * 2 ^ 64 + unat (pair64 a b) = (v div 2 ^ d + of_bool inc) * 2 ^ d \<and>
     lost = (if \<not> lossy then LOST_NONE else if inc then LOST_UP else LOST_DOWN))"

lemma adc_unat: "adc a b c = (x, c') \<Longrightarrow> unat x + of_bool c' * 2 ^ 32 = unat a + unat b + of_bool c"
proof -
  assume "adc a b c = (x, c')"
  then have x: "x = a + b + of_bool c" and c': "c' \<longleftrightarrow> 2 ^ 32 \<le> unat a + unat b + of_bool c" by (auto simp: adc_def)
  define n where "n = unat a + unat b + of_bool c"
  have "n < 2 * 2 ^ 32" using unat_lt_32 [of a] unat_lt_32 [of b] by (cases c) (simp_all add: n_def)
  moreover have "unat x = n mod 2 ^ 32" unfolding x n_def by (cases c) (simp_all add: unat_word_ariths mod_simps)
  ultimately show ?thesis unfolding c' n_def [symmetric] by (auto simp: mod_if)
qed

lemma rc_cases: "cw AND CW_RC \<in> {RC_RND, RC_DOWN, RC_UP, RC_CHOP}"
proof -
  define y where "y = take_bit 2 (drop_bit 10 cw)"
  have m: "(0xc00 :: u32) = push_bit 10 (mask 2)" by (simp add: mask_eq_exp_minus_1 push_bit_eq_mult)
  have c: "cw AND 0xc00 = push_bit 10 y" unfolding m y_def by (rule bit_word_eqI) (auto simp: bit_simps)
  have "unat y < 4" unfolding y_def unat_take_bit_word by simp
  then have "unat y \<in> {0, 1, 2, 3}" by auto
  then have "y \<in> {0, 1, 2, 3}" by (auto simp: word_unat_eq_iff)
  then show ?thesis unfolding c by auto
qed

lemma test_bit: "(b :: u32) AND 2 ^ n = 0 \<longleftrightarrow> even (unat b div 2 ^ n)"
proof -
  have "b AND 2 ^ n = 0 \<longleftrightarrow> \<not> bit b n" by (simp only: and_exp_eq_0_iff_not_bit)
  also have "\<dots> \<longleftrightarrow> even (unat b div 2 ^ n)" using bit_unsigned_iff [of b n, where 'a = nat] by (auto simp: bit_iff_odd)
  finally show ?thesis .
qed

lemma round_to_64:
  assumes x: "ext_ok W k x" and v: "unat (pair64 a b) = W div 2 ^ k" and rc: "rc \<in> {RC_RND, RC_DOWN, RC_UP, RC_CHOP}"
  shows "rounds_at 0 (unat (pair64 a b)) (W mod 2 ^ k \<noteq> 0) (round_inc rc neg W k) (LRound_To_64 rc neg a b x)"
proof -
  have o': "b AND 1 = 0 \<longleftrightarrow> even (W div 2 ^ k)"
    unfolding v [symmetric] unat_pair64 using test_bit [of b 0] by simp
  have up: "rounds_at 0 (unat (pair64 a b)) (W mod 2 ^ k \<noteq> 0) True
      (let (b, c) = adc b 1 False; (a, c) = adc a 0 c in (a, b, c, LOST_UP))" if "W mod 2 ^ k \<noteq> 0"
  proof -
    obtain b' c where b: "adc b 1 False = (b', c)" by force
    obtain a' c' where a: "adc a 0 c = (a', c')" by force
    from adc_unat [OF b] adc_unat [OF a] show ?thesis
      using that by (simp add: rounds_at_def b a unat_pair64)
  qed
  have h: "x < 0x80000000 \<longleftrightarrow> \<not> 2 ^ 31 \<le> unat x" "x \<noteq> 0x80000000 \<longleftrightarrow> unat x \<noteq> 2 ^ 31"
    by (simp_all add: word_less_nat_alt word_unat_eq_iff not_le)
  have z: "x = 0 \<longleftrightarrow> W mod 2 ^ k = 0" and ge: "2 ^ 31 \<le> unat x \<longleftrightarrow> 2 ^ k \<le> 2 * (W mod 2 ^ k)"
    and gt: "2 ^ 31 < unat x \<longleftrightarrow> 2 ^ k < 2 * (W mod 2 ^ k)" using x by (simp_all only: ext_ok_def)
  define inc where "inc = round_inc rc neg W k"
  have run: "LRound_To_64 rc neg a b x =
      (if W mod 2 ^ k = 0 then (a, b, False, LOST_NONE)
       else if inc then (let (b, c) = adc b 1 False; (a, c) = adc a 0 c in (a, b, c, LOST_UP))
       else (a, b, False, LOST_DOWN))"
  proof -
    define R where "R = W mod 2 ^ k"
    define U where "U = (let (b, c) = adc b 1 False; (a, c) = adc a 0 c in (a, b, c, LOST_UP))"
    have eq: "unat x = 2 ^ 31 \<longleftrightarrow> 2 ^ k \<le> 2 * R \<and> \<not> 2 ^ k < 2 * R" using ge gt by (auto simp: R_def)
    show ?thesis
      using rc unfolding inc_def round_inc_def LRound_To_64_def Let_def h eq z o' U_def [unfolded Let_def, symmetric] R_def [symmetric] ge [folded R_def]
      by (elim insertE emptyE; simp; auto)
  qed
  show ?thesis
  proof (cases "W mod 2 ^ k = 0")
    case True
    then show ?thesis using round_inc_exact [OF True, of rc neg] by (simp add: run rounds_at_def)
  next
    case False
    then show ?thesis using up [OF False] unfolding inc_def [symmetric] run
      by (cases inc) (simp_all add: rounds_at_def)
  qed
qed

lemma unat_and_low: "unat ((w :: u32) AND mask n) = unat w mod 2 ^ n"
  by (simp add: and_mask_word unat_take_bit_word)

text \<open>From the decisions of a routine to its specification.\<close>

lemma rounds_atI:
  assumes run: "f = (if \<not> lossy then none else if inc then up else trunc)" and inc: "inc \<longrightarrow> lossy"
    and none: "\<not> lossy \<Longrightarrow> rounds_at d v False False none" and up: "rounds_at d v True True up"
    and trunc: "rounds_at d v True False trunc"
  shows "rounds_at d v lossy inc f"
  unfolding run using inc none up trunc by (cases lossy; cases inc) simp_all

lemma round_to_53:
  assumes x: "ext_ok W k x" and v: "unat (pair64 a b) = W div 2 ^ k" and rc: "rc \<in> {RC_RND, RC_DOWN, RC_UP, RC_CHOP}"
  shows "rounds_at 11 (unat (pair64 a b)) (W mod 2 ^ (k + 11) \<noteq> 0) (round_inc rc neg W (k + 11)) (LRound_To_53 rc neg a b x)"
proof -
  define V m R where "V = unat (pair64 a b)" and "m = V mod 2 ^ 11" and "R = W mod 2 ^ (k + 11)"
  define ecx where "ecx = b AND 0x7ff"
  define up where "up = (let (b, c) = adc (b AND 0xfffff800) 0x800 False; (a, c) = adc a 0 c in (a, b, c, LOST_UP))"
  define trunc where "trunc = (a, b AND 0xfffff800, False, LOST_DOWN)"
  have V: "V = unat a * 2 ^ 32 + unat b" by (simp add: V_def unat_pair64)
  have mb: "m = unat b mod 2 ^ 11" unfolding m_def V by (rule low_part_mod) simp
  have vd: "V div 2 ^ 11 = unat a * 2 ^ 21 + unat b div 2 ^ 11" unfolding V by simp
  have "(0x7ff :: u32) = mask 11" by (simp add: mask_eq_exp_minus_1)
  then have ecx: "unat ecx = m" unfolding ecx_def mb by (simp only: unat_and_low)
  note A = remainder_at [OF x v [folded V_def], of 11, folded m_def R_def, simplified]
  have z: "ecx OR x = 0 \<longleftrightarrow> R = 0" unfolding A(1) ecx [symmetric] by (simp only: or_eq_0_iff unat_eq_zero)
  have ge: "ecx < 0x400 \<longleftrightarrow> \<not> 2 ^ (k + 11) \<le> 2 * R" unfolding A(3) ecx [symmetric] by (simp add: word_less_nat_alt not_le)
  have odd: "b AND 0x800 = 0 \<longleftrightarrow> even (W div 2 ^ (k + 11))"
    using test_bit [of b 11] unfolding div_parts v [symmetric] V_def [symmetric] vd by simp
  have gt: "ecx \<noteq> 0x400 \<or> x \<noteq> 0 \<longleftrightarrow> 2 ^ (k + 11) < 2 * R" if "2 ^ (k + 11) \<le> 2 * R"
    using that unfolding A(2, 3) ecx [symmetric] by (auto simp: word_unat_eq_iff)
  have tr: "unat (b AND 0xfffff800) = unat b div 2 ^ 11 * 2 ^ 11" by (rule unat_and_fffff800)
  show ?thesis unfolding V_def [symmetric] R_def [symmetric]
  proof (rule rounds_atI [where up = up and trunc = trunc and none = "(a, b, False, LOST_NONE)"])
    show "round_inc rc neg W (k + 11) \<longrightarrow> R \<noteq> 0" unfolding R_def using round_inc_exact by blast
    show "LRound_To_53 rc neg a b x =
        (if \<not> R \<noteq> 0 then (a, b, False, LOST_NONE) else if round_inc rc neg W (k + 11) then up else trunc)"
      using rc gt unfolding round_inc_def LRound_To_53_def Let_def ecx_def [symmetric] up_def [unfolded Let_def, symmetric]
        trunc_def [symmetric] R_def [symmetric] z ge odd de_Morgan_disj [symmetric] disj_assoc [symmetric]
      by (elim insertE emptyE; simp; auto)
    show "rounds_at 11 V False False (a, b, False, LOST_NONE)" if "\<not> R \<noteq> 0"
    proof -
      have "m = 0" using A(1) that by simp
      then have "V div 2 ^ 11 * 2 ^ 11 = V" using div_mult_mod_eq [of V "2 ^ 11"] by (simp only: m_def)
      then show ?thesis by (simp add: rounds_at_def V_def)
    qed
    show "rounds_at 11 V True False trunc" unfolding trunc_def rounds_at_def vd by (simp add: unat_pair64 tr)
    obtain b' c where b: "adc (b AND 0xfffff800) 0x800 False = (b', c)" by force
    obtain a' c' where a: "adc a 0 c = (a', c')" by force
    from adc_unat [OF b] adc_unat [OF a]
    show "rounds_at 11 V True True up" unfolding up_def rounds_at_def vd by (simp add: b a unat_pair64 tr)
  qed
qed

lemma unat_and_ffffff00: "unat (w AND 0xffffff00 :: u32) = unat w div 2 ^ 8 * 2 ^ 8"
proof -
  have m: "(0xffffff00 :: u32) = push_bit 8 (mask 24)" by (simp add: mask_eq_exp_minus_1 push_bit_eq_mult)
  have "w AND 0xffffff00 = push_bit 8 (drop_bit 8 w)"
    unfolding m by (rule bit_word_eqI) (auto simp: bit_simps dest: bit_imp_le_length)
  moreover have "unat (drop_bit 8 w) = unat w div 2 ^ 8" by (rule unat_drop_bit_div)
  moreover have "unat w div 2 ^ 8 * 2 ^ 8 < 2 ^ 32" using unat_lt_32 [of w] by (rule le_less_trans [OF div_times_less_eq_dividend])
  ultimately show ?thesis by (simp add: push_bit_eq_mult unat_word_ariths)
qed

lemma half_24: "b = 0" if "b < (4294967296 :: nat)" "c * 4294967296 + b = 549755813888"
proof -
  have "b = (c * 4294967296 + b) mod 4294967296" using that(1) by simp
  then show ?thesis unfolding that(2) by simp
qed

lemma round_to_24:
  assumes x: "ext_ok W k x" and v: "unat (pair64 a b) = W div 2 ^ k" and rc: "rc \<in> {RC_RND, RC_DOWN, RC_UP, RC_CHOP}"
  shows "rounds_at 40 (unat (pair64 a b)) (W mod 2 ^ (k + 40) \<noteq> 0) (round_inc rc neg W (k + 40)) (LRound_To_24 rc neg a b x)"
proof -
  define V m R where "V = unat (pair64 a b)" and "m = V mod 2 ^ 40" and "R = W mod 2 ^ (k + 40)"
  define ecx where "ecx = a AND 0xff"
  define up where "up = (let (a, c) = adc (a AND 0xffffff00) 0x100 False in (a, 0 :: u32, c, LOST_UP))"
  define trunc where "trunc = (a AND 0xffffff00, 0 :: u32, False, LOST_DOWN)"
  have V: "V = unat a * 2 ^ 32 + unat b" by (simp add: V_def unat_pair64)
  have "V div 2 ^ (32 + 8) = V div 2 ^ 32 div 2 ^ 8" by (rule div_parts)
  moreover have "V mod 2 ^ (32 + 8) = V div 2 ^ 32 mod 2 ^ 8 * 2 ^ 32 + V mod 2 ^ 32" by (rule mod_parts)
  moreover have "V div 2 ^ 32 = unat a" "V mod 2 ^ 32 = unat b" using unat_lt_32 [of b] by (simp_all add: V)
  ultimately have vd: "V div 2 ^ 40 = unat a div 2 ^ 8" and mb: "m = unat a mod 2 ^ 8 * 2 ^ 32 + unat b" by (simp_all add: m_def)
  have "(0xff :: u32) = mask 8" by (simp add: mask_eq_exp_minus_1)
  then have ecx: "m = unat ecx * 2 ^ 32 + unat b" unfolding ecx_def mb by (simp only: unat_and_low)
  note A = remainder_at [OF x v [folded V_def], of 40, folded m_def R_def, simplified]
  have b: "unat b < 4294967296" using unat_lt_32 [of b] by simp
  have z: "ecx OR b OR x = 0 \<longleftrightarrow> R = 0" unfolding A(1) ecx by (auto simp: or_eq_0_iff unat_eq_zero)
  have ge: "ecx < 0x80 \<longleftrightarrow> \<not> 2 ^ (k + 40) \<le> 2 * R"
    unfolding A(3) ecx using b by (auto simp: word_less_nat_alt)
  have odd: "a AND 0x100 = 0 \<longleftrightarrow> even (W div 2 ^ (k + 40))"
    using test_bit [of a 8] unfolding div_parts v [symmetric] V_def [symmetric] vd by simp
  have gt: "ecx \<noteq> 0x80 \<or> b \<noteq> 0 \<or> x \<noteq> 0 \<longleftrightarrow> 2 ^ (k + 40) < 2 * R" if "2 ^ (k + 40) \<le> 2 * R"
  proof -
    have le: "549755813888 \<le> unat ecx * 4294967296 + unat b" using that unfolding A(3) ecx by simp
    have "unat ecx = 128 \<and> unat b = 0 \<longleftrightarrow> unat ecx * 4294967296 + unat b = 549755813888"
      using half_24 [OF b, of "unat ecx"] by auto
    moreover have "ecx = 0x80 \<longleftrightarrow> unat ecx = 128" "b = 0 \<longleftrightarrow> unat b = 0" by (simp_all add: word_unat_eq_iff)
    ultimately show ?thesis using le unfolding A(2) ecx by auto
  qed
  have tr: "unat (a AND 0xffffff00) = unat a div 2 ^ 8 * 2 ^ 8" by (rule unat_and_ffffff00)
  show ?thesis unfolding V_def [symmetric] R_def [symmetric]
  proof (rule rounds_atI [where up = up and trunc = trunc and none = "(a, b, False, LOST_NONE)"])
    show "round_inc rc neg W (k + 40) \<longrightarrow> R \<noteq> 0" unfolding R_def using round_inc_exact by blast
    show "LRound_To_24 rc neg a b x =
        (if \<not> R \<noteq> 0 then (a, b, False, LOST_NONE) else if round_inc rc neg W (k + 40) then up else trunc)"
      using rc gt unfolding round_inc_def LRound_To_24_def Let_def ecx_def [symmetric] up_def [unfolded Let_def, symmetric]
        trunc_def [symmetric] R_def [symmetric] z ge odd de_Morgan_disj [symmetric] disj_assoc [symmetric]
      by (elim insertE emptyE; simp; auto)
    show "rounds_at 40 V False False (a, b, False, LOST_NONE)" if "\<not> R \<noteq> 0"
    proof -
      have "m = 0" using A(1) that by simp
      then have "V div 2 ^ 40 * 2 ^ 40 = V" using div_mult_mod_eq [of V "2 ^ 40"] by (simp only: m_def)
      then show ?thesis by (simp add: rounds_at_def V_def)
    qed
    show "rounds_at 40 V True False trunc" unfolding trunc_def rounds_at_def vd by (simp add: unat_pair64 tr)
    obtain a' c where a: "adc (a AND 0xffffff00) 0x100 False = (a', c)" by force
    from adc_unat [OF a] show "rounds_at 40 V True True up" unfolding up_def rounds_at_def vd by (simp add: a unat_pair64 tr)
  qed
qed

text \<open>The precision the control word selects, as the number of significand bits it drops.\<close>

definition prec_drop :: "u32 \<Rightarrow> nat" where
  "prec_drop cw = (if cw AND CW_PC = PR_53_BITS then 11 else if cw AND CW_PC = PR_24_BITS then 40 else 0)"

lemma round_to_precision_rounds:
  assumes "round_to_precision cw neg a b x e = (a', b', e', lost)" "ext_ok W k x" "unat (pair64 a b) = W div 2 ^ k"
  defines "d \<equiv> prec_drop cw"
  defines "M \<equiv> W div 2 ^ (k + d) + of_bool (round_inc (cw AND CW_RC) neg W (k + d))"
  shows "unat (pair64 a' b') = (if M * 2 ^ d = 2 ^ 64 then 2 ^ 63 else M * 2 ^ d)"
    and "e' = (if M * 2 ^ d = 2 ^ 64 then e + 1 else e)" and "M * 2 ^ d \<le> 2 ^ 64"
    and "lost = (if W mod 2 ^ (k + d) = 0 then LOST_NONE
                 else if round_inc (cw AND CW_RC) neg W (k + d) then LOST_UP else LOST_DOWN)"
proof -
  define V where "V = unat (pair64 a b)"
  define f where "f = (if cw AND CW_PC = PR_53_BITS then LRound_To_53 (cw AND CW_RC) neg a b x
             else if cw AND CW_PC = PR_24_BITS then LRound_To_24 (cw AND CW_RC) neg a b x
             else LRound_To_64 (cw AND CW_RC) neg a b x)"
  define inc where "inc = round_inc (cw AND CW_RC) neg W (k + d)"
  have "rounds_at d V (W mod 2 ^ (k + d) \<noteq> 0) inc f"
    using round_to_53 [OF assms(2, 3) rc_cases, of cw neg] round_to_24 [OF assms(2, 3) rc_cases, of cw neg]
      round_to_64 [OF assms(2, 3) rc_cases, of cw neg]
    by (auto simp: d_def prec_drop_def f_def inc_def V_def)
  then obtain p q c where f: "f = (p, q, c, lost)" "of_bool c * 2 ^ 64 + unat (pair64 p q) = (V div 2 ^ d + of_bool inc) * 2 ^ d"
    "lost = (if W mod 2 ^ (k + d) = 0 then LOST_NONE else if inc then LOST_UP else LOST_DOWN)"
    "LCheck_Round_Overflow p q c e = (a', b', e')"
    using assms(1) unfolding round_to_precision_def f_def [symmetric] rounds_at_def
    by (auto split: prod.splits)
  have M: "of_bool c * 2 ^ 64 + unat (pair64 p q) = M * 2 ^ d"
    unfolding f(2) M_def inc_def V_def assms(3) div_parts ..
  have d: "d \<le> 40" by (simp add: d_def prec_drop_def)
  show le: "M * 2 ^ d \<le> 2 ^ 64"
  proof -
    have "V < 2 ^ 64" unfolding V_def by (rule unat_lt_64)
    also have "(2::nat) ^ 64 = 2 ^ (64 - d) * 2 ^ d" using d by (simp flip: power_add)
    finally have "V div 2 ^ d < 2 ^ (64 - d)" by (simp add: less_mult_imp_div_less)
    then have "M \<le> 2 ^ (64 - d)" unfolding M_def V_def [symmetric] assms(3) [symmetric] div_parts by (auto simp: V_def of_bool_def)
    then have "M * 2 ^ d \<le> 2 ^ (64 - d) * 2 ^ d" by (rule mult_le_mono1)
    then show ?thesis using d by (simp flip: power_add)
  qed
  have c: "c \<longleftrightarrow> M * 2 ^ d = 2 ^ 64" and pq: "c \<Longrightarrow> p = 0 \<and> q = 0"
  proof -
    have "unat (pair64 p q) < 2 ^ 64" by (rule unat_lt_64)
    then show "c \<longleftrightarrow> M * 2 ^ d = 2 ^ 64" using M le by (cases c) auto
    show "p = 0 \<and> q = 0" if c
    proof -
      have "unat (pair64 p q) = 0" using M le that by simp
      then show ?thesis by (simp add: unat_pair64 unat_eq_zero)
    qed
  qed
  show "unat (pair64 a' b') = (if M * 2 ^ d = 2 ^ 64 then 2 ^ 63 else M * 2 ^ d)"
    "e' = (if M * 2 ^ d = 2 ^ 64 then e + 1 else e)"
    using f(4) M pq unfolding c [symmetric]
    by (cases c; auto simp: LCheck_Round_Overflow_def rcr1_def unat_pair64)+
  show "lost = (if W mod 2 ^ (k + d) = 0 then LOST_NONE
                 else if round_inc (cw AND CW_RC) neg W (k + d) then LOST_UP else LOST_DOWN)"
    using f(3) by (simp add: inc_def)
qed

section \<open>Shifts into place\<close>

lemma shift_words:
  "n < 32 \<Longrightarrow> unat (pair64 (drop_bit n h) (shrd n h l)) = unat (pair64 h l) div 2 ^ n"
  "32 \<le> n \<Longrightarrow> n < 64 \<Longrightarrow> unat (pair64 0 (drop_bit (n - 32) h)) = unat (pair64 h l) div 2 ^ n"
  "64 \<le> n \<Longrightarrow> unat (pair64 0 0) = unat (pair64 h l) div 2 ^ n"
proof -
  show "n < 32 \<Longrightarrow> unat (pair64 (drop_bit n h) (shrd n h l)) = unat (pair64 h l) div 2 ^ n"
    by (rule FPU_shrxs_shift) (simp add: FPU_shrxs_def Let_def)
  show "32 \<le> n \<Longrightarrow> n < 64 \<Longrightarrow> unat (pair64 0 (drop_bit (n - 32) h)) = unat (pair64 h l) div 2 ^ n"
    by (rule FPU_shrxs_shift) (simp add: FPU_shrxs_def Let_def)
  show "unat (pair64 0 0) = unat (pair64 h l) div 2 ^ n" if "64 \<le> n"
  proof -
    have "unat (pair64 h l) < 2 ^ 64" by (rule unat_lt_64)
    also have "(2::nat) ^ 64 \<le> 2 ^ n" using that by (intro power_increasing) auto
    finally show ?thesis by (simp add: unat_pair64)
  qed
qed

lemma ext_words:
  assumes v: "unat (pair64 a b) = W div 2 ^ k" and L: "L \<longleftrightarrow> W mod 2 ^ k \<noteq> 0"
  shows "0 < n \<Longrightarrow> n < 32 \<Longrightarrow> ext_ok W (k + n) (shrd n b 0 OR of_bool L)"
    and "32 \<le> n \<Longrightarrow> n < 64 \<Longrightarrow> ext_ok W (k + n) (shrd (n - 32) a b OR of_bool (shrd (n - 32) b 0 \<noteq> 0 \<or> L))"
    and "ext_ok W (k + 64) (a OR of_bool (b \<noteq> 0 \<or> L))"
proof -
  have V: "W div 2 ^ k = unat a * 2 ^ 32 + unat b" by (simp add: v [symmetric] unat_pair64)
  show "ext_ok W (k + n) (shrd n b 0 OR of_bool L)" if "0 < n" "n < 32"
    using ext_shift_small [of n] that by (intro ext_sticky) (simp_all add: V unat_shrd L)
  show "ext_ok W (k + n) (shrd (n - 32) a b OR of_bool (shrd (n - 32) b 0 \<noteq> 0 \<or> L))" if "32 \<le> n" "n < 64"
    using ext_shift_large [of n] shrd_0_eq_0 [of "n - 32" b] low_part_mod [of "n - 32"] that
    by (intro ext_sticky) (simp_all add: V unat_shrd L)
  have "unat a = ext_bits (W div 2 ^ k) 64" "b \<noteq> 0 \<longleftrightarrow> ext_lost (W div 2 ^ k) 64"
    using ext_shift_large [of 64] unat_lt_32 [of a] unat_lt_32 [of b] by (simp_all add: V unat_gt_0)
  then show "ext_ok W (k + 64) (a OR of_bool (b \<noteq> 0 \<or> L))" using L by (intro ext_sticky) simp_all
qed

lemma ext_tiny: "ext_ok W K 1" if "0 < W" "2 * W < 2 ^ K"
  using that by (simp add: ext_ok_def)

lemma shrd_or_1: "shrd cl a (b OR 1) OR 1 = shrd cl a b OR (1 :: u32)"
proof -
  have "pair64 a (b OR 1) = pair64 a b OR 1" unfolding pair64_def by (simp add: or.assoc unsigned_or_eq)
  then have "shrd cl a (b OR 1) = shrd cl a b OR ucast (drop_bit cl (1 :: u64))" unfolding shrd_def by (simp add: unsigned_or_eq)
  moreover have "ucast (drop_bit cl (1 :: u64)) OR 1 = (1 :: u32)" by (cases cl) simp_all
  ultimately show ?thesis by (simp add: or.assoc)
qed

lemma denorm_shift:
  assumes x: "ext_ok W k x" and v: "unat (pair64 a b) = W div 2 ^ k" and W: "0 < W"
    and n: "n = unat (word_of_int (EXP_UNDER + 1) - e)" "0 < n"
    and m: "L_Make_denorm a b x e = (a', b', x', e')"
  shows "unat (pair64 a' b') = W div 2 ^ (k + n)" and "ext_ok W (k + n) x'" and "e' = word_of_int (EXP_UNDER + 1)"
proof -
  define L where "L \<longleftrightarrow> x \<noteq> 0"
  have L: "L \<longleftrightarrow> W mod 2 ^ k \<noteq> 0" using x by (simp add: L_def ext_ok_def)
  note E = ext_words [OF v L]
  note S = shift_words [where h = a and l = b, unfolded v, folded div_parts]
  have or: "u OR of_bool P OR of_bool Q = u OR of_bool (Q \<or> P)" for u :: u32 and P Q by (cases P; cases Q) simp_all
  have one: "1 OR of_bool Q = (1 :: u32)" for Q by (cases Q) simp_all
  consider "n < 32" | "32 \<le> n" "n < 64" | "n = 64" | "64 < n" by linarith
  then have "unat (pair64 a' b') = W div 2 ^ (k + n) \<and> ext_ok W (k + n) x'"
  proof cases
    case 1
    then show ?thesis using m S(1) E(1) n by (auto simp: L_Make_denorm_def Let_def L_def)
  next
    case 2
    have "x' = shrd (n - 32) a b OR of_bool (shrd (n - 32) b 0 \<noteq> 0 \<or> L)"
      using m 2 shrd_or_1 [of "n - 32" a b] unfolding L_Make_denorm_def Let_def n(1) [symmetric] L_def [symmetric] or
      by (cases L) (auto simp: one)
    moreover have "a' = 0" "b' = drop_bit (n - 32) a" using m 2 unfolding L_Make_denorm_def Let_def n(1) [symmetric] by auto
    ultimately show ?thesis using S(2) E(2) 2 by simp
  next
    case 3
    then show ?thesis using m S(3) [of n] E(3) unfolding L_Make_denorm_def Let_def n(1) [symmetric] L_def [symmetric] or by auto
  next
    case 4
    have "W < 2 ^ (k + 64)"
    proof -
      have "W div 2 ^ k < 2 ^ 64" unfolding v [symmetric] by (rule unat_lt_64)
      then show ?thesis unfolding power_add by (simp add: div_less_iff_less_mult mult.commute)
    qed
    then have "2 * W < 2 ^ Suc (k + 64)" unfolding power_Suc by (rule mult_less_mono2) simp
    also have "(2::nat) ^ Suc (k + 64) \<le> 2 ^ (k + n)" using 4 by (intro power_increasing) auto
    finally have "ext_ok W (k + n) 1" by (rule ext_tiny [OF W])
    then show ?thesis using m 4 S(3) [of n] unfolding L_Make_denorm_def Let_def n(1) [symmetric] by auto
  qed
  then show "unat (pair64 a' b') = W div 2 ^ (k + n)" "ext_ok W (k + n) x'" by blast+
  show "e' = word_of_int (EXP_UNDER + 1)" using m by (auto simp: L_Make_denorm_def Let_def split: if_splits)
qed

end
