(* ===== verification/Fpu_Rounded.thy ===== *)
theory Fpu_Rounded
  imports Fpu_Rounding
begin

text \<open>
  The arithmetic against the real numbers: what a correctly rounded result is, and that the rounding routine,
  the product and the sum produce it.
\<close>

section \<open>Correct rounding\<close>

text \<open>
  The unit in the last place of a result of the selected precision, with gradual underflow, and the real number
  rounded to a multiple of it.
\<close>

definition reg_ulp :: "u32 \<Rightarrow> real \<Rightarrow> int" where
  "reg_ulp cw x = max \<lfloor>log 2 \<bar>x\<bar>\<rfloor> (- 0x3ffe) - 63 + int (prec_drop cw)"

definition reg_rounded :: "u32 \<Rightarrow> real \<Rightarrow> real" where
  "reg_rounded cw x = of_int (round_ref (cw AND CW_RC) (x / 2 powi (reg_ulp cw x))) * 2 powi (reg_ulp cw x)"

definition underflow_flag :: "fpu \<Rightarrow> bool" where
  "underflow_flag s \<longleftrightarrow> bit (partial_status s) 4"

definition tiny :: "real \<Rightarrow> bool" where
  "tiny x \<longleftrightarrow> \<bar>x\<bar> < 2 powi (- 0x3ffe)"

text \<open>Only the status word differs.\<close>

definition same_stack :: "fpu \<Rightarrow> fpu \<Rightarrow> bool" where
  "same_stack s s' \<longleftrightarrow> s' = s\<lparr>partial_status := partial_status s'\<rparr>"

lemma same_stack_status [simp]: "same_stack s (t\<lparr>partial_status := p\<rparr>) = same_stack s t"
  by (cases s, cases t) (simp add: same_stack_def)

lemma same_stack_flags [simp]:
  "same_stack s s" "same_stack s (flag_rounding l u t) = same_stack s t" "same_stack s (FPU_exception n t) = same_stack s t"
  by (simp_all add: same_stack_def [of s s] flag_rounding_def set_precision_flag_up_def set_precision_flag_down_def
      or_status_def clear_status_def FPU_exception_def Let_def)

definition rounded_flags :: "u32 \<Rightarrow> real \<Rightarrow> fpu \<Rightarrow> fpu \<Rightarrow> bool" where
  "rounded_flags cw x s s' \<longleftrightarrow>
     (precision_flag s' \<longleftrightarrow> precision_flag s \<or> reg_rounded cw x \<noteq> x) \<and>
     (underflow_flag s' \<longleftrightarrow> underflow_flag s \<or> (tiny x \<and> reg_rounded cw x \<noteq> x))"

definition result_tag :: "u32 \<Rightarrow> real \<Rightarrow> u32" where
  "result_tag cw x = (if reg_rounded cw x = 0 then TAG_Zero else if tiny x then TAG_Special else TAG_Valid)"

definition rounds_to :: "real \<Rightarrow> bool \<Rightarrow> u32 \<Rightarrow> fpu \<Rightarrow> u32 \<times> fpu_reg \<times> fpu \<Rightarrow> bool" where
  "rounds_to x neg cw s = (\<lambda>(tag, r, s').
     fnum_of r = Num (reg_rounded cw x) \<and> getsign r = neg \<and> tag = result_tag cw x \<and>
     same_stack s s' \<and> rounded_flags cw x s s')"

lemma quotient_exact:
  "real (v div 2 ^ k + of_bool (round_inc rc neg v k)) = real v / 2 ^ k \<longleftrightarrow> v mod 2 ^ k = 0"
proof -
  define b where "b = round_inc rc neg v k"
  define f where "f = real (v mod 2 ^ k) / 2 ^ k"
  have f: "f < 1" "f = 0 \<longleftrightarrow> v mod 2 ^ k = 0" unfolding f_def by (rule frac_parts)+
  have "real v / 2 ^ k = real (v div 2 ^ k) + f" unfolding f_def nat_quotient_parts [of v k] by simp
  then have "real (v div 2 ^ k + of_bool b) = real v / 2 ^ k \<longleftrightarrow> of_bool b = f" by simp
  moreover have "b \<Longrightarrow> f \<noteq> 0" unfolding b_def f(2) using round_inc_exact by blast
  ultimately show ?thesis unfolding b_def [symmetric] using f by (cases b) auto
qed

lemma floor_log2:
  assumes "2 powi e \<le> x" "x < 2 powi (e + 1)"
  shows "\<lfloor>log 2 x\<rfloor> = e"
proof -
  have "0 < x" using assms(1) by (rule less_le_trans [rotated]) simp
  then show ?thesis using assms by (simp add: floor_log_eq_powr_iff flip: powr_real_of_int')
qed

text \<open>The exact magnitude \<open>W\<close> over \<open>2 ^ k\<close> with a 64-bit quotient, scaled by the exponent \<open>e\<close>.\<close>

definition exact_mag :: "nat \<Rightarrow> nat \<Rightarrow> int \<Rightarrow> bool \<Rightarrow> real \<Rightarrow> bool" where
  "exact_mag W k e neg x \<longleftrightarrow>
     x = signed neg * real W * 2 powi (e - 63 - int k) \<and> 2 ^ 63 \<le> W div 2 ^ k \<and> W div 2 ^ k < 2 ^ 64"

lemma pow_add: "2 powi (int a + b) = (2 ^ a * 2 powi b :: real)"
  by (simp add: power_int_add)

lemma pow_sub: "2 powi (b - int a) = (2 powi b / 2 ^ a :: real)"
  by (simp add: power_int_diff)

lemma pow_less: "2 powi a < (2 powi b :: real) \<longleftrightarrow> a < b"
  using power_int_strict_increasing [of a b "2 :: real"] power_int_increasing [of b a "2 :: real"] by force

lemma mag_bounds:
  assumes "exact_mag W k e neg x"
  shows "2 ^ (63 + k) \<le> W" "W < 2 ^ (64 + k)" "0 < W"
proof -
  have normal: "2 ^ 63 \<le> W div 2 ^ k" "W div 2 ^ k < 2 ^ 64" using assms by (simp_all add: exact_mag_def)
  show "W < 2 ^ (64 + k)" using normal(2) unfolding power_add by (simp add: div_less_iff_less_mult)
  show l: "2 ^ (63 + k) \<le> W" using normal(1) unfolding power_add by (simp add: less_eq_div_iff_mult_less_eq)
  show "0 < W" using l by (rule less_le_trans [rotated]) simp
qed

lemma mag_binade:
  assumes m: "exact_mag W k e neg x"
  shows "2 powi e \<le> \<bar>x\<bar>" "\<bar>x\<bar> < 2 powi (e + 1)"
proof -
  define g :: real where "g = 2 powi (e - 63 - int k)"
  have g: "0 < g" by (simp add: g_def)
  have ax: "\<bar>x\<bar> = real W * g" using m unfolding exact_mag_def g_def by (simp add: abs_mult signed_def)
  have p: "2 powi (e + int j) = 2 ^ (63 + k + j) * g" for j
  proof -
    have "e + int j = int (63 + k + j) + (e - 63 - int k)" by simp
    then show ?thesis unfolding g_def by (simp only: pow_add)
  qed
  have "real (2 ^ (63 + k)) \<le> real W" "real W < real (2 ^ (64 + k))"
    using mag_bounds [OF m] by (simp_all only: of_nat_le_iff of_nat_less_iff)
  then have "2 ^ (63 + k) * g \<le> real W * g" "real W * g < 2 ^ (64 + k) * g" using g by simp_all
  then show "2 powi e \<le> \<bar>x\<bar>" "\<bar>x\<bar> < 2 powi (e + 1)" using p [of 0] p [of 1] ax by (simp_all add: ac_simps)
qed

lemma mag_nonzero:
  assumes m: "exact_mag W k e neg x"
  shows "x \<noteq> 0"
proof -
  have "(0::real) < 2 powi e" by simp
  also note mag_binade(1) [OF m]
  finally show ?thesis by simp
qed

lemma mag_tiny:
  assumes m: "exact_mag W k e neg x"
  shows "tiny x \<longleftrightarrow> e < - 0x3ffe"
proof
  assume "tiny x"
  then have "2 powi e < (2 powi (- 0x3ffe) :: real)" using mag_binade(1) [OF m] unfolding tiny_def by (rule le_less_trans [rotated])
  then show "e < - 0x3ffe" by (simp only: pow_less)
next
  assume "e < - 0x3ffe"
  then have "(2::real) powi (e + 1) \<le> 2 powi (- 0x3ffe)" by (intro power_int_increasing) simp_all
  with mag_binade(2) [OF m] show "tiny x" unfolding tiny_def by (rule less_le_trans)
qed

lemma mag_rounded:
  assumes m: "exact_mag W k e neg x" and "n = nat (- 0x3ffe - e)" "K = k + n + prec_drop cw" "M = W div 2 ^ K + of_bool (round_inc (cw AND CW_RC) neg W K)"
  shows "reg_rounded cw x = signed neg * real M * 2 powi (e + int n - 63 + int (prec_drop cw))"
    and "reg_rounded cw x = x \<longleftrightarrow> W mod 2 ^ K = 0"
proof -
  define u where "u = e + int n - 63 + int (prec_drop cw)"
  have u: "reg_ulp cw x = u" unfolding reg_ulp_def floor_log2 [OF mag_binade [OF m]] u_def using assms(2) by auto
  have "e - 63 - int k = u - int K" unfolding u_def assms(3) by simp
  then have "2 powi (e - 63 - int k) = 2 powi u / (2 ^ K :: real)" by (simp only: pow_sub)
  then have x: "x = signed neg * (real W / 2 ^ K) * 2 powi u" using m unfolding exact_mag_def by simp
  then have q: "x / 2 powi u = signed neg * (real W / 2 ^ K)" by simp
  have r: "reg_rounded cw x = signed neg * real M * 2 powi u"
    unfolding reg_rounded_def u q round_ref_nat assms(4) by simp
  then show "reg_rounded cw x = signed neg * real M * 2 powi (e + int n - 63 + int (prec_drop cw))" by (simp only: u_def)
  have "signed neg * a * 2 powi u = signed neg * b * 2 powi u \<longleftrightarrow> a = b" for a b :: real by (simp add: signed_def)
  then have "reg_rounded cw x = x \<longleftrightarrow> real M = real W / 2 ^ K" unfolding r by (subst x)
  then show "reg_rounded cw x = x \<longleftrightarrow> W mod 2 ^ K = 0" unfolding assms(4) quotient_exact .
qed

section \<open>The rounding routine\<close>

lemma stored_reg:
  assumes "- 0x3fff \<le> e" "e \<le> 0x3fff"
  obtains r where "L_Store_significand tag a b (word_of_int e) neg s = (tag, r, s)"
    "exponent r = e" "getsign r = neg" "sigh r = a" "significand r = pair64 a b"
proof -
  have se: "sint (word_of_int e :: u16) = e" using assms by (intro sint_16_eqI) simp_all
  define r where "r = signed_exit neg \<lparr>sigl = b, sigh = a, exp16 = (word_of_int e + word_of_int EXTENDED_Ebias) AND 0x7fff\<rparr>"
  have w: "(word_of_int e + word_of_int EXTENDED_Ebias) AND 0x7fff = (word_of_int (e + 0x3fff) :: u16)"
  proof -
    have m: "(0x7fff :: u16) = mask 15" by (simp add: mask_eq_exp_minus_1)
    have "(word_of_int e + word_of_int EXTENDED_Ebias :: u16) = word_of_int (e + 0x3fff)" by simp
    moreover have "word_of_int (e + 0x3fff) AND mask 15 = (word_of_int (e + 0x3fff) :: u16)"
    proof (rule word_uint_eqI)
      have "uint (word_of_int (e + 0x3fff) :: u16) = e + 0x3fff" unfolding uint_word_of_int using assms by simp
      then have "take_bit 15 (uint (word_of_int (e + 0x3fff) :: u16)) = uint (word_of_int (e + 0x3fff) :: u16)"
        using assms by (intro take_bit_int_eq_self) simp_all
      then show "uint (word_of_int (e + 0x3fff) AND mask 15 :: u16) = uint (word_of_int (e + 0x3fff) :: u16)"
        unfolding and_mask_word unsigned_take_bit_eq .
    qed
    ultimately show ?thesis unfolding m by (simp only:)
  qed
  have "exp16 r = word_of_int (e + 0x3fff) OR (if neg then 0x8000 else 0)"
    unfolding r_def w by (simp add: signed_exit_def setnegative_def)
  then have "exponent r = e" "getsign r = neg" using exp16_in_range [of r e neg] assms by simp_all
  moreover have "L_Store_significand tag a b (word_of_int e) neg s = (tag, r, s)"
    using assms unfolding L_Store_significand_def se r_def by simp
  moreover have "sigh r = a" "significand r = pair64 a b"
    by (simp_all add: r_def signed_exit_def setnegative_def significand_def pair64_def)
  ultimately show thesis using that by blast
qed

definition lost_flag :: "bits_lost \<Rightarrow> fpu \<Rightarrow> fpu" where
  "lost_flag lost s = (case lost of LOST_UP \<Rightarrow> set_precision_flag_up s | LOST_DOWN \<Rightarrow> set_precision_flag_down s | LOST_NONE \<Rightarrow> s)"

lemma lost_flag_rounding: "lost_flag (if \<not> i then LOST_NONE else if u then LOST_UP else LOST_DOWN) s = flag_rounding i u s"
  by (simp add: lost_flag_def flag_rounding_def)

lemma flag_rounding_underflow [simp]: "underflow_flag (flag_rounding l u s) = underflow_flag s"
  by (auto simp: flag_rounding_def set_precision_flag_up_def set_precision_flag_down_def or_status_def clear_status_def
      underflow_flag_def FPU_exception_def Let_def bit_simps)

lemma underflow_flag_exception: "underflow_flag (FPU_exception EX_Underflow s)"
  by (simp add: underflow_flag_def FPU_exception_def or_status_def clear_status_def Let_def bit_simps)

lemma pair64_bit63: "bit a 31 \<longleftrightarrow> 2 ^ 63 \<le> unat (pair64 a b)"
  using unat_lt_32 [of b] unfolding unat_pair64 bit31_ge by auto

lemma reg_round_normal:
  assumes m: "exact_mag W k e neg x" and v: "unat (pair64 a b) = W div 2 ^ k" and y: "ext_ok W k y"
    and e: "- 0x3ffe \<le> e" "e < 0x8000" and fin: "\<bar>reg_rounded cw x\<bar> < 2 powi 0x4000"
  shows "rounds_to x neg cw s (fpu_reg_round a b y (word_of_int e) cw neg s)"
proof -
  define d where "d = prec_drop cw"
  define inc where "inc = round_inc (cw AND CW_RC) neg W (k + d)"
  define M where "M = W div 2 ^ (k + d) + of_bool inc"
  obtain a' b' e' lost where r: "round_to_precision cw neg a b y (word_of_int e) = (a', b', e', lost)"
    using prod_cases4 by metis
  note R = round_to_precision_rounds [OF r y v, folded d_def, folded inc_def, folded M_def]
  note X = mag_rounded [OF m, of 0 "k + d" cw M, folded d_def, folded inc_def]
  have val: "reg_rounded cw x = signed neg * real M * 2 powi (e - 63 + int d)" and
    ex: "reg_rounded cw x = x \<longleftrightarrow> W mod 2 ^ (k + d) = 0"
    using X e(1) by (simp_all add: M_def)
  define eo where "eo = (if M * 2 ^ d = 2 ^ 64 then e + 1 else e)"
  define S where "S = unat (pair64 a' b')"
  have e': "e' = word_of_int eo" unfolding eo_def R(2) by simp
  have S: "real S * 2 powi (eo - 63) = real M * 2 powi (e - 63 + int d)"
  proof -
    have f: "real M * 2 powi (e - 63 + int d) = real (M * 2 ^ d) * 2 powi (e - 63)"
      using pow_add [of d "e - 63"] by (simp add: add.commute)
    have c: "real (2 ^ 63) * 2 powi (e + 1 - 63) = real (2 ^ 64) * 2 powi (e - 63)"
      using pow_add [of 1 "e - 63"] by (simp add: algebra_simps)
    show ?thesis unfolding f S_def R(1) eo_def using c by (cases "M * 2 ^ d = 2 ^ 64") (simp_all only: if_True if_False refl)
  qed
  have S63: "2 ^ 63 \<le> S"
  proof -
    have d: "d \<le> 40" by (simp add: d_def prec_drop_def)
    then have p: "(2::nat) ^ 63 = 2 ^ (63 - d) * 2 ^ d" by (simp flip: power_add)
    have "2 ^ (63 - d) \<le> W div 2 ^ k div 2 ^ d"
      using m d unfolding exact_mag_def by (simp add: less_eq_div_iff_mult_less_eq flip: power_add)
    then have "2 ^ (63 - d) \<le> M" unfolding M_def div_parts by (rule trans_le_add1)
    then have "2 ^ 63 \<le> M * 2 ^ d" unfolding p by (rule mult_le_mono1)
    then show ?thesis unfolding S_def R(1) by simp
  qed
  have low: "2 powi eo \<le> \<bar>reg_rounded cw x\<bar>"
  proof -
    have "(2::real) powi eo = 2 ^ 63 * 2 powi (eo - 63)" using pow_add [of 63 "eo - 63"] by simp
    also have "\<dots> \<le> real S * 2 powi (eo - 63)"
      using S63 by (intro mult_right_mono) (simp_all flip: of_nat_le_iff)
    also have "\<dots> = \<bar>reg_rounded cw x\<bar>" unfolding S val by (simp add: abs_mult signed_def)
    finally show ?thesis .
  qed
  have eo: "eo \<le> 0x3fff" using le_less_trans [OF low fin] unfolding pow_less by simp
  have e3: "- 0x3fff \<le> eo" using e by (simp add: eo_def)
  obtain r' where r': "L_Store_significand TAG_Valid a' b' e' neg (lost_flag lost s) = (TAG_Valid, r', lost_flag lost s)"
    "exponent r' = eo" "getsign r' = neg" "sigh r' = a'" "significand r' = pair64 a' b'"
    using stored_reg [OF e3 eo] unfolding e' by metis
  have "sint (word_of_int e :: u16) = e" using e by (intro sint_16_eqI) simp_all
  then have run: "fpu_reg_round a b y (word_of_int e) cw neg s = (TAG_Valid, r', lost_flag lost s)"
    using e r r'(1) by (simp add: fpu_reg_round_def L_deNormalised_def lost_flag_def)
  have "bit (sigh r') 31" unfolding r'(4) using S63 unfolding S_def pair64_bit63 [of a' b'] .
  moreover have "- 0x3ffe \<le> eo" using e by (simp add: eo_def)
  ultimately have num: "fnum_of r' = Num (reg_rounded cw x)"
    using normal_tag [of r' eo] r' eo S unfolding val S_def by (simp add: mult.assoc)
  have fl: "lost_flag lost s = flag_rounding (W mod 2 ^ (k + d) \<noteq> 0) inc s"
    unfolding R(4) lost_flag_rounding [symmetric] by simp
  have "(0::real) < 2 powi eo" by simp
  then have "reg_rounded cw x \<noteq> 0" using low by (metis abs_zero not_less)
  moreover have "\<not> tiny x" using mag_tiny [OF m] e(1) by simp
  ultimately show ?thesis using num r'(3) ex
    unfolding rounds_to_def run result_tag_def rounded_flags_def fl
    by (simp add: flag_rounding_flags)
qed

lemma tiny_sig:
  assumes "V < 2 ^ 63" "d \<le> 40"
  shows "(V div 2 ^ d + of_bool inc) * 2 ^ d \<le> (2 ^ 63 :: nat)"
proof -
  have p: "(2::nat) ^ 63 = 2 ^ (63 - d) * 2 ^ d" using assms(2) by (simp flip: power_add)
  have "V div 2 ^ d < 2 ^ (63 - d)" using assms(1) unfolding p by (simp add: less_mult_imp_div_less)
  then have "V div 2 ^ d + of_bool inc \<le> 2 ^ (63 - d)" by (cases inc) simp_all
  then show ?thesis unfolding p by (rule mult_le_mono1)
qed

lemma denormal_result:
  assumes S: "unat (pair64 a b) = S" "S \<le> 2 ^ 63" "0 < S"
  obtains r where "Normalise_result lost a b (word_of_int (EXP_UNDER + 1)) neg s =
      (TAG_Special, r, lost_flag lost (if lost = LOST_NONE then s else FPU_exception EX_Underflow s))"
    "fnum_of r = Num (signed neg * real S * 2 powi (- 0x3ffe - 63))" "getsign r = neg"
proof -
  define eo where "eo = (if bit a 31 then - 0x3ffe else - 0x3fff :: int)"
  define s1 where "s1 = lost_flag lost (if lost = LOST_NONE then s else FPU_exception EX_Underflow s)"
  have w: "(if bit a 31 then word_of_int (EXP_UNDER + 1) else word_of_int (EXP_UNDER + 1) - 1 :: u16) = word_of_int eo"
    by (simp add: eo_def)
  have r: "- 0x3fff \<le> eo" "eo \<le> 0x3fff" by (simp_all add: eo_def)
  obtain r where r: "L_Store_significand TAG_Special a b (word_of_int eo) neg s1 = (TAG_Special, r, s1)"
    "exponent r = eo" "getsign r = neg" "sigh r = a" "significand r = pair64 a b"
    by (rule stored_reg [OF r])
  have nz: "(\<not> bit a 31 \<and> a = 0 \<and> b = 0) = False" using S(1, 3) by (auto simp: unat_pair64)
  have run: "Normalise_result lost a b (word_of_int (EXP_UNDER + 1)) neg s = (TAG_Special, r, s1)"
    unfolding Normalise_result_def L_deNormalised_def lost_flag_def [symmetric] s1_def [symmetric] w r(1) nz by (simp only: if_False refl not_True_eq_False)
  have num: "fnum_of r = Num (fval r)" unfolding fnum_of_def r(2, 4) by (simp add: eo_def)
  have val: "fval r = signed neg * real S * 2 powi (- 0x3ffe - 63)"
  proof -
    have "max eo (- 0x3ffe) = - 0x3ffe" by (simp add: eo_def)
    then show ?thesis unfolding fval_def r(2, 3, 5) S(1) by (simp only:)
  qed
  show thesis by (rule that [OF run [unfolded s1_def] num [unfolded val] r(3)])
qed

lemma reg_round_tiny:
  assumes m: "exact_mag W k e neg x" and v: "unat (pair64 a b) = W div 2 ^ k" and y: "ext_ok W k y"
    and e: "e < - 0x3ffe" "- 0x8000 \<le> e" and um: "cw AND CW_Underflow \<noteq> 0"
  shows "rounds_to x neg cw s (fpu_reg_round a b y (word_of_int e) cw neg s)"
proof -
  define d where "d = prec_drop cw"
  define n where "n = nat (- 0x3ffe - e)"
  define inc where "inc = round_inc (cw AND CW_RC) neg W (k + n + d)"
  define M where "M = W div 2 ^ (k + n + d) + of_bool inc"
  have d40: "d \<le> 40" by (simp add: d_def prec_drop_def)
  have n: "n = unat (word_of_int (EXP_UNDER + 1) - word_of_int e :: u16)" "0 < n"
  proof -
    have "word_of_int (EXP_UNDER + 1) - word_of_int e = (word_of_int (EXP_UNDER + 1 - e) :: u16)" by simp
    also have "EXP_UNDER + 1 - e = int n" using e by (simp add: n_def)
    finally have "unat (word_of_int (EXP_UNDER + 1) - word_of_int e :: u16) = n mod 2 ^ 16"
      by (simp only: of_int_of_nat_eq unat_of_nat) simp
    moreover have "n < 2 ^ 16" using e by (simp add: n_def)
    ultimately show "n = unat (word_of_int (EXP_UNDER + 1) - word_of_int e :: u16)" by simp
    show "0 < n" using e by (simp add: n_def)
  qed
  obtain a1 b1 y1 e1 where dn: "L_Make_denorm a b y (word_of_int e) = (a1, b1, y1, e1)" using prod_cases4 by metis
  note D = denorm_shift [OF y v mag_bounds(3) [OF m] n dn]
  obtain a' b' e' lost where r: "round_to_precision cw neg a1 b1 y1 e1 = (a', b', e', lost)" using prod_cases4 by metis
  note R = round_to_precision_rounds [OF r D(2, 1), folded d_def, folded inc_def, folded M_def]
  note X = mag_rounded [OF m n_def refl M_def [unfolded inc_def d_def], folded d_def]
  have "W div 2 ^ k div 2 ^ n < 2 ^ 63"
  proof -
    have "W div 2 ^ k < 2 ^ 63 * 2 ^ 1" using m by (simp add: exact_mag_def)
    also have "\<dots> \<le> 2 ^ 63 * 2 ^ n" using n(2) by (intro mult_le_mono2 power_increasing) simp_all
    finally show ?thesis by (simp add: less_mult_imp_div_less)
  qed
  from tiny_sig [OF this d40, of inc] have M63: "M * 2 ^ d \<le> 2 ^ 63" unfolding M_def div_parts .
  then have S: "unat (pair64 a' b') = M * 2 ^ d" "e' = word_of_int (EXP_UNDER + 1)" using R(1, 2) D(3) by auto
  have val: "reg_rounded cw x = signed neg * real (M * 2 ^ d) * 2 powi (- 0x3ffe - 63)"
  proof -
    have "e + int n - 63 + int d = int d + (- 0x3ffe - 63)" using e by (simp add: n_def)
    then show ?thesis unfolding X(1) by (simp only: pow_add of_nat_mult of_nat_power of_nat_numeral mult.assoc)
  qed
  have tiny: "tiny x" using mag_tiny [OF m] e(1) by simp
  have "sint (word_of_int e :: u16) = e" using e by (intro sint_16_eqI) simp_all
  then have run: "fpu_reg_round a b y (word_of_int e) cw neg s = Normalise_result lost a' b' (word_of_int (EXP_UNDER + 1)) neg s"
    using e um r dn S(2) by (simp add: fpu_reg_round_def)
  have fl: "lost_flag lost t = flag_rounding (W mod 2 ^ (k + n + d) \<noteq> 0) inc t" for t
    unfolding R(4) lost_flag_rounding [symmetric] by simp
  have ln: "lost = LOST_NONE \<longleftrightarrow> W mod 2 ^ (k + n + d) = 0" unfolding R(4) by simp
  show ?thesis
  proof (cases "M = 0")
    case False
    then have "0 < M * 2 ^ d" by simp
    from denormal_result [OF S(1) M63 this, of lost neg s, folded val] obtain r' where
      r': "fpu_reg_round a b y (word_of_int e) cw neg s =
           (TAG_Special, r', lost_flag lost (if lost = LOST_NONE then s else FPU_exception EX_Underflow s))"
        "fnum_of r' = Num (reg_rounded cw x)" "getsign r' = neg"
      unfolding run by metis
    have nz: "signed neg * real (M * 2 ^ d) * g \<noteq> 0" if "0 < g" for g :: real using False that by (simp add: signed_def)
    have "reg_rounded cw x \<noteq> 0" unfolding val by (rule nz, rule zero_less_power_int) simp
    then show ?thesis using r' tiny X(2)
      unfolding rounds_to_def result_tag_def rounded_flags_def fl ln
      by (auto simp: flag_rounding_flags precision_flag_exception underflow_flag_exception)
  next
    case True
    then have z: "a' = 0" "b' = 0" using S(1) by (simp_all add: unat_pair64 unat_eq_zero)
    define s1 where "s1 = FPU_exception EX_Underflow (set_precision_flag_down s)"
    obtain r' where r1: "L_Store_significand TAG_Zero 0 0 (word_of_int (- 0x3fff)) neg s1 = (TAG_Zero, r', s1)"
      and r2: "exponent r' = - 0x3fff" "getsign r' = neg" "significand r' = pair64 0 0"
      by (rule stored_reg [of "- 0x3fff"]) simp_all
    have r': "fpu_reg_round a b y (word_of_int e) cw neg s = (TAG_Zero, r', s1)"
      unfolding run Normalise_result_def z s1_def [symmetric] using r1 by simp
    have sig: "significand r' = 0" unfolding r2(3) by (simp add: pair64_def)
    have r0: "reg_rounded cw x = 0" unfolding val True by (simp only: mult_zero_left of_nat_0 mult_zero_right)
    have "fnum_of r' = Num 0" unfolding fnum_of_def fval_def sig r2(1, 2) by simp
    moreover have "x \<noteq> 0" using mag_nonzero [OF m] .
    moreover have "s1 = FPU_exception EX_Underflow (flag_rounding True False s)" by (simp add: s1_def flag_rounding_def)
    ultimately show ?thesis using r2(2) tiny r0
      unfolding rounds_to_def result_tag_def rounded_flags_def r'
      by (auto simp: flag_rounding_flags precision_flag_exception underflow_flag_exception)
  qed
qed

lemma reg_round_correct:
  assumes "exact_mag W k e neg x" "unat (pair64 a b) = W div 2 ^ k" "ext_ok W k y" "- 0x8000 \<le> e" "e < 0x8000"
    and "\<bar>reg_rounded cw x\<bar> < 2 powi 0x4000" "tiny x \<Longrightarrow> cw AND CW_Underflow \<noteq> 0"
  shows "rounds_to x neg cw s (fpu_reg_round a b y (word_of_int e) cw neg s)"
proof (cases "tiny x")
  case True
  then show ?thesis using reg_round_tiny [OF assms(1-3)] mag_tiny [OF assms(1)] assms(4, 7) by simp
next
  case False
  then show ?thesis using reg_round_normal [OF assms(1-3) _ assms(5, 6)] mag_tiny [OF assms(1)] by simp
qed

text \<open>Far below the denormal range the exponent no longer matters.\<close>

lemma mag_far:
  assumes m: "exact_mag W k e neg x" and e: "e < - 0x3ffe - 65" and K: "K = k + nat (- 0x3ffe - e) + prec_drop cw"
  shows "W div 2 ^ K = 0" "round_inc (cw AND CW_RC) neg W K = round_inc (cw AND CW_RC) neg 1 2" "W mod 2 ^ K \<noteq> 0"
proof -
  have "W < 2 ^ (64 + k)" by (rule mag_bounds [OF m])
  then have "2 * W < 2 ^ Suc (64 + k)" unfolding power_Suc by (rule mult_less_mono2) simp
  also have "(2::nat) ^ Suc (64 + k) \<le> 2 ^ K" using e unfolding K by (intro power_increasing) simp_all
  finally have W: "2 * W < 2 ^ K" .
  then show "W div 2 ^ K = 0" by simp
  then show "round_inc (cw AND CW_RC) neg W K = round_inc (cw AND CW_RC) neg 1 2" "W mod 2 ^ K \<noteq> 0"
    using W mag_bounds(3) [OF m] by (simp_all add: round_inc_def)
qed

lemma rounds_to_far:
  assumes m: "exact_mag W k e neg x" "exact_mag W k e' neg x'" and e: "e < - 0x3ffe - 65" "e' < - 0x3ffe - 65"
    and r: "rounds_to x neg cw s res"
  shows "rounds_to x' neg cw s res"
proof -
  note F = mag_far [OF m(1) e(1) refl, of cw] mag_far [OF m(2) e(2) refl, of cw]
  note X = mag_rounded [OF m(1) refl refl refl, of cw] and X' = mag_rounded [OF m(2) refl refl refl, of cw]
  have "e + int (nat (- 0x3ffe - e)) = e' + int (nat (- 0x3ffe - e'))" using e by simp
  then have "reg_rounded cw x = reg_rounded cw x'" unfolding X(1) X'(1) F(1, 2, 4, 5) by (simp only:)
  moreover have "reg_rounded cw x \<noteq> x" "reg_rounded cw x' \<noteq> x'" using X(2) X'(2) F(3, 6) by simp_all
  moreover have "tiny x" "tiny x'" using mag_tiny [OF m(1)] mag_tiny [OF m(2)] e by simp_all
  ultimately show ?thesis using r unfolding rounds_to_def result_tag_def rounded_flags_def by auto
qed

section \<open>The product\<close>

lemma mull_unat: "mull a b = (h, l) \<Longrightarrow> unat h * 2 ^ 32 + unat l = unat a * unat b"
proof -
  assume "mull a b = (h, l)"
  then have h: "h = ucast (drop_bit 32 (ucast a * ucast b :: u64))" and l: "l = ucast (ucast a * ucast b :: u64)"
    by (auto simp: mull_def Let_def)
  define p where "p = unat a * unat b"
  have "p < 2 ^ 32 * 2 ^ 32" unfolding p_def
    using unat_lt_32 [of a] unat_lt_32 [of b] by (intro mult_strict_mono) simp_all
  then have p: "p < 2 ^ 64" by simp
  then have u: "unat (ucast a * ucast b :: u64) = p" unfolding p_def by (simp add: unat_word_ariths)
  then have "unat h = p div 2 ^ 32" "unat l = p mod 2 ^ 32"
    using p unfolding h l unat_ucast_64_32 unat_drop_bit_div by (simp_all add: div_less_iff_less_mult)
  then show ?thesis unfolding p_def [symmetric] by simp
qed

lemma rcl1_unat: "rcl1 w c = (z, c') \<Longrightarrow> unat z + of_bool c' * 2 ^ 32 = 2 * unat w + of_bool c"
proof -
  assume "rcl1 w c = (z, c')"
  then have z: "z = push_bit 1 w OR of_bool c" and c': "c' = bit w 31" by (simp_all add: rcl1_def)
  have "push_bit 1 w AND of_bool c = 0" 
    by (rule bit_word_eqI) (auto simp: bit_and_iff bit_of_bool_iff bit_0)
  then have "push_bit 1 w OR of_bool c = push_bit 1 w + of_bool c" by (rule disjunctive_add_eq_or [symmetric])
  then have "z = w + w + of_bool c" unfolding z by (simp only:) (simp add: push_bit_eq_mult)
  moreover have "c' \<longleftrightarrow> 2 ^ 32 \<le> unat w + unat w + of_bool c" unfolding c' bit31_ge by (cases c) auto
  ultimately have "adc w w c = (z, c')" by (simp add: adc_def)
  from adc_unat [OF this] show ?thesis by simp
qed

lemma product_carries:
  fixes ha la hb lb :: nat
  assumes b: "ha < 2 ^ 32" "la < 2 ^ 32" "hb < 2 ^ 32" "lb < 2 ^ 32"
    and "p1 * 2 ^ 32 + p0 = la * lb" "d1 * 2 ^ 32 + e1 = la * hb" "q1 + cu * 2 ^ 32 = p1 + e1" "r1 + cv * 2 ^ 32 = d1 + cu" "cu \<le> 1"
    and "d2 * 2 ^ 32 + e2 = ha * lb" "q2 + cw * 2 ^ 32 = q1 + e2" "r2 + cx * 2 ^ 32 = r1 + d2 + cw" "t1 + cy * 2 ^ 32 = cx"
    and "d3 * 2 ^ 32 + e3 = ha * hb" "r3 + cz * 2 ^ 32 = r2 + e3" "t2 + ck * 2 ^ 32 = t1 + d3 + cz"
  shows "((t2 * 2 ^ 32 + r3) * 2 ^ 32 + q2) * 2 ^ 32 + p0 = (ha * 2 ^ 32 + la) * (hb * 2 ^ 32 + lb)"
proof -
  define P where "P = (ha * 2 ^ 32 + la) * (hb * 2 ^ 32 + lb)"
  have P: "P = ha * hb * 2 ^ 64 + (ha * lb + la * hb) * 2 ^ 32 + la * lb" unfolding P_def by (simp add: algebra_simps)
  have "la * hb \<le> (2 ^ 32 - 1) * (2 ^ 32 - 1)" using b by (intro mult_le_mono) simp_all
  then have "d1 + 1 < 2 ^ 32" using assms(6) by simp
  then have cv: "cv = 0" using assms(8, 9) by simp
  have "P < 2 ^ 64 * 2 ^ 64" unfolding P_def using b by (intro mult_strict_mono) simp_all
  then have lt: "P < 2 ^ 128" by simp
  have tot: "((t2 * 2 ^ 32 + r3) * 2 ^ 32 + q2) * 2 ^ 32 + p0 + (ck + cy) * 2 ^ 128 = P"
    unfolding P using assms(5-16) unfolding cv by simp
  then have "ck + cy = 0" using lt by (cases "ck + cy") simp_all
  then show ?thesis using tot unfolding P_def by simp
qed

lemma unat_significand: "unat (significand r) = unat (sigh r) * 2 ^ 32 + unat (sigl r)"
  unfolding significand_def pair64_def [symmetric] by (rule unat_pair64)

lemma u_mul_product_unat:
  assumes "u_mul_product a b = (p3, p2, p1, p0)"
  shows "((unat p3 * 2 ^ 32 + unat p2) * 2 ^ 32 + unat p1) * 2 ^ 32 + unat p0 =
         unat (significand a) * unat (significand b)"
proof -
  obtain m1 where m1: "mull (sigl a) (sigl b) = (m1, p0)"
    using assms by (auto simp: u_mul_product_def split: prod.splits)
  obtain d1 e1 where m2: "mull (sigl a) (sigh b) = (d1, e1)" by force
  obtain q1 c1 where s1: "adc m1 e1 False = (q1, c1)" by force
  obtain r1 c2 where s2: "adc 0 d1 c1 = (r1, c2)" by force
  obtain d2 e2 where m3: "mull (sigh a) (sigl b) = (d2, e2)" by force
  obtain q2 c3 where s3: "adc q1 e2 False = (q2, c3)" by force
  obtain r2 c4 where s4: "adc r1 d2 c3 = (r2, c4)" by force
  obtain t1 c5 where s5: "adc 0 0 c4 = (t1, c5)" by force
  obtain d3 e3 where m4: "mull (sigh a) (sigh b) = (d3, e3)" by force
  obtain r3 c6 where s6: "adc r2 e3 False = (r3, c6)" by force
  obtain t2 c7 where s7: "adc t1 d3 c6 = (t2, c7)" by force
  have p: "p3 = t2" "p2 = r3" "p1 = q2"
    using assms by (simp_all add: u_mul_product_def m1 m2 m3 m4 s1 s2 s3 s4 s5 s6 s7)
  show ?thesis unfolding p unat_significand
    by (rule product_carries [OF unat_lt_32 unat_lt_32 unat_lt_32 unat_lt_32 mull_unat [OF m1] mull_unat [OF m2] _ _ _
        mull_unat [OF m3] _ _ _ mull_unat [OF m4], where cu = "of_bool c1" and cv = "of_bool c2" and cw = "of_bool c3" and
        cx = "of_bool c4" and cy = "of_bool c5" and cz = "of_bool c6" and ck = "of_bool c7"])
      (use adc_unat [OF s1] adc_unat [OF s2] adc_unat [OF s3] adc_unat [OF s4] adc_unat [OF s5] adc_unat [OF s6]
         adc_unat [OF s7] in simp_all)
qed

text \<open>A 128-bit magnitude in four words: its upper half, and the lower half as an extension.\<close>

lemma four_words:
  assumes W: "W = ((unat p3 * 2 ^ 32 + unat p2) * 2 ^ 32 + unat p1) * 2 ^ 32 + unat (p0 :: u32)"
  shows "unat (pair64 p3 p2) = W div 2 ^ 64" and "ext_ok W 64 (p1 OR of_bool (p0 \<noteq> 0))"
proof -
  define V where "V = unat p3 * 2 ^ 32 + unat p2"
  define U where "U = V * 2 ^ 32 + unat p1"
  have "W = U * 2 ^ 32 + unat p0" by (simp add: W U_def V_def)
  then have "W div 2 ^ 32 = U" and m: "W mod 2 ^ 32 = unat p0" using unat_lt_32 [of p0] by simp_all
  note d = this(1) [unfolded U_def] m
  have "W div 2 ^ (32 + 32) = (V * 2 ^ 32 + unat p1) div 2 ^ 32" unfolding div_parts d ..
  then show "unat (pair64 p3 p2) = W div 2 ^ 64" using unat_lt_32 [of p1] by (simp add: V_def unat_pair64)
  have "ext_ok W (32 + 32) (p1 OR of_bool (p0 \<noteq> 0))"
    using ext_shift_small(1) [of 32 V "unat p1"] ext_shift_small(2) [of 32 "V * 2 ^ 32 + unat p1"] unat_lt_32 [of p1] d
    by (intro ext_sticky) (simp_all add: unat_eq_zero)
  then show "ext_ok W 64 (p1 OR of_bool (p0 \<noteq> 0))" by simp
qed

lemma rcl_words:
  assumes "rcl1 p0 False = (q0, c0)" "rcl1 p1 c0 = (q1, c1)" "rcl1 p2 c1 = (q2, c2)" "rcl1 p3 c2 = (q3, c3)" "\<not> bit p3 31"
  shows "((unat q3 * 2 ^ 32 + unat q2) * 2 ^ 32 + unat q1) * 2 ^ 32 + unat q0 =
         2 * (((unat p3 * 2 ^ 32 + unat p2) * 2 ^ 32 + unat p1) * 2 ^ 32 + unat p0)"
proof -
  have "\<not> c3" using assms(4, 5) by (auto simp: rcl1_def)
  with rcl1_unat [OF assms(1)] rcl1_unat [OF assms(2)] rcl1_unat [OF assms(3)] rcl1_unat [OF assms(4)]
  show ?thesis by simp
qed

lemma FPU_u_mul_rounds:
  assumes n: "bit (sigh a) 31" "bit (sigh b) 31"
    and x: "x = signed neg * real (unat (significand a)) * real (unat (significand b)) * 2 powi (expon - 126)"
    and e: "expon < 0x7fff" and fin: "\<bar>reg_rounded cw x\<bar> < 2 powi 0x4000" and um: "tiny x \<Longrightarrow> cw AND CW_Underflow \<noteq> 0"
  shows "rounds_to x neg cw s (FPU_u_mul a b dest cw neg expon s)"
proof -
  define P where "P = unat (significand a) * unat (significand b)"
  obtain p3 p2 p1 p0 where p: "u_mul_product a b = (p3, p2, p1, p0)" using prod_cases4 by metis
  note prod = u_mul_product_unat [OF p, folded P_def]
  have s: "2 ^ 63 \<le> unat (significand r)" if "bit (sigh r) 31" for r
    using that pair64_bit63 [of "sigh r" "sigl r"] by (simp add: significand_def pair64_def)
  have "2 ^ 63 * 2 ^ 63 \<le> P" unfolding P_def using s [OF n(1)] s [OF n(2)] by (rule mult_le_mono)
  then have P: "2 ^ 126 \<le> P" by simp
  obtain q3 q2 q1 q0 j where q: "((unat q3 * 2 ^ 32 + unat q2) * 2 ^ 32 + unat q1) * 2 ^ 32 + unat (q0 :: u32) = 2 ^ j * P"
      "bit q3 31" "j \<le> 1" and run: "FPU_u_mul a b dest cw neg expon s =
      fpu_reg_round q3 q2 (q1 OR of_bool (q0 \<noteq> 0)) (word_of_int (max (expon + 1) EXP_WAY_UNDER - int j)) cw neg s"
  proof (cases "bit p3 31")
    case True
    then show thesis using that [of p3 p2 p1 p0 0] prod n p by (simp add: FPU_u_mul_def)
  next
    case False
    obtain q0 c0 where r0: "rcl1 p0 False = (q0, c0)" by force
    obtain q1 c1 where r1: "rcl1 p1 c0 = (q1, c1)" by force
    obtain q2 c2 where r2: "rcl1 p2 c1 = (q2, c2)" by force
    obtain q3 c3 where r3: "rcl1 p3 c2 = (q3, c3)" by force
    have w: "((unat q3 * 2 ^ 32 + unat q2) * 2 ^ 32 + unat q1) * 2 ^ 32 + unat q0 = 2 ^ 1 * P"
      using rcl_words [OF r0 r1 r2 r3 False] prod by simp
    moreover have "bit q3 31"
    proof -
      have "2 ^ 63 \<le> unat (pair64 q3 q2)" unfolding four_words(1) [OF w [symmetric]] using P by simp
      then show ?thesis by (simp only: pair64_bit63 [of q3 q2])
    qed
    moreover have "FPU_u_mul a b dest cw neg expon s =
        fpu_reg_round q3 q2 (q1 OR of_bool (q0 \<noteq> 0)) (word_of_int (max (expon + 1) EXP_WAY_UNDER - int 1)) cw neg s"
      using n p False by (simp add: FPU_u_mul_def r0 r1 r2 r3)
    ultimately show thesis using that [of q3 q2 q1 q0 1] by simp
  qed
  define W where "W = 2 ^ j * P"
  note F = four_words [OF q(1) [symmetric], folded W_def]
  have V: "2 ^ 63 \<le> W div 2 ^ 64" "W div 2 ^ 64 < 2 ^ 64"
    using q(2) pair64_bit63 [of q3 q2] unat_lt_64 [of "pair64 q3 q2"] unfolding F(1) by simp_all
  have mag: "exact_mag W 64 E neg (signed neg * real W * 2 powi (E - 63 - int 64))" for E
    using V by (simp only: exact_mag_def)
  define E where "E = expon + 1 - int j"
  have xE: "x = signed neg * real W * 2 powi (E - 63 - int 64)"
  proof -
    have "expon - 126 = int j + (E - 63 - int 64)" by (simp add: E_def)
    then show ?thesis unfolding x W_def P_def by (simp only: pow_add) simp
  qed
  note M = mag [of E, folded xE]
  show ?thesis
  proof (cases "EXP_WAY_UNDER \<le> expon + 1")
    case True
    then have m: "max (expon + 1) EXP_WAY_UNDER - int j = E" by (simp add: E_def max_absorb1)
    show ?thesis unfolding run m
      by (rule reg_round_correct [OF M F _ _ fin um]) (use True q(3) e in \<open>simp_all add: E_def\<close>)
  next
    case False
    define E' where "E' = EXP_WAY_UNDER - int j"
    define x' where "x' = signed neg * real W * 2 powi (E' - 63 - int 64)"
    note M' = mag [of E', folded x'_def]
    have m: "max (expon + 1) EXP_WAY_UNDER - int j = E'" using False by (simp add: E'_def max_absorb2)
    have E: "E < - 0x3ffe - 65" "E' < - 0x3ffe - 65" "- 0x8000 \<le> E'" using False q(3) by (simp_all add: E_def E'_def)
    have t: "tiny x" "E' < - 0x3ffe" using mag_tiny [OF M] E by simp_all
    have "rounds_to x' neg cw s (FPU_u_mul a b dest cw neg expon s)"
      unfolding run m by (rule reg_round_tiny [OF M' F t(2) E(3) um [OF t(1)]])
    then show ?thesis by (rule rounds_to_far [OF M' M E(2, 1)])
  qed
qed

section \<open>The sum of magnitudes\<close>

lemma normal_sig: "bit (sigh r) 31 \<longleftrightarrow> 2 ^ 63 \<le> unat (significand r)"
  using pair64_bit63 [of "sigh r" "sigl r"] by (simp add: significand_def pair64_def)

lemma ext_ok_mod: "W mod 2 ^ k = W' mod 2 ^ k \<Longrightarrow> ext_ok W k y = ext_ok W' k y"
  by (simp only: ext_ok_def)

lemma shrd_0_0: "shrd 0 a b = b"
  using unat_lt_32 [of b] by (simp add: word_unat_eq_iff unat_shrd)

text \<open>The smaller operand shifted into place.\<close>

lemma u_shift_correct:
  assumes "(if cx < 65 then u_shift cx a b else (0, 0, 1)) = (a', b', y)" and B: "unat (pair64 a b) = B" "0 < B"
  shows "unat (pair64 a' b') = B div 2 ^ cx" and "ext_ok B cx y"
proof -
  have B0: "unat (pair64 a b) = B div 2 ^ 0" "False \<longleftrightarrow> B mod 2 ^ 0 \<noteq> 0" using B(1) by simp_all
  note E = ext_words [OF B0, unfolded add_0_left]
  note S = shift_words [where h = a and l = b, unfolded B(1)]
  have ab: "B = unat a * 2 ^ 32 + unat b" using B(1) by (simp only: unat_pair64)
  consider "cx = 0" | "0 < cx" "cx < 32" | "cx = 32" | "32 < cx" "cx < 64" | "cx = 64" | "65 \<le> cx" by linarith
  then have "unat (pair64 a' b') = B div 2 ^ cx \<and> ext_ok B cx y"
  proof cases
    case 1
    then show ?thesis using assms(1) S(1) [of 0] ext_ok_0 [of B] by (auto simp: u_shift_def shrd_0_0)
  next
    case 2
    then show ?thesis using assms(1) S(1) E(1) by (auto simp: u_shift_def)
  next
    case 3
    then show ?thesis using assms(1) S(2) [of 32] E(2) [of 32] by (auto simp: u_shift_def shrd_0_0)
  next
    case 4
    define cl where "cl = cx - 32"
    have cl: "0 < cl" "cl < 32" "cx = 32 + cl" using 4 by (simp_all add: cl_def)
    have y: "a' = 0" "b' = drop_bit cl a" "y = shrd cl a 0 OR of_bool (b \<noteq> 0)"
      using assms(1) 4 by (auto simp: u_shift_def cl_def Let_def)
    have d: "B div 2 ^ 32 = unat a" "B mod 2 ^ 32 = unat b" using unat_lt_32 [of b] by (simp_all add: ab)
    have "unat (shrd cl a 0) = ext_bits (B div 2 ^ 32) cl" "b \<noteq> 0 \<longleftrightarrow> ext_lost (B div 2 ^ 32) cl \<or> B mod 2 ^ 32 \<noteq> 0"
      unfolding d using ext_shift_small(2) [of cl "unat a"] cl by (simp_all add: unat_shrd ext_bits_def unat_gt_0)
    then have "ext_ok B (32 + cl) (shrd cl a 0 OR of_bool (b \<noteq> 0))" using cl(1) by (rule ext_sticky)
    then show ?thesis using S(2) [of cx] 4 unfolding y cl_def [symmetric] cl(3) by simp
  next
    case 5
    then show ?thesis using assms(1) S(3) [of 64] E(3) by (auto simp: u_shift_def)
  next
    case 6
    have "2 * B < 2 ^ 65" using unat_lt_64 [of "pair64 a b"] B(1) by simp
    also have "(2::nat) ^ 65 \<le> 2 ^ cx" using 6 by (intro power_increasing) simp_all
    finally have "ext_ok B cx 1" by (rule ext_tiny [OF B(2)])
    then show ?thesis using assms(1) S(3) [of cx] 6 by auto
  qed
  then show "unat (pair64 a' b') = B div 2 ^ cx" "ext_ok B cx y" by blast+
qed

lemma adc_pair:
  assumes "adc b d False = (q, c)" "adc a h c = (p, c')"
  shows "unat (pair64 p q) + of_bool c' * 2 ^ 64 = unat (pair64 a b) + unat (pair64 h d)"
  using adc_unat [OF assms(1)] adc_unat [OF assms(2)] by (simp add: unat_pair64)

lemma rcr1_unat: "rcr1 w c = (z, c') \<Longrightarrow> 2 * unat z + of_bool c' = unat w + of_bool c * 2 ^ 32"
proof -
  assume "rcr1 w c = (z, c')"
  then have z: "z = drop_bit 1 w OR (if c then 0x80000000 else 0)" and c': "c' = bit w 0" by (simp_all add: rcr1_def)
  have lt: "unat (drop_bit 1 w) < 2 ^ 31" unfolding unat_drop_bit_div using unat_lt_32 [of w] by simp
  then have "\<not> bit (drop_bit 1 w) 31" unfolding bit31_ge by simp
  then have "drop_bit 1 w AND (if c then 0x80000000 else 0) = 0"
    using and_bit31 [of "drop_bit 1 w"] by (cases c) (simp_all only: if_True if_False and_zero_eq simp_thms)
  then have "z = drop_bit 1 w + (if c then 0x80000000 else 0)" unfolding z by (rule disjunctive_add_eq_or [symmetric])
  then have "unat z = unat w div 2 + of_bool c * 2 ^ 31"
    using lt unat_drop_bit_div [of 1 w] by (cases c) (simp_all add: unat_word_ariths)
  moreover have "c' \<longleftrightarrow> odd (unat w)" unfolding c' bit_0 [symmetric] by (simp add: bit_unsigned_iff)
  ultimately show ?thesis by (cases c) (simp_all add: of_bool_def)
qed

lemma rcr_pair:
  assumes "rcr1 p True = (p', c)" "rcr1 q c = (q', c')" "unat (pair64 p q) + 2 ^ 64 = V"
  shows "unat (pair64 p' q') = V div 2" "c' \<longleftrightarrow> odd V"
proof -
  have "2 * unat (pair64 p' q') + of_bool c' = V"
    using rcr1_unat [OF assms(1)] rcr1_unat [OF assms(2)] assms(3) by (simp add: unat_pair64)
  then show "unat (pair64 p' q') = V div 2" "c' \<longleftrightarrow> odd V" by auto
qed

lemma add_magnitudes:
  fixes A B cx :: nat
  assumes n: "bit (sigh l) 31" "bit (sigh m) 31" and A: "A = unat (significand l)" and B: "B = unat (significand m)"
    and sh: "(if cx < 65 then u_shift cx (sigh m) (sigl m) else (0, 0, 1)) = (a', b', y)"
    and ad: "adc b' (sigl l) False = (q, c)" "adc a' (sigh l) c = (p, c')"
    and x: "x = signed neg * real (A * 2 ^ cx + B) * 2 powi (e - 63 - int cx)"
    and e: "- 0x8000 \<le> e" "e < 0x7fff" and fin: "\<bar>reg_rounded cw x\<bar> < 2 powi 0x4000" and um: "tiny x \<Longrightarrow> cw AND CW_Underflow \<noteq> 0"
  shows "rounds_to x neg cw s
    (if \<not> c' then fpu_reg_round p q y (word_of_int e) cw neg s
     else (let (eax, c) = rcr1 p c'; (ebx, c) = rcr1 q c; (edx, c) = rcr1 y c in
           fpu_reg_round eax ebx (edx OR of_bool c) (word_of_int e + 1) cw neg s))"
proof -
  define W where "W = A * 2 ^ cx + B"
  define V where "V = W div 2 ^ cx"
  have "2 ^ 63 \<le> B" "2 ^ 63 \<le> A" using n normal_sig unfolding A B by simp_all
  then have B0: "0 < B" "2 ^ 63 \<le> A" by simp_all
  have sig: "significand r = pair64 (sigh r) (sigl r)" for r by (simp add: significand_def pair64_def)
  note S = u_shift_correct [OF sh B [unfolded sig, symmetric] B0(1)]
  have V: "V = A + B div 2 ^ cx" by (simp add: V_def W_def)
  have sum: "unat (pair64 p q) + of_bool c' * 2 ^ 64 = V"
    using adc_pair [OF ad] unfolding S(1) V A sig by (simp only: add.commute)
  have ext: "ext_ok W cx y" using S(2) ext_ok_mod [of W cx B y] by (simp add: W_def)
  have V2: "2 ^ 63 \<le> V" "V < 2 ^ 65"
  proof -
    show "2 ^ 63 \<le> V" using B0 unfolding V by simp
    have "A < 2 ^ 64" "B < 2 ^ 64" unfolding A B by (rule unat_lt_64)+
    moreover have "B div 2 ^ cx < 2 ^ 64" using \<open>B < 2 ^ 64\<close> by (rule le_less_trans [OF div_le_dividend])
    ultimately show "V < 2 ^ 65" unfolding V by simp
  qed
  show ?thesis
  proof (cases c')
    case False
    then have V': "unat (pair64 p q) = W div 2 ^ cx" "V < 2 ^ 64" using sum unat_lt_64 [of "pair64 p q"] by (simp_all add: V_def)
    have "exact_mag W cx e neg x"
      unfolding exact_mag_def using x V2(1) V'(2) unfolding W_def [symmetric] V_def [symmetric] by blast
    from reg_round_correct [OF this V'(1) ext e(1) _ fin um] show ?thesis using False e(2) by (simp only: not_False_eq_True if_True)
  next
    case True
    obtain p' c1 where r1: "rcr1 p True = (p', c1)" by force
    obtain q' c2 where r2: "rcr1 q c1 = (q', c2)" by force
    obtain y' c3 where r3: "rcr1 y c2 = (y', c3)" by force
    have "unat (pair64 p q) + 2 ^ 64 = V" using sum True by simp
    note R = rcr_pair [OF r1 r2 this]
    have "W div 2 ^ (cx + 1) = V div 2" unfolding div_parts V_def by simp
    then have V': "unat (pair64 p' q') = W div 2 ^ (cx + 1)" unfolding R(1) by simp
    have "2 ^ 63 \<le> V div 2" "V div 2 < 2 ^ 64" using V2 \<open>unat (pair64 p q) + 2 ^ 64 = V\<close> by simp_all
    moreover have "x = signed neg * real W * 2 powi (e + 1 - 63 - int (cx + 1))" unfolding x W_def by (simp add: algebra_simps)
    ultimately have "exact_mag W (cx + 1) (e + 1) neg x" unfolding exact_mag_def V' [symmetric] R(1) by blast
    moreover have "ext_ok W (cx + 1) (y' OR of_bool c3)"
      using ext_shift_one [OF ext] r3 R(2) by (auto simp: rcr1_def V_def)
    ultimately have "rounds_to x neg cw s (fpu_reg_round p' q' (y' OR of_bool c3) (word_of_int (e + 1)) cw neg s)"
      using e by (intro reg_round_correct [OF _ V' _ _ _ fin um]) simp_all
    then show ?thesis using True r1 r2 r3 by simp
  qed
qed

lemma unat_word16_diff: "unat (word_of_int (int n) :: u16) = n" if "n < 2 ^ 16"
  using that by (simp add: unat_of_nat)

lemma FPU_u_add_rounds:
  assumes n: "bit (sigh a) 31" "bit (sigh b) 31"
    and x: "x = signed neg * (real (unat (significand a)) * 2 powi (exp1 - 63) + real (unat (significand b)) * 2 powi (exp2 - 63))"
    and e: "- 0x7fff \<le> exp1" "exp1 < 0x7fff" "- 0x7fff \<le> exp2" "exp2 < 0x7fff"
    and fin: "\<bar>reg_rounded cw x\<bar> < 2 powi 0x4000" and um: "tiny x \<Longrightarrow> cw AND CW_Underflow \<noteq> 0"
  shows "rounds_to x neg cw s (FPU_u_add a b dest cw neg exp1 exp2 s)"
proof -
  define l m E where "l = (if exp2 \<le> exp1 then a else b)" and "m = (if exp2 \<le> exp1 then b else a)" and "E = max exp1 exp2"
  define cx where "cx = nat \<bar>exp1 - exp2\<bar>"
  have ops: "(if exp2 \<le> exp1 then (a, b, exp1, exp1 - exp2) else (b, a, exp2, exp2 - exp1)) = (l, m, E, int cx)"
    by (auto simp: l_def m_def E_def cx_def)
  have cx: "unat (word_of_int (int cx) :: u16) = cx" using e by (intro unat_word16_diff) (simp add: cx_def)
  have nn: "bit (sigh l) 31" "bit (sigh m) 31" using n by (simp_all add: l_def m_def)
  obtain a' b' y where sh: "(if cx < 65 then u_shift cx (sigh m) (sigl m) else (0, 0, 1)) = (a', b', y)"
    using prod_cases3 by metis
  obtain q c where a1: "adc b' (sigl l) False = (q, c)" by force
  obtain p c' where a2: "adc a' (sigh l) c = (p, c')" by force
  have "2 powi (E - 63) = (2 ^ cx * 2 powi (E - 63 - int cx) :: real)" using pow_add [of cx "E - 63 - int cx"] by simp
  moreover have "min exp1 exp2 - 63 = E - 63 - int cx" by (simp add: E_def cx_def)
  ultimately have xx: "x = signed neg * real (unat (significand l) * 2 ^ cx + unat (significand m)) * 2 powi (E - 63 - int cx)"
    unfolding x l_def m_def E_def by (auto simp: algebra_simps min_def max_def)
  have eE: "- 0x8000 \<le> E" "E < 0x7fff" using e by (auto simp: E_def)
  from add_magnitudes [OF nn refl refl sh a1 a2 xx eE fin um]
  show ?thesis using nn unfolding FPU_u_add_def ops Let_def prod.case cx sh a1 a2 by simp
qed

end
