(* ===== verification/Fpu_Subtract.thy ===== *)
theory Fpu_Subtract
  imports Fpu_Rounded
begin

text \<open>
  The difference of magnitudes. The operand with the smaller exponent is shifted right with an approximate
  extension; the difference is normalised by a left shift and rounded. The result is correctly rounded unless the
  exponents differ by exactly 33, where the extension has one bit too few.
\<close>

section \<open>Numbers in the same cell of a grid\<close>

lemma ext_low: "unat y = Z mod 2 ^ 32 \<Longrightarrow> ext_ok Z 32 y"
  by (auto simp: ext_ok_def unat_eq_zero [symmetric])

lemma ext_scale: "ext_ok (Z * 2 ^ h) (k + h) y \<longleftrightarrow> ext_ok Z k y"
proof -
  have m: "Z * 2 ^ h mod 2 ^ (k + h) = Z mod 2 ^ k * 2 ^ h" by (simp add: power_add mult_mod_left)
  have p: "(2::nat) ^ (k + h) = 2 ^ k * 2 ^ h" by (rule power_add)
  show ?thesis unfolding ext_ok_def m p mult.assoc [symmetric] by simp
qed

text \<open>Two numbers strictly inside the same cell of a grid finer than the half unit round alike.\<close>

lemma ext_cell:
  assumes g: "g \<le> 31" and t: "Z div 2 ^ g = W div 2 ^ (g + h)" and nz: "Z mod 2 ^ g \<noteq> 0" "W mod 2 ^ (g + h) \<noteq> 0"
    and y: "unat y = Z mod 2 ^ 32"
  shows "W div 2 ^ (32 + h) = Z div 2 ^ 32" and "ext_ok W (32 + h) y"
proof -
  have D: "W div 2 ^ (n + h) = Z div 2 ^ n" if "g \<le> n" for n
  proof -
    have "W div 2 ^ (n + h) = W div 2 ^ (g + h) div 2 ^ (n - g)" using that div_parts [of W "g + h" "n - g"] by (simp add: ac_simps)
    also have "\<dots> = Z div 2 ^ n" unfolding t [symmetric] using that div_parts [of Z g "n - g"] by simp
    finally show ?thesis .
  qed
  show "W div 2 ^ (32 + h) = Z div 2 ^ 32" using g by (intro D) simp
  have N: "X mod 2 ^ (m + n) \<noteq> 0" if "X mod 2 ^ m \<noteq> 0" for X m n :: nat using that mod_split_eq_0 [of X m n] by simp
  have nz': "Z mod 2 ^ 31 \<noteq> 0" "Z mod 2 ^ 32 \<noteq> 0" "W mod 2 ^ (31 + h) \<noteq> 0" "W mod 2 ^ (32 + h) \<noteq> 0"
    using N [OF nz(1), of "31 - g"] N [OF nz(1), of "32 - g"] N [OF nz(2), of "31 - g"] N [OF nz(2), of "32 - g"] g
    by (simp_all add: ac_simps)
  have H: "(2 ^ Suc m \<le> 2 * (X mod 2 ^ Suc m) \<longleftrightarrow> odd (X div 2 ^ m)) \<and>
      (2 ^ Suc m < 2 * (X mod 2 ^ Suc m) \<longleftrightarrow> odd (X div 2 ^ m))" if "X mod 2 ^ m \<noteq> 0" for X m :: nat
  proof -
    define r p where "r = X mod 2 ^ m" and "p = (2 :: nat) ^ m"
    have "r < p" "r \<noteq> 0" using that by (simp_all add: r_def p_def)
    moreover have "X mod 2 ^ Suc m = (X div 2 ^ m mod 2) * p + r" using mod_parts [of X m 1] by (simp add: r_def p_def)
    ultimately show ?thesis unfolding power_Suc p_def [symmetric]
      by (cases "odd (X div p)") (simp_all add: odd_iff_mod_2_eq_one even_iff_mod_2_eq_zero)
  qed
  have "W div 2 ^ (31 + h) = Z div 2 ^ 31" using g by (intro D) simp
  then show "ext_ok W (32 + h) y"
    using H [OF nz'(1)] H [OF nz'(3)] nz'(2, 4) y
    by (auto simp: ext_ok_def unat_eq_zero [symmetric])
qed

lemma cell_parts: "(t * G + u) div G = t" "(t * G + u) mod G = u" if "u < G" for t G u :: nat
  using that by simp_all

lemma cell_minus:
  fixes S N G :: nat
  assumes "S mod G \<noteq> 0" "S \<le> N * G"
  shows "(N * G - S) div G = N - S div G - 1" "(N * G - S) mod G \<noteq> 0"
proof -
  define t u where "t = S div G" and "u = S mod G"
  have G: "0 < G" using assms by (cases "G = 0") auto
  have S: "S = t * G + u" by (simp add: t_def u_def)
  have u: "0 < u" "u < G" using assms(1) G by (simp_all add: u_def)
  have "t * G < N * G" using assms(2) u(1) unfolding S by linarith
  then have "t < N" by simp
  then obtain m where m: "N = t + 1 + m" using less_iff_Suc_add by auto
  define w where "w = G - u"
  have w: "0 < w" "w < G" "G = w + u" using u by (simp_all add: w_def)
  have "(t + 1 + m) * G = m * G + w + (t * G + u)" unfolding add_mult_distrib using w(3) by simp
  then have "N * G - S = m * G + w" unfolding m S by simp
  then show "(N * G - S) div G = N - S div G - 1" "(N * G - S) mod G \<noteq> 0"
    using w(1, 2) unfolding t_def [symmetric] by (simp_all add: m)
qed

section \<open>The subtrahend in place\<close>

definition words3 :: "u32 \<Rightarrow> u32 \<Rightarrow> u32 \<Rightarrow> nat" where
  "words3 a b y = (unat a * 2 ^ 32 + unat b) * 2 ^ 32 + unat y"

definition sub_shifted :: "nat \<Rightarrow> u32 \<Rightarrow> u32 \<Rightarrow> u32 \<times> u32 \<times> u32" where
  "sub_shifted cx h l =
     (if cx < 65 then u_shift cx h l
      else if cx = 65 then (0, 0, drop_bit 1 h OR of_bool (bit h 0 \<or> l \<noteq> 0))
      else (0, 0, 1))"

lemma words3_pair: "words3 a b y = unat (pair64 a b) * 2 ^ 32 + unat y"
  by (simp add: words3_def unat_pair64)

lemma low_shrd: "cl < 32 \<Longrightarrow> unat (shrd cl h 0) = unat h mod 2 ^ cl * 2 ^ (32 - cl)"
proof -
  assume "cl < 32"
  then have p: "(2::nat) ^ 32 = 2 ^ (32 - cl) * 2 ^ cl" by (simp flip: power_add)
  have "unat (shrd cl h 0) = unat h * 2 ^ (32 - cl) mod (2 ^ cl * 2 ^ (32 - cl))"
    unfolding unat_shrd by (subst (1 2) p) (simp flip: mult.assoc add: mult.commute)
  then show ?thesis by (simp flip: mult_mod_left)
qed

lemma unat_or_1: "unat (e OR 1 :: u32) = 2 * (unat e div 2) + 1"
proof -
  have "unat (e OR 1) = unat e OR 1" by (simp only: unsigned_or_eq unsigned_1)
  also have "\<dots> = unat e + of_bool (even (unat e))" by (rule or_one_eq)
  finally show ?thesis by (cases "even (unat e)") auto
qed

lemma sub_shifted_small:
  assumes "sub_shifted cx h l = (a, b, y)" "cx \<le> 32" and B: "B = unat (pair64 h l)"
  shows "words3 a b y = B * 2 ^ (32 - cx)"
proof (cases "cx = 32")
  case True
  then have "a = 0" "b = h" "y = l" using assms(1) by (auto simp: sub_shifted_def u_shift_def)
  then show ?thesis unfolding True B by (simp add: words3_def unat_pair64)
next
  case False
  then have cx: "cx < 32" using assms(2) by simp
  then have abc: "a = drop_bit cx h" "b = shrd cx h l" "y = shrd cx l 0" using assms(1) by (auto simp: sub_shifted_def u_shift_def)
  have p: "(2::nat) ^ 32 = 2 ^ (32 - cx) * 2 ^ cx" using cx by (simp flip: power_add)
  have y: "unat y = B mod 2 ^ cx * 2 ^ (32 - cx)"
    unfolding abc low_shrd [OF cx] B unat_pair64 using cx by (simp only: low_part_mod less_imp_le)
  have "unat (pair64 a b) = B div 2 ^ cx" unfolding abc B using cx by (rule shift_words(1))
  then have "words3 a b y = B div 2 ^ cx * (2 ^ (32 - cx) * 2 ^ cx) + B mod 2 ^ cx * 2 ^ (32 - cx)"
    unfolding words3_pair y p by simp
  also have "\<dots> = (B div 2 ^ cx * 2 ^ cx + B mod 2 ^ cx) * 2 ^ (32 - cx)" by (simp only: algebra_simps)
  finally show ?thesis by (simp only: div_mult_mod_eq)
qed

text \<open>A larger shift: exact, or strictly inside the same cell of a grid of at most a quarter unit.\<close>

definition same_cell :: "nat \<Rightarrow> nat \<Rightarrow> nat \<Rightarrow> nat \<Rightarrow> bool" where
  "same_cell S B h g \<longleftrightarrow> S div 2 ^ g = B div 2 ^ (g + h) \<and> S mod 2 ^ g \<noteq> 0 \<and> B mod 2 ^ (g + h) \<noteq> 0"

lemma sub_shifted_large:
  assumes sh: "sub_shifted cx h l = (a, b, y)" and cx: "33 < cx" and B: "B = unat (pair64 h l)" "0 < B"
  shows "words3 a b y < 2 ^ 64" and "words3 a b y * 2 ^ (cx - 32) = B \<or> (\<exists>g \<le> 30. same_cell (words3 a b y) B (cx - 32) g)"
proof -
  have a: "a = 0" using sh cx by (auto simp: sub_shifted_def u_shift_def Let_def split: if_splits)
  have S: "words3 a b y = unat b * 2 ^ 32 + unat y" by (simp add: words3_def a)
  then show "words3 a b y < 2 ^ 64" using unat_lt_32 [of b] unat_lt_32 [of y] by simp
  have BB: "B = unat h * 2 ^ 32 + unat l" unfolding B unat_pair64 ..
  have Bd: "B div 2 ^ 32 = unat h" "B mod 2 ^ 32 = unat l" using unat_lt_32 [of l] by (simp_all add: BB)
  consider "cx < 64" | "cx = 64" | "cx = 65" | "65 < cx" by linarith
  then show "words3 a b y * 2 ^ (cx - 32) = B \<or> (\<exists>g \<le> 30. same_cell (words3 a b y) B (cx - 32) g)"
  proof cases
    case 1
    define cl g where "cl = cx - 32" and "g = 32 - cl"
    have cl: "1 < cl" "cl < 32" "g \<le> 30" "g + cl = 32" "0 < g" using 1 cx by (simp_all add: cl_def g_def)
    have y: "b = drop_bit cl h" "y = shrd cl h 0 OR of_bool (l \<noteq> 0)"
      using sh 1 cx by (auto simp: sub_shifted_def u_shift_def cl_def Let_def split: if_splits)
    have p: "(2::nat) ^ 32 = 2 ^ cl * 2 ^ g" using power_add [of "2 :: nat" cl g] cl(4) by (simp add: add.commute)
    have e: "unat (shrd cl h 0) = unat h mod 2 ^ cl * 2 ^ g" unfolding g_def by (rule low_shrd [OF cl(2)])
    have "unat h div 2 ^ cl * (2 ^ cl * 2 ^ g) + unat h mod 2 ^ cl * 2 ^ g = (unat h div 2 ^ cl * 2 ^ cl + unat h mod 2 ^ cl) * 2 ^ g"
      by (simp only: algebra_simps)
    then have hi: "unat b * 2 ^ 32 + unat (shrd cl h 0) = unat h * 2 ^ g"
      unfolding y(1) e unat_drop_bit_div p by (simp only: div_mult_mod_eq)
    show ?thesis
    proof (cases "l = 0")
      case True
      have "words3 a b y * 2 ^ cl = unat h * (2 ^ cl * 2 ^ g)" unfolding S using hi True by (simp add: y)
      then show ?thesis unfolding cl_def [symmetric] BB p using True by simp
    next
      case False
      have "even (unat (shrd cl h 0))" unfolding e using cl(5) by simp
      then have "unat y = unat (shrd cl h 0) + 1" using False unfolding y(2) by (simp add: unat_or_1)
      then have S1: "words3 a b y = unat h * 2 ^ g + 1" unfolding S using hi by simp
      have "1 < (2::nat) ^ g" by (rule one_less_power) (use cl(5) in simp_all)
      from cell_parts [OF this] have "same_cell (words3 a b y) B cl g" unfolding same_cell_def S1 cl(4) Bd
        using False by (simp only: unat_eq_zero) simp
      then show ?thesis unfolding cl_def [symmetric] using cl(3) by blast
    qed
  next
    case 2
    then have y: "b = 0" "y = h OR of_bool (l \<noteq> 0)" using sh by (auto simp: sub_shifted_def u_shift_def)
    show ?thesis
    proof (cases "l = 0")
      case True
      then show ?thesis unfolding S BB using 2 by (simp add: y)
    next
      case False
      then have S1: "words3 a b y = 2 * (unat h div 2) + 1" unfolding S by (simp add: y unat_or_1)
      have "B div 2 ^ (32 + 1) = unat h div 2" unfolding div_parts Bd by simp
      moreover have "B mod 2 ^ (32 + 1) \<noteq> 0" unfolding mod_split_eq_0 Bd using False by (simp add: unat_gt_0)
      ultimately have "same_cell (words3 a b y) B 32 1" unfolding same_cell_def S1 by (simp add: add.commute [of 1])
      then show ?thesis using 2 by (intro disjI2 exI [of _ 1]) simp
    qed
  next
    case 3
    then have y: "b = 0" "y = drop_bit 1 h OR of_bool (bit h 0 \<or> l \<noteq> 0)" using sh by (auto simp: sub_shifted_def)
    have o: "bit h 0 \<longleftrightarrow> odd (unat h)" unfolding bit_0 [symmetric] by (simp add: bit_unsigned_iff)
    show ?thesis
    proof (cases "bit h 0 \<or> l \<noteq> 0")
      case False
      then have "words3 a b y = unat h div 2" unfolding S unfolding y using unat_drop_bit_div [of 1 h] by simp
      moreover have "unat h div 2 * 2 = unat h" using False o by simp
      ultimately have "words3 a b y * 2 ^ 33 = B" unfolding BB using False by simp
      then show ?thesis using 3 by simp
    next
      case True
      then have S1: "words3 a b y = 2 * (unat h div 2 div 2) + 1" unfolding S unfolding y using unat_drop_bit_div [of 1 h] by (simp add: unat_or_1)
      have "B div 2 ^ (32 + 2) = unat h div 2 div 2" unfolding div_parts Bd by (simp flip: div_mult2_eq)
      moreover have "B mod 2 ^ (33 + 1) \<noteq> 0"
        unfolding mod_split_eq_0 [of B 33 1] using mod_split_eq_0 [of B 32 1] True o unfolding Bd by (simp add: unat_eq_zero odd_iff_mod_2_eq_one)
      ultimately have "same_cell (words3 a b y) B 33 1" unfolding same_cell_def S1 by simp
      then show ?thesis using 3 by (intro disjI2 exI [of _ 1]) simp
    qed
  next
    case 4
    then have "b = 0" "y = 1" using sh by (auto simp: sub_shifted_def)
    then have S1: "words3 a b y = 1" unfolding S by simp
    have "B < 2 ^ 64" unfolding B by (rule unat_lt_64)
    also have "(2::nat) ^ 64 \<le> 2 ^ (30 + (cx - 32))" using 4 by (intro power_increasing) simp_all
    finally have "same_cell 1 B (cx - 32) 30" using B(2) by (simp add: same_cell_def)
    then show ?thesis unfolding S1 by blast
  qed
qed

section \<open>The difference\<close>

lemma sbb_unat: "sbb a b c = (x, c') \<Longrightarrow> unat x + unat b + of_bool c = unat a + of_bool c' * 2 ^ 32"
proof -
  assume "sbb a b c = (x, c')"
  then have x: "x = a - b - of_bool c" and c': "c' \<longleftrightarrow> unat a < unat b + of_bool c" by (auto simp: sbb_def)
  define n t where "n = unat b + of_bool c" and "t = unat x + n"
  have n: "n \<le> 2 ^ 32" using unat_lt_32 [of b] by (cases c) (simp_all add: n_def)
  have lt: "unat x < 2 ^ 32" "t < 2 * 2 ^ 32" using n unat_lt_32 [of x] by (simp_all add: t_def)
  have "x + (b + of_bool c) = a" unfolding x by simp
  then have a: "unat a = t mod 2 ^ 32" unfolding t_def n_def by (cases c) (auto simp: unat_word_ariths mod_simps)
  show ?thesis
  proof (cases "t < 2 ^ 32")
    case True
    then have "unat a = t" using a by simp
    then show ?thesis unfolding c' n_def [symmetric] by (simp add: t_def n_def)
  next
    case False
    then have "t mod 2 ^ 32 = t - 2 ^ 32" using lt(2) by (simp add: le_mod_geq)
    then have "unat a + 2 ^ 32 = t" using a False by simp
    moreover from this have "unat a < n" using lt(1) unfolding t_def by linarith
    ultimately show ?thesis unfolding c' n_def [symmetric] by (simp add: t_def n_def)
  qed
qed

lemma sbb3:
  assumes "sbb 0 y False = (y', c1)" "sbb l b c1 = (b', c2)" "sbb h a c2 = (a', c3)"
  shows "words3 a' b' y' + words3 a b y = unat (pair64 h l) * 2 ^ 32 + of_bool c3 * 2 ^ 96"
  using sbb_unat [OF assms(1)] sbb_unat [OF assms(2)] sbb_unat [OF assms(3)] by (simp add: words3_def unat_pair64)

lemma unat_shld: "cl < 32 \<Longrightarrow> unat (shld cl src d) = unat (pair64 d src) * 2 ^ cl div 2 ^ 32 mod 2 ^ 32"
proof -
  assume "cl < 32"
  have "unat (push_bit cl (pair64 d src)) = unat (pair64 d src) * 2 ^ cl mod 2 ^ 64"
    by (simp only: unsigned_push_bit_eq) (simp add: push_bit_eq_mult take_bit_eq_mod)
  then have "unat (shld cl src d) = unat (pair64 d src) * 2 ^ cl mod 2 ^ 64 div 2 ^ 32 mod 2 ^ 32"
    unfolding shld_def unat_ucast_64_32 unat_drop_bit_div by (simp only:)
  moreover have "n mod 2 ^ 64 div 2 ^ 32 mod 2 ^ 32 = n div 2 ^ 32 mod 2 ^ 32" for n :: nat
    using mod_mult2_eq [of n "2 ^ 32" "2 ^ 32"] by simp
  ultimately show ?thesis by (simp only:)
qed

lemma shift3:
  assumes cl: "cl < 32" and a: "(unat a + 1) * 2 ^ cl \<le> 2 ^ 32"
  shows "words3 (shld cl b a) (shld cl y b) (push_bit cl y) = words3 a b y * 2 ^ cl"
proof -
  define A B Y where "A = unat a * 2 ^ cl" and "B = unat b * 2 ^ cl" and "Y = unat y * 2 ^ cl"
  have p: "unat (pair64 c d) * 2 ^ cl = unat c * 2 ^ cl * 2 ^ 32 + unat d * 2 ^ cl" for c d
    by (simp add: unat_pair64 algebra_simps)
  have y: "unat (push_bit cl y) = Y mod 2 ^ 32"
    unfolding Y_def by (simp only: unsigned_push_bit_eq) (simp add: push_bit_eq_mult take_bit_eq_mod)
  have b: "unat (shld cl y b) = (B + Y div 2 ^ 32) mod 2 ^ 32"
    unfolding unat_shld [OF cl] p B_def Y_def by simp
  have lt: "c div 2 ^ 32 < 2 ^ cl" if "c = unat w * 2 ^ cl" for c and w :: u32
    using unat_lt_32 [of w] unfolding that by (simp add: div_less_iff_less_mult mult.commute)
  have dv: "2 ^ cl dvd B mod 2 ^ 32"
    unfolding B_def by (intro dvd_mod dvd_triv_right le_imp_power_dvd) (use cl in simp)
  have Bm: "B mod 2 ^ 32 + Y div 2 ^ 32 < 2 ^ 32"
  proof -
    obtain q where q: "B mod 2 ^ 32 = 2 ^ cl * q" using dv by (auto elim: dvdE)
    have c32: "(2::nat) ^ 32 = 2 ^ cl * 2 ^ (32 - cl)" using cl by (simp flip: power_add)
    have "2 ^ cl * q < 2 ^ cl * 2 ^ (32 - cl)" unfolding q [symmetric] c32 [symmetric] by simp
    then have "2 ^ cl * (q + 1) \<le> 2 ^ cl * 2 ^ (32 - cl)" by (intro mult_le_mono2) simp
    then have "B mod 2 ^ 32 + 2 ^ cl \<le> 2 ^ 32" unfolding c32 [symmetric] q by simp
    then show ?thesis using lt [OF Y_def] by simp
  qed
  have "(B + Y div 2 ^ 32) div 2 ^ 32 = B div 2 ^ 32" "(B + Y div 2 ^ 32) mod 2 ^ 32 = B mod 2 ^ 32 + Y div 2 ^ 32"
  proof -
    have "B + Y div 2 ^ 32 = B div 2 ^ 32 * 2 ^ 32 + (B mod 2 ^ 32 + Y div 2 ^ 32)" by simp
    then show "(B + Y div 2 ^ 32) div 2 ^ 32 = B div 2 ^ 32" "(B + Y div 2 ^ 32) mod 2 ^ 32 = B mod 2 ^ 32 + Y div 2 ^ 32"
      using cell_parts [OF Bm, of "B div 2 ^ 32"] by simp_all
  qed
  note B2 = this
  have a2: "unat (shld cl b a) = A + B div 2 ^ 32"
  proof -
    have "A + 2 ^ cl \<le> 2 ^ 32" using a by (simp add: A_def algebra_simps)
    then have "A + B div 2 ^ 32 < 2 ^ 32" using lt [OF B_def] by simp
    then show ?thesis unfolding unat_shld [OF cl] p A_def B_def by simp
  qed
  show ?thesis unfolding words3_def a2 b B2(2) y
    using div_mult_mod_eq [of B "2 ^ 32"] div_mult_mod_eq [of Y "2 ^ 32"] unfolding A_def B_def Y_def
    by (simp add: algebra_simps)
qed

section \<open>Normalisation\<close>

lemma words3_top: "bit a 31 \<longleftrightarrow> 2 ^ 95 \<le> words3 a b y" "words3 a b y < 2 ^ 96"
  using unat_lt_32 [of a] unat_lt_32 [of b] unat_lt_32 [of y] by (auto simp: words3_def bit31_ge)

lemma words3_split: "unat (pair64 a b) = words3 a b y div 2 ^ 32" "unat y = words3 a b y mod 2 ^ 32"
  unfolding words3_pair using unat_lt_32 [of y] by simp_all

lemma bsr_shift:
  assumes "a \<noteq> 0" and cl: "cl = 31 - bsr a"
  shows "cl < 32" "2 ^ 31 \<le> unat a * 2 ^ cl" "(unat a + 1) * 2 ^ cl \<le> 2 ^ 32"
proof -
  have b: "2 ^ bsr a \<le> unat a" "unat a + 1 \<le> 2 ^ Suc (bsr a)" using bsr_bounds [OF assms(1)] by simp_all
  have s: "bsr a + cl = 31" using bsr_from_le [of 31 a] by (simp add: cl bsr_def)
  show "cl < 32" using cl by simp
  have "2 ^ bsr a * 2 ^ cl \<le> unat a * 2 ^ cl" using b(1) by simp
  then show "2 ^ 31 \<le> unat a * 2 ^ cl" unfolding power_add [symmetric] s .
  have "(unat a + 1) * 2 ^ cl \<le> 2 ^ Suc (bsr a) * 2 ^ cl" using b(2) by (rule mult_le_mono1)
  also have "\<dots> = 2 ^ Suc (bsr a + cl)" by (simp add: power_add)
  finally show "(unat a + 1) * 2 ^ cl \<le> 2 ^ 32" unfolding s by simp
qed

lemma shift_1_normal:
  assumes "a \<noteq> 0" "cl = 31 - bsr a"
  shows "words3 (shld cl b a) (shld cl y b) (push_bit cl y) = words3 a b y * 2 ^ cl" "bit (shld cl b a) 31"
proof -
  note C = bsr_shift [OF assms]
  show w: "words3 (shld cl b a) (shld cl y b) (push_bit cl y) = words3 a b y * 2 ^ cl" by (rule shift3 [OF C(1, 3)])
  have "2 ^ 31 * 2 ^ 64 \<le> unat a * 2 ^ cl * 2 ^ 64" using C(2) by (rule mult_le_mono1)
  also have "\<dots> \<le> words3 a b y * 2 ^ cl" unfolding words3_def by (simp add: algebra_simps)
  finally show "bit (shld cl b a) 31" unfolding words3_top(1) [of _ "shld cl y b" "push_bit cl y"] w by simp
qed

lemma normalise3:
  assumes R: "0 < words3 a b y" and z: "a = 0 \<and> b = 0 \<longrightarrow> y = 0x80000000"
  obtains a' b' y' j where "u_sub_normalise a b y e = Some (a', b', y', e - of_nat j)"
    "words3 a' b' y' = words3 a b y * 2 ^ j" "bit a' 31" "j \<le> 64"
proof -
  consider "bit a 31" | "\<not> bit a 31" "a \<noteq> 0" | "a = 0" "b \<noteq> 0" | "a = 0" "b = 0" by auto
  then show thesis
  proof cases
    case 1
    then show thesis using that [of a b y 0] by (simp add: u_sub_normalise_def)
  next
    case 2
    define cl where "cl = 31 - bsr a"
    have "u_sub_normalise a b y e = Some (shld cl b a, shld cl y b, push_bit cl y, e - of_nat cl)"
      using 2 by (simp add: u_sub_normalise_def Let_def cl_def)
    from that [OF this shift_1_normal [OF 2(2) cl_def]] show thesis by (simp add: cl_def)
  next
    case 3
    define cl where "cl = 31 - bsr b"
    have run: "u_sub_normalise a b y e = Some (shld cl y b, shld cl 0 y, push_bit cl 0, e - of_nat (32 + cl))"
      using 3 by (simp add: u_sub_normalise_def Let_def cl_def algebra_simps)
    note N = shift_1_normal(1) [OF 3(2) cl_def, of y 0] shift_1_normal(2) [OF 3(2) cl_def, of y]
    have "words3 (shld cl y b) (shld cl 0 y) (push_bit cl 0) = words3 a b y * 2 ^ (32 + cl)"
      unfolding N(1) unfolding 3(1) words3_def power_add by simp
    from that [OF run this N(2)] show thesis by (simp add: cl_def)
  next
    case 4
    then have y: "y = 0x80000000" using z by simp
    have "u_sub_normalise a b y e = Some (y, b, a, e - of_nat 64)" using 4 y by (simp add: u_sub_normalise_def Let_def)
    moreover have "bit y 31" unfolding y by simp
    ultimately show thesis using 4 by (intro that [of y b a 64]) (simp_all add: words3_def)
  qed
qed

section \<open>Correct rounding of the difference\<close>

definition diff_ready :: "real \<Rightarrow> bool \<Rightarrow> int \<Rightarrow> u32 \<times> u32 \<times> u32 \<Rightarrow> bool" where
  "diff_ready x neg e = (\<lambda>(a, b, y).
     \<exists>W k. exact_mag W k e neg x \<and> unat (pair64 a b) = W div 2 ^ k \<and> ext_ok W k y)"

lemma diff_small:
  assumes W: "R = W * 2 ^ (32 - cx)" "cx \<le> 32" and w: "words3 a b y = R * 2 ^ j" "bit a 31"
    and x: "x = signed neg * real W * 2 powi (e - 63 - int cx)"
  shows "diff_ready x neg (e - int j) (a, b, y)"
proof -
  note S = words3_split [where a = a and b = b and y = y, unfolded w(1)]
  have "e - 63 - int cx = int (32 - cx) + (int j + (e - int j - 63 - int 32))" using W(2) by simp
  then have "x = signed neg * real (R * 2 ^ j) * 2 powi (e - int j - 63 - int 32)"
    unfolding x W(1) by (simp only: pow_add) simp
  moreover have "2 ^ 63 \<le> R * 2 ^ j div 2 ^ 32" "R * 2 ^ j div 2 ^ 32 < 2 ^ 64"
    using w(2) unat_lt_64 [of "pair64 a b"] unfolding pair64_bit63 [of a b] S(1) by blast+
  ultimately have "exact_mag (R * 2 ^ j) 32 (e - int j) neg x" unfolding exact_mag_def by blast
  then show ?thesis unfolding diff_ready_def prod.case using S(1) ext_low [OF S(2)] by blast
qed

lemma diff_large:
  assumes W: "W = A * 2 ^ (32 + h) - B" "B \<le> A * 2 ^ (32 + h)" and R: "R = A * 2 ^ 32 - S" "S \<le> A * 2 ^ 32"
    and S: "S * 2 ^ h = B \<or> (\<exists>g \<le> 30. same_cell S B h g)"
    and w: "words3 a b y = R * 2 ^ j" "bit a 31" "j \<le> 1"
    and x: "x = signed neg * real W * 2 powi (e - 63 - int (32 + h))"
  shows "diff_ready x neg (e - int j) (a, b, y)"
proof -
  define W2 where "W2 = W * 2 ^ j"
  note U = words3_split [where a = a and b = b and y = y, unfolded w(1)]
  have D: "W2 div 2 ^ (32 + h) = R * 2 ^ j div 2 ^ 32 \<and> ext_ok W2 (32 + h) y"
    using S
  proof
    assume "S * 2 ^ h = B"
    moreover have "A * 2 ^ (32 + h) = A * 2 ^ 32 * 2 ^ h" by (simp only: power_add mult.assoc)
    ultimately have "W = R * 2 ^ h" unfolding W(1) R(1) by (simp only: diff_mult_distrib)
    then have "W2 = R * 2 ^ j * 2 ^ h" unfolding W2_def by simp
    then show ?thesis using ext_scale [of "R * 2 ^ j" h 32 y] ext_low [OF U(2)] by (simp add: power_add)
  next
    assume "\<exists>g \<le> 30. same_cell S B h g"
    then obtain g where g: "g \<le> 30" "S div 2 ^ g = B div 2 ^ (g + h)" "S mod 2 ^ g \<noteq> 0" "B mod 2 ^ (g + h) \<noteq> 0"
      unfolding same_cell_def by blast
    define N where "N = A * 2 ^ (32 - g)"
    have N: "A * 2 ^ 32 = N * 2 ^ g" "A * 2 ^ (32 + h) = N * 2 ^ (g + h)"
      using g(1) unfolding N_def mult.assoc power_add [symmetric] by simp_all
    note CR = cell_minus [OF g(3) R(2) [unfolded N(1)], folded N(1), folded R(1)]
    note CW = cell_minus [OF g(4) W(2) [unfolded N(2)], folded N(2), folded W(1)]
    have sc: "Z * 2 ^ j div 2 ^ (m + j) = Z div 2 ^ m" "Z * 2 ^ j mod 2 ^ (m + j) = Z mod 2 ^ m * 2 ^ j" for Z m :: nat
      by (simp_all add: power_add mult_mod_left)
    have "R * 2 ^ j div 2 ^ (g + j) = W2 div 2 ^ (g + j + h)" "R * 2 ^ j mod 2 ^ (g + j) \<noteq> 0" "W2 mod 2 ^ (g + j + h) \<noteq> 0"
      using CR CW g(2) sc [of R g] sc [of W "g + h"] unfolding W2_def by (simp_all add: ac_simps)
    then show ?thesis using ext_cell [of "g + j" "R * 2 ^ j" W2 h y] g(1) w(3) U(2) by auto
  qed
  have "e - 63 - int (32 + h) = int j + (e - int j - 63 - int (32 + h))" by simp
  then have "x = signed neg * real W2 * 2 powi (e - int j - 63 - int (32 + h))" unfolding x W2_def by (simp only: pow_add) simp
  moreover have "2 ^ 63 \<le> W2 div 2 ^ (32 + h)" "W2 div 2 ^ (32 + h) < 2 ^ 64"
    using w(2) unat_lt_64 [of "pair64 a b"] D unfolding pair64_bit63 [of a b] U(1) by simp_all
  ultimately have "exact_mag W2 (32 + h) (e - int j) neg x" unfolding exact_mag_def by blast
  then show ?thesis unfolding diff_ready_def prod.case U(1) using D by metis
qed

text \<open>A difference below the unit of the significand is one half of it.\<close>

lemma tiny_difference:
  fixes A B R cx :: nat
  assumes "2 ^ 63 \<le> A" "B < 2 ^ 64" "cx \<le> 32" "B < A * 2 ^ cx" "R = (A * 2 ^ cx - B) * 2 ^ (32 - cx)" "R < 2 ^ 32"
  shows "R = 2 ^ 31"
proof -
  define D where "D = A * 2 ^ cx - B"
  have "(2::nat) ^ 32 = 2 ^ cx * 2 ^ (32 - cx)" using assms(3) by (simp flip: power_add)
  then have "D * 2 ^ (32 - cx) < 2 ^ cx * 2 ^ (32 - cx)" using assms(5, 6) by (simp only: D_def)
  then have D: "0 < D" "D < 2 ^ cx" "A * 2 ^ cx = D + B" using assms(4) by (simp_all add: D_def)
  have "cx = 1"
  proof (rule ccontr)
    assume "cx \<noteq> 1"
    moreover have "cx \<noteq> 0" using D(1, 2) by (cases "cx = 0") auto
    ultimately have "(2::nat) ^ 2 \<le> 2 ^ cx" by (intro power_increasing) simp_all
    then have "(A - 1) * 2 ^ 2 \<le> (A - 1) * 2 ^ cx" by (rule mult_le_mono2)
    also have "\<dots> \<le> B" using D(2, 3) by (simp add: diff_mult_distrib)
    finally show False using assms(1, 2) by simp
  qed
  then show ?thesis using D unfolding assms(5) D_def [symmetric] by simp
qed

text \<open>The machine difference: no borrow out, and what the normalised words stand for.\<close>

lemma diff_words:
  assumes n: "2 ^ 63 \<le> A" "A < 2 ^ 64" "B < 2 ^ 64" "0 < B" and B: "B = unat (pair64 h l)" and A: "A = unat (pair64 ah al)"
    and sh: "sub_shifted cx h l = (a, b, y)" and cx: "cx \<noteq> 33" and gt: "B < A * 2 ^ cx"
    and sb: "sbb 0 y False = (y', c1)" "sbb al b c1 = (b', c2)" "sbb ah a c2 = (a', c3)"
    and x: "x = signed neg * real (A * 2 ^ cx - B) * 2 powi (e - 63 - int cx)"
  obtains j a'' b'' y'' where "\<not> c3" "u_sub_normalise a' b' y' w = Some (a'', b'', y'', w - of_nat j)" "j \<le> 64"
    "diff_ready x neg (e - int j) (a'', b'', y'')"
proof -
  define S R where "S = words3 a b y" and "R = words3 a' b' y'"
  have RS: "R + S = A * 2 ^ 32 + of_bool c3 * 2 ^ 96" using sbb3 [OF sb] unfolding S_def R_def A .
  have R96: "R < 2 ^ 96" unfolding R_def by (rule words3_top)
  have A96: "A * 2 ^ 32 < 2 ^ 96" using n(2) by simp
  show thesis
  proof (cases "cx \<le> 32")
    case True
    have p: "A * 2 ^ 32 = A * 2 ^ cx * 2 ^ (32 - cx)" using True by (simp add: mult.assoc flip: power_add)
    have S: "S = B * 2 ^ (32 - cx)" unfolding S_def by (rule sub_shifted_small [OF sh True B])
    have lt: "S < A * 2 ^ 32" unfolding S p using gt by simp
    have c3: "\<not> c3" using RS R96 lt by auto
    then have "R = A * 2 ^ 32 - S" using RS by simp
    then have R: "R = (A * 2 ^ cx - B) * 2 ^ (32 - cx)" unfolding p S by (simp only: diff_mult_distrib)
    have "0 < R" using lt \<open>R = A * 2 ^ 32 - S\<close> by simp
    moreover have "y' = 0x80000000" if "a' = 0 \<and> b' = 0"
      using that tiny_difference [OF n(1, 3) True gt R] unat_lt_32 [of y'] by (simp add: R_def words3_def word_unat_eq_iff)
    ultimately obtain a'' b'' y'' j where N: "u_sub_normalise a' b' y' w = Some (a'', b'', y'', w - of_nat j)"
      "words3 a'' b'' y'' = R * 2 ^ j" "bit a'' 31" "j \<le> 64"
      unfolding R_def using normalise3 by metis
    show thesis by (rule that [OF c3 N(1, 4) diff_small [OF R True N(2, 3) x]])
  next
    case False
    then have cx33: "33 < cx" using cx by simp
    define k where "k = cx - 32"
    have k: "cx = 32 + k" using False by (simp add: k_def)
    note L = sub_shifted_large [OF sh cx33 B n(4), folded S_def k_def]
    have "2 ^ 63 * 2 ^ 32 \<le> A * 2 ^ 32" using n(1) by (rule mult_le_mono1)
    then have lt: "S + 2 ^ 94 \<le> A * 2 ^ 32" using L(1) by simp
    have c3: "\<not> c3" using RS R96 lt by auto
    then have R: "R = A * 2 ^ 32 - S" "S \<le> A * 2 ^ 32" "2 ^ 94 \<le> R" using RS lt by simp_all
    have "\<not> (a' = 0 \<and> b' = 0)" using R(3) unat_lt_32 [of y'] by (auto simp: R_def words3_def)
    then have z: "a' = 0 \<and> b' = 0 \<longrightarrow> y' = 0x80000000" by blast
    have "0 < R" using R(3) by simp
    then obtain a'' b'' y'' j where N: "u_sub_normalise a' b' y' w = Some (a'', b'', y'', w - of_nat j)"
      "words3 a'' b'' y'' = R * 2 ^ j" "bit a'' 31" "j \<le> 64"
      using z unfolding R_def by (rule normalise3)
    have "j \<le> 1"
    proof (rule ccontr)
      assume "\<not> j \<le> 1"
      then have "(2::nat) ^ 2 \<le> 2 ^ j" by (intro power_increasing) simp_all
      with R(3) have "2 ^ 94 * 2 ^ 2 \<le> R * 2 ^ j" by (rule mult_le_mono)
      then show False using words3_top(2) [of a'' b'' y''] unfolding N(2) by simp
    qed
    from diff_large [OF refl _ R(1, 2) L(2) N(2, 3) this x [unfolded k]]
    have "diff_ready x neg (e - int j) (a'', b'', y'')" using gt unfolding k by simp
    then show thesis by (rule that [OF c3 N(1, 4)])
  qed
qed

lemma FPU_u_sub_rounds:
  assumes n: "bit (sigh a) 31" "bit (sigh b) 31"
    and x: "x = signed neg * (real (unat (significand a)) * 2 powi (exp1 - 63) - real (unat (significand b)) * 2 powi (exp2 - 63))"
    and gt: "real (unat (significand b)) * 2 powi (exp2 - 63) < real (unat (significand a)) * 2 powi (exp1 - 63)"
    and e: "exp2 \<le> exp1" "exp1 - exp2 \<noteq> 33" "- 0x7f00 \<le> exp2" "exp1 < 0x7f00"
    and fin: "\<bar>reg_rounded cw x\<bar> < 2 powi 0x4000" and um: "tiny x \<Longrightarrow> cw AND CW_Underflow \<noteq> 0"
  shows "rounds_to x neg cw s (FPU_u_sub a b dest cw neg exp1 exp2 s)"
proof -
  define A B cx where "A = unat (significand a)" and "B = unat (significand b)" and "cx = nat (exp1 - exp2)"
  have sig: "significand r = pair64 (sigh r) (sigl r)" for r by (simp add: significand_def pair64_def)
  have AB: "2 ^ 63 \<le> A" "A < 2 ^ 64" "B < 2 ^ 64" "0 < B"
  proof -
    show "2 ^ 63 \<le> A" using n normal_sig by (simp add: A_def)
    have "2 ^ 63 \<le> B" using n normal_sig by (simp add: B_def)
    then show "0 < B" by simp
    show "A < 2 ^ 64" "B < 2 ^ 64" unfolding A_def B_def by (rule unat_lt_64)+
  qed
  have ec: "exp2 = exp1 - int cx" "cx \<noteq> 33" using e by (auto simp: cx_def)
  define g :: real where "g = 2 powi (exp1 - 63 - int cx)"
  have g: "2 powi (exp2 - 63) = g" "2 powi (exp1 - 63) = 2 ^ cx * g" "0 < g"
    using pow_add [of cx "exp1 - 63 - int cx"] unfolding g_def ec(1) by (simp_all add: algebra_simps)
  have "real B * g < real (A * 2 ^ cx) * g" using gt unfolding g A_def [symmetric] B_def [symmetric] by simp
  then have gtn: "B < A * 2 ^ cx" using g(3) by (simp only: mult_less_cancel_right_pos of_nat_less_iff)
  have xx: "x = signed neg * real (A * 2 ^ cx - B) * 2 powi (exp1 - 63 - int cx)"
    using gtn unfolding x g A_def [symmetric] B_def [symmetric] g_def [symmetric] by (simp add: of_nat_diff algebra_simps)
  obtain p q y where sh: "sub_shifted cx (sigh b) (sigl b) = (p, q, y)" using prod_cases3 by metis
  obtain y' c1 where s1: "sbb 0 y False = (y', c1)" by force
  obtain q' c2 where s2: "sbb (sigl a) q c1 = (q', c2)" by force
  obtain p' c3 where s3: "sbb (sigh a) p c2 = (p', c3)" by force
  obtain j a'' b'' y'' where N: "\<not> c3" "u_sub_normalise p' q' y' (word_of_int exp1) = Some (a'', b'', y'', word_of_int exp1 - of_nat j)"
    "j \<le> 64" "diff_ready x neg (exp1 - int j) (a'', b'', y'')"
    by (rule diff_words [OF AB B_def [unfolded sig] A_def [unfolded sig] sh ec(2) gtn s1 s2 s3 xx])
  have c: "unat (word_of_int (exp1 - exp2) :: u16) = cx"
    using unat_word16_diff [of cx] e by (simp add: cx_def)
  have run: "FPU_u_sub a b dest cw neg exp1 exp2 s = fpu_reg_round a'' b'' y'' (word_of_int (exp1 - int j)) cw neg s"
    using n e(1) N(1, 2) unfolding FPU_u_sub_def Let_def c sub_shifted_def [symmetric] sh by (simp add: s1 s2 s3)
  obtain W k where W: "exact_mag W k (exp1 - int j) neg x" "unat (pair64 a'' b'') = W div 2 ^ k" "ext_ok W k y''"
    using N(4) unfolding diff_ready_def by auto
  show ?thesis unfolding run by (rule reg_round_correct [OF W _ _ fin um]) (use e N(3) in simp_all)
qed

end
