(* ===== verification/Fpu_Tags.thy ===== *)
theory Fpu_Tags
  imports Fpu_Load_Store Fpu_Props I486_Spec
begin

text \<open>
  The register stack as a store of cells, the tag word as a second one, and the invariant that the tags agree with the
  data.
\<close>

section \<open>Cells\<close>

interpretation stack: cell_store st set_st
  by unfold_locales (auto simp: st_def set_st_def top_reg_def)

lemma mask_2: "(3 :: u32) = mask 2"
  by (simp add: mask_eq_exp_minus_1)

lemma bit_gettag: "bit (FPU_gettag s r) n \<longleftrightarrow> n < 2 \<and> bit (fpu_tag_word s) (2 * unat r + n)"
  unfolding FPU_gettag_def mask_2 by (auto simp: bit_and_iff bit_mask_iff bit_drop_bit_eq mult.commute)

lemma regnr_lt: "unat (r :: regnr) < 8"
  using unsigned_less [of r, where 'a = nat] by simp

lemma gettag_settag [simp]: "FPU_gettag (FPU_settag r tag s) r' = (if r' = r then tag AND 3 else FPU_gettag s r')"
proof (rule bit_word_eqI)
  fix n
  have u: "unat r = unat r' \<longleftrightarrow> r' = r" by (auto simp: word_unat_eq_iff)
  have lt: "unat r < 8" "unat r' < 8" by (rule regnr_lt)+
  have b: "bit (fpu_tag_word (FPU_settag r tag s)) m \<longleftrightarrow>
      (if 2 * unat r \<le> m \<and> m < 2 * unat r + 2 then bit tag (m - 2 * unat r) else bit (fpu_tag_word s) m)" if "m < 32" for m
    using that unfolding FPU_settag_def mask_2
    by (auto simp: bit_or_iff bit_and_iff bit_not_iff bit_push_bit_iff bit_mask_iff mult.commute)
  show "bit (FPU_gettag (FPU_settag r tag s) r') n = bit (if r' = r then tag AND 3 else FPU_gettag s r') n"
  proof (cases "n < 2")
    case True
    then have "2 * unat r' + n < 32" using lt by linarith
    moreover have "2 * unat r \<le> 2 * unat r' + n \<and> 2 * unat r' + n < 2 * unat r + 2 \<longleftrightarrow> r' = r"
      using True u by linarith
    ultimately show ?thesis using True by (simp add: bit_gettag b) (simp add: mask_2 bit_and_iff bit_mask_iff)
  next
    case False
    then show ?thesis by (simp add: bit_gettag) (simp add: mask_2 bit_and_iff bit_mask_iff)
  qed
qed

end
