(* ===== verification/Fpu_Arith_Props.thy ===== *)
theory Fpu_Arith_Props
  imports Fpu_Subtract Fpu_Tags
begin

text \<open>
  The arithmetic instructions on valid operands deliver the correctly rounded result in the destination register,
  set its tag, and touch nothing else of the stack.
\<close>

definition rounded_into :: "real \<Rightarrow> u32 \<Rightarrow> regnr \<Rightarrow> fpu \<Rightarrow> u32 \<times> fpu \<Rightarrow> bool" where
  "rounded_into x cw i s = (\<lambda>(tag, s').
     fnum_of (st s' i) = Num (reg_rounded cw x) \<and> tag = result_tag cw x \<and> FPU_gettagi s' i = tag \<and>
     (\<forall>j. j \<noteq> i \<longrightarrow> st s' j = st s j \<and> FPU_gettagi s' j = FPU_gettagi s j) \<and>
     s' = s\<lparr>st_space := st_space s', fpu_tag_word := fpu_tag_word s', partial_status := partial_status s'\<rparr> \<and>
     rounded_flags cw x s s')"

lemma result_tag_2bit: "\<not> bit (result_tag cw x) 31" "result_tag cw x AND 3 = result_tag cw x"
  by (simp_all add: result_tag_def)

lemma settag_frame [simp]:
  "st_space (FPU_settag r tag s) = st_space s" "fpu_top (FPU_settag r tag s) = fpu_top s"
  "control_word (FPU_settag r tag s) = control_word s" "fpu_m (FPU_settag r tag s) = fpu_m s"
  "partial_status (FPU_settag r tag s) = partial_status s"
  by (simp_all add: FPU_settag_def)

lemma set_st_fields [simp]:
  "fpu_tag_word (set_st i r s) = fpu_tag_word s" "fpu_top (set_st i r s) = fpu_top s"
  "control_word (set_st i r s) = control_word s" "fpu_m (set_st i r s) = fpu_m s"
  "partial_status (set_st i r s) = partial_status s"
  by (simp_all add: set_st_def)

lemma same_stack_regs: "same_stack s s' \<Longrightarrow> st s' j = st s j \<and> FPU_gettagi s' j = FPU_gettagi s j \<and> top_reg s' = top_reg s"
  unfolding same_stack_def by (erule ssubst) (simp add: st_def top_reg_def FPU_gettagi_def FPU_gettag_def)

lemma stored_cell:
  assumes "s' = FPU_settagi i tag (set_st i r t)"
  shows "st s' i = r" "FPU_gettagi s' i = tag AND 3" "j \<noteq> i \<Longrightarrow> st s' j = st t j" "j \<noteq> i \<Longrightarrow> FPU_gettagi s' j = FPU_gettagi t j"
proof -
  have st: "st s' j = st (set_st i r t) j" for j by (simp add: assms FPU_settagi_def st_def top_reg_def)
  show "st s' i = r" "j \<noteq> i \<Longrightarrow> st s' j = st t j" unfolding st by (simp_all add: stack.get_put)
  have g: "FPU_gettag (set_st i r t) k = FPU_gettag t k" for k by (simp add: FPU_gettag_def)
  show "FPU_gettagi s' i = tag AND 3" "j \<noteq> i \<Longrightarrow> FPU_gettagi s' j = FPU_gettagi t j"
    by (simp_all add: assms FPU_settagi_def FPU_gettagi_def top_reg_def g)
qed

lemma stored_frame:
  assumes "s' = FPU_settagi i tag (set_st i r t)" "same_stack s t"
  shows "s' = s\<lparr>st_space := st_space s', fpu_tag_word := fpu_tag_word s', partial_status := partial_status s'\<rparr>"
  using assms(2) by (cases s; cases t) (simp add: assms(1) FPU_settagi_def FPU_settag_def set_st_def same_stack_def)

lemma rounded_flags_status: "partial_status t = partial_status s' \<Longrightarrow> rounded_flags cw x s t = rounded_flags cw x s s'"
  by (simp add: rounded_flags_def precision_flag_def underflow_flag_def)

lemma arith_done_rounded:
  assumes "rounds_to x neg cw s res"
  shows "rounded_into x cw i s (arith_done i saved res)"
proof -
  obtain tag r t where res: "res = (tag, r, t)" by (cases res)
  have r: "fnum_of r = Num (reg_rounded cw x)" "tag = result_tag cw x" "same_stack s t" "rounded_flags cw x s t"
    using assms by (simp_all add: rounds_to_def res)
  define s' where "s' = FPU_settagi i tag (set_st i r t)"
  have run: "arith_done i saved res = (tag, s')"
    using result_tag_2bit [of cw x] by (simp add: arith_done_def res r(2) s'_def)
  note C = stored_cell [OF s'_def]
  have "rounded_flags cw x s s'" using r(4) by (subst rounded_flags_status [of _ t]) (simp_all add: s'_def FPU_settagi_def)
  then show ?thesis
    using stored_frame [OF s'_def r(3)] C r(1, 2) result_tag_2bit [of cw x] same_stack_regs [OF r(3)] unfolding run rounded_into_def by auto
qed

section \<open>Addition and subtraction\<close>

lemma reg_rounded_0: "reg_rounded cw 0 = 0" "\<not> underflow \<Longrightarrow> result_tag cw 0 = TAG_Zero"
  by (simp_all add: reg_rounded_def result_tag_def round_ref_def round_even_def)

lemma signed_CONST_Z: "fnum_of (setsign c CONST_Z) = Num 0"
  by (cases c) (simp_all add: CONST_Z_def MAKE_REG_def setsign_def setnegative_def setpositive_def fnum_of_def exponent_def
      fval_def significand_def)

lemma exact_zero_rounded: "rounded_into 0 cw i s (exact_zero cw i s)"
proof -
  define r where "r = setsign (cw AND CW_RC = RC_DOWN) CONST_Z"
  define s' where "s' = FPU_settagi i TAG_Zero (set_st i r s)"
  have run: "exact_zero cw i s = (TAG_Zero, s')"
    by (simp add: exact_zero_def s'_def r_def FPU_copy_to_regi_def FPU_settagi_def FPU_settag_def set_st_def top_reg_def)
  note C = stored_cell [OF s'_def]
  have "fnum_of r = Num 0" unfolding r_def by (rule signed_CONST_Z)
  moreover have "rounded_flags cw 0 s s'" using reg_rounded_0(1)
    by (simp add: rounded_flags_def precision_flag_def underflow_flag_def s'_def FPU_settagi_def)
  ultimately show ?thesis using C stored_frame [OF s'_def same_stack_flags(1)] reg_rounded_0(1) unfolding run rounded_into_def
    by (auto simp: result_tag_def)
qed

definition exponents_ok :: "int \<Rightarrow> bool" where
  "exponents_ok e \<longleftrightarrow> - 0x7f00 \<le> e \<and> e \<le> 0x3fff"

definition safe_result :: "u32 \<Rightarrow> real \<Rightarrow> bool" where
  "safe_result cw x \<longleftrightarrow> \<bar>reg_rounded cw x\<bar> < 2 powi 0x4000 \<and> (tiny x \<longrightarrow> cw AND CW_Underflow \<noteq> 0)"

lemma u_add_into:
  assumes n: "bit (sigh a) 31" "bit (sigh b) 31" and e: "exponents_ok ea" "exponents_ok eb"
    and x: "x = signed neg * (sig_mag a ea + sig_mag b eb)" and safe: "safe_result cw x"
  shows "rounded_into x cw i s (arith_done i saved (FPU_u_add a b dest cw neg ea eb s))"
proof (rule arith_done_rounded, rule FPU_u_add_rounds [OF n x [unfolded sig_mag_def sigval_def]])
  show "\<bar>reg_rounded cw x\<bar> < 2 powi 0x4000" "tiny x \<Longrightarrow> cw AND CW_Underflow \<noteq> 0"
    using safe unfolding safe_result_def by blast+
qed (use e in \<open>simp_all add: exponents_ok_def\<close>)

lemma u_sub_into:
  assumes n: "bit (sigh a) 31" "bit (sigh b) 31" and e: "exponents_ok ea" "exponents_ok eb" and gt: "sig_mag b eb < sig_mag a ea"
    and x: "x = signed neg * (sig_mag a ea - sig_mag b eb)" and safe: "safe_result cw x" and d: "\<bar>ea - eb\<bar> \<noteq> 33"
  shows "rounded_into x cw i s (arith_done i saved (FPU_u_sub a b dest cw neg ea eb s))"
proof -
  have "eb \<le> ea"
  proof (rule ccontr)
    assume "\<not> eb \<le> ea"
    then have "sig_mag a ea < sig_mag b eb" using sig_mag_exponent [OF n] by simp
    then show False using gt by simp
  qed
  then have r: "eb \<le> ea" "ea - eb \<noteq> 33" "- 0x7f00 \<le> eb" "ea < 0x7f00" using e d by (simp_all add: exponents_ok_def)
  have "\<bar>reg_rounded cw x\<bar> < 2 powi 0x4000" "tiny x \<Longrightarrow> cw AND CW_Underflow \<noteq> 0"
    using safe unfolding safe_result_def by blast+
  from FPU_u_sub_rounds [OF n x [unfolded sig_mag_def sigval_def] gt [unfolded sig_mag_def sigval_def] r this]
  show ?thesis by (rule arith_done_rounded)
qed

lemma diff_cases:
  assumes "bit (sigh a) 31" "bit (sigh b) 31"
  obtains "compare_diff a ea b eb > 0" "sig_mag b eb < sig_mag a ea"
    | "compare_diff a ea b eb < 0" "sig_mag a ea < sig_mag b eb"
    | "compare_diff a ea b eb = 0" "sig_mag a ea = sig_mag b eb"
  using compare_diff_correct [OF assms, of ea eb] by fastforce

lemma valid_add_rounded:
  assumes n: "bit (sigh a) 31" "bit (sigh b) 31" and e: "exponents_ok ea" "exponents_ok eb"
    and x: "x = signed sa * sig_mag a ea + signed sb * sig_mag b eb" and safe: "safe_result cw x"
    and d: "sa \<noteq> sb \<Longrightarrow> \<bar>ea - eb\<bar> \<noteq> 33"
  shows "rounded_into x cw i s (valid_add a sa ea b sb eb i cw s)"
proof (cases "sa = sb")
  case True
  then have "x = signed sa * (sig_mag a ea + sig_mag b eb)" unfolding x by (simp add: algebra_simps)
  from u_add_into [OF n e this safe] show ?thesis using True by (simp add: valid_add_def Let_def)
next
  case False
  then have sg: "signed sb = (- signed sa :: real)" by (cases sa) (simp_all add: signed_def)
  show ?thesis
  proof (rule diff_cases [OF n, of ea eb])
    assume c: "compare_diff a ea b eb > 0" "sig_mag b eb < sig_mag a ea"
    have "x = signed sa * (sig_mag a ea - sig_mag b eb)" unfolding x sg by (simp add: algebra_simps)
    from u_sub_into [OF n e c(2) this safe d [OF False]] show ?thesis using c False by (simp add: valid_add_def Let_def)
  next
    assume c: "compare_diff a ea b eb < 0" "sig_mag a ea < sig_mag b eb"
    have "x = signed sb * (sig_mag b eb - sig_mag a ea)" unfolding x sg by (simp add: algebra_simps)
    from u_sub_into [OF n(2, 1) e(2, 1) c(2) this safe] show ?thesis
      using c False d [OF False] by (simp add: valid_add_def Let_def abs_minus_commute)
  next
    assume c: "compare_diff a ea b eb = 0" "sig_mag a ea = sig_mag b eb"
    have "x = 0" unfolding x sg c by simp
    then show ?thesis using exact_zero_rounded c False by (simp add: valid_add_def Let_def)
  qed
qed

lemma valid_subtract_rounded:
  assumes n: "bit (sigh a) 31" "bit (sigh b) 31" and e: "exponents_ok ea" "exponents_ok eb"
    and x: "x = signed sa * sig_mag a ea - signed sb * sig_mag b eb" and safe: "safe_result cw x"
    and d: "sa = sb \<Longrightarrow> \<bar>ea - eb\<bar> \<noteq> 33"
  shows "rounded_into x cw i s (valid_subtract a sa ea b sb eb i cw s)"
proof (cases "sa = sb")
  case False
  then have sg: "signed sb = (- signed sa :: real)" by (cases sa) (simp_all add: signed_def)
  have "x = signed sa * (sig_mag a ea + sig_mag b eb)" unfolding x sg by (simp add: algebra_simps)
  from u_add_into [OF n e this safe] show ?thesis using False by (simp add: valid_subtract_def Let_def)
next
  case True
  have sg: "signed (\<not> sa) = (- signed sa :: real)" by (cases sa) (simp_all add: signed_def)
  show ?thesis
  proof (rule diff_cases [OF n, of ea eb])
    assume c: "compare_diff a ea b eb > 0" "sig_mag b eb < sig_mag a ea"
    have "x = signed sa * (sig_mag a ea - sig_mag b eb)" unfolding x True by (simp add: algebra_simps)
    from u_sub_into [OF n e c(2) this safe d [OF True]] show ?thesis using c True by (simp add: valid_subtract_def Let_def)
  next
    assume c: "compare_diff a ea b eb < 0" "sig_mag a ea < sig_mag b eb"
    have "x = signed (\<not> sa) * (sig_mag b eb - sig_mag a ea)" unfolding x True [symmetric] sg by (simp add: algebra_simps)
    from u_sub_into [OF n(2, 1) e(2, 1) c(2) this safe] show ?thesis
      using c True d [OF True] by (simp add: valid_subtract_def Let_def abs_minus_commute)
  next
    assume c: "compare_diff a ea b eb = 0" "sig_mag a ea = sig_mag b eb"
    have "x = 0" unfolding x True c by simp
    then show ?thesis using exact_zero_rounded c True by (simp add: valid_subtract_def Let_def)
  qed
qed

section \<open>Operands\<close>

text \<open>A register with the right tag that denotes a number other than zero: normal or denormal.\<close>

definition number_operand :: "fpu_reg \<Rightarrow> u32 \<Rightarrow> bool" where
  "number_operand r tag \<longleftrightarrow> tag = FPU_tagof r \<and> fnum_of r = Num (fval r) \<and> fval r \<noteq> 0"

text \<open>The operand as the kernels get it: normalised, with a 16-bit exponent.\<close>

definition normalised_as :: "fpu_reg \<Rightarrow> fpu_reg \<Rightarrow> int \<Rightarrow> bool" where
  "normalised_as r x e \<longleftrightarrow> bit (sigh x) 31 \<and> exponents_ok e \<and> fval r = signed (getsign r) * sig_mag x e"

lemma number_operand_finite:
  assumes "number_operand r tag"
  shows "finite_operand r (special_tag r tag)"
proof -
  have t: "tag = FPU_tagof r" and n: "fnum_of r = Num (fval r)" "fval r \<noteq> 0" using assms by (simp_all add: number_operand_def)
  show ?thesis
  proof (rule operand_cases [of "special_tag r tag" r])
    show "special_tag r tag = special_tag r (FPU_tagof r)" using t by simp
  qed (use n in auto)
qed

lemma sig_mag_binade:
  assumes "bit (sigh x) 31"
  shows "2 powi e \<le> sig_mag x e" "sig_mag x e < 2 powi (e + 1)"
proof -
  have b: "2 ^ 63 \<le> real (sigval x)" "real (sigval x) < 2 ^ 64"
    using sig_bounds [OF assms] by (simp_all flip: of_nat_le_iff of_nat_less_iff)
  define g :: real where "g = 2 powi (e - 63)"
  have p: "2 powi e = 2 ^ 63 * g" "2 powi (e + 1) = 2 ^ 64 * g" "0 < g"
    using pow_add [of 63 "e - 63"] pow_add [of 64 "e - 63"] by (simp_all add: g_def algebra_simps)
  show "2 powi e \<le> sig_mag x e" "sig_mag x e < 2 powi (e + 1)"
    unfolding p(1, 2) sig_mag_def g_def [symmetric] using b p(3) by simp_all
qed

lemma sig_mag_range:
  assumes "sigval a \<noteq> 0"
  shows "2 powi (e - 63) \<le> sig_mag a e" "sig_mag a e < 2 powi (e + 1)"
proof -
  have b: "1 \<le> real (sigval a)" using assms by simp
  have "sigval a < 2 ^ 64" unfolding sigval_def by (rule unat_lt_64)
  then have b2: "real (sigval a) < 2 ^ 64" by (simp flip: of_nat_less_iff)
  define g :: real where "g = 2 powi (e - 63)"
  have p: "2 powi (e + 1) = 2 ^ 64 * g" "0 < g" using pow_add [of 64 "e - 63"] by (simp_all add: g_def algebra_simps)
  show "2 powi (e - 63) \<le> sig_mag a e" "sig_mag a e < 2 powi (e + 1)"
    unfolding p(1) sig_mag_def g_def [symmetric] using b b2 p(2) by simp_all
qed

lemma normal_normalised:
  assumes "finite_operand r TAG_Valid"
  shows "normalised_as r r (exponent r)"
proof -
  have "exponent r \<noteq> EXP_OVER" using assms by (auto simp: finite_operand_def)
  then show ?thesis using finite_operand_normal [OF assms] exponent_range [of r]
    by (simp add: normalised_as_def exponents_ok_def fval_sig_mag)
qed

lemma exp16_normalised:
  assumes fo: "finite_operand r tag" and run: "FPU_to_exp16 r s = (sg, x, s')"
  shows "normalised_as r x (exponent16 x)" "s' = s"
proof -
  define E where "E = max (exponent r) (- 0x3ffe)"
  have x: "s' = s" "bit (sigh x) 31" "sig_mag x (exponent16 x) = sig_mag r E"
    using FPU_to_exp16_correct [OF fo run] by (simp_all add: E_def)
  have "exponent r \<noteq> EXP_OVER" using fo by (auto simp: finite_operand_def)
  then have E: "- 0x3ffe \<le> E" "E \<le> 0x3fff" using exponent_range [of r] by (simp_all add: E_def)
  have "sigval r \<noteq> 0" using finite_operand_pos [OF fo, of 0] by (auto simp: sig_mag_def)
  note R = sig_mag_range [OF this, of E] and B = sig_mag_binade [OF x(2), of "exponent16 x", unfolded x(3)]
  have "exponent16 x < E + 1" using le_less_trans [OF B(1) R(2)] unfolding pow_less .
  moreover have "E - 63 < exponent16 x + 1" using le_less_trans [OF R(1) B(2)] unfolding pow_less .
  ultimately have "exponents_ok (exponent16 x)" using E by (simp add: exponents_ok_def)
  then show "normalised_as r x (exponent16 x)" "s' = s" using x by (simp_all add: normalised_as_def fval_sig_mag E_def)
qed

text \<open>A denormal operand only raises its flag when that exception is masked.\<close>

lemma rounded_into_denormal:
  assumes "rounded_into x cw i (or_status SW_Denorm_Op s) res"
  shows "rounded_into x cw i s res"
proof -
  have "precision_flag (or_status SW_Denorm_Op s) = precision_flag s" "underflow_flag (or_status SW_Denorm_Op s) = underflow_flag s"
    by (simp_all add: precision_flag_def underflow_flag_def or_status_def bit_simps)
  moreover have "st (or_status SW_Denorm_Op s) j = st s j" "FPU_gettagi (or_status SW_Denorm_Op s) j = FPU_gettagi s j" for j
    by (simp_all add: st_def top_reg_def or_status_def FPU_gettagi_def FPU_gettag_def)
  ultimately show ?thesis using assms
    by (auto simp: rounded_into_def rounded_flags_def or_status_def split: prod.splits)
qed

lemma tag_valid_iff:
  assumes "number_operand r tag"
  shows "tag = TAG_Valid \<and> special_tag r tag = TAG_Valid \<or> tag = TAG_Special \<and> special_tag r tag = TW_Denormal"
  using number_operand_finite [OF assms] assms
  by (auto simp: number_operand_def finite_operand_def special_tag_def FPU_tagof_def Let_def FPU_Special_def split: if_splits)

text \<open>The operands and results of the examples below are exact at full precision.\<close>

lemma demo_rounding:
  assumes "\<lfloor>log 2 \<bar>x\<bar>\<rfloor> = e" "0 \<le> e" "x / 2 powi (e - 63) = of_int n"
  shows "reg_rounded 0x37f x = x"
proof -
  have u: "reg_ulp 0x37f x = e - 63" using assms by (simp add: reg_ulp_def prec_drop_def)
  have "x = of_int n * 2 powi (e - 63)" unfolding assms(3) [symmetric] by simp
  then show ?thesis unfolding reg_rounded_def u assms(3) by (simp only: round_ref_of_int)
qed

lemma demo_safe:
  assumes "reg_rounded cw x = x" "1 \<le> \<bar>x\<bar>" "\<bar>x\<bar> \<le> 4"
  shows "safe_result cw x"
proof -
  have "4 = (2 powi 2 :: real)" by simp
  also have "\<dots> < 2 powi 0x4000" by (rule power_int_strict_increasing) auto
  finally have b: "\<bar>x\<bar> < 2 powi 0x4000" using assms(3) by (rule le_less_trans [rotated])
  have "2 powi (- 0x3ffe) \<le> (2 powi 0 :: real)" by (rule power_int_increasing) auto
  then have "\<not> tiny x" unfolding tiny_def using assms(2) by (simp only: power_int_0_right not_less)
  then show ?thesis unfolding safe_result_def assms(1) using b by blast
qed

lemma demo_values:
  "number_operand (st demo_stack 0) (FPU_gettag0 demo_stack)" "number_operand reg_m1_5 TAG_Valid" "fval reg_m1_5 = - 3 / 2"
  "st demo_stack 0 = reg_2_5" "fval reg_2_5 = 5 / 2" "FPU_gettag0 demo_stack = TAG_Valid"
proof -
  show v: "st demo_stack 0 = reg_2_5" "fval reg_2_5 = 5 / 2" "FPU_gettag0 demo_stack = TAG_Valid" "fval reg_m1_5 = - 3 / 2"
    by (simp_all add: st_def demo_stack_def demo_fpu_def top_reg_def FPU_gettag0_def FPU_gettagi_def FPU_gettag_def fval_def reg_2_5_def reg_m1_5_def
        MAKE_REG_def exponent_def getsign_def significand_def)
  show "number_operand (st demo_stack 0) (FPU_gettag0 demo_stack)" "number_operand reg_m1_5 TAG_Valid"
    unfolding number_operand_def v
    by (simp_all add: v FPU_tagof_def fnum_of_def reg_2_5_def reg_m1_5_def MAKE_REG_def exponent_def getsign_def significand_def fval_def)
qed

lemma masked_denormal: "masked CW_Denormal s \<Longrightarrow> denormal_operand s = (TAG_Special, or_status SW_Denorm_Op s)"
  by (simp add: denormal_operand_def)

text \<open>The two ways the operations prepare their operands.\<close>

lemma operands_prepared:
  assumes a: "number_operand a taga" and b: "number_operand b tagb"
  obtains "taga OR tagb = 0" "normalised_as a a (exponent a)" "normalised_as b b (exponent b)"
    | x y sg sg' where "taga OR tagb \<noteq> 0" "both_denormal (special_tag a taga) (special_tag b tagb)"
        "\<And>s. FPU_to_exp16 a s = (sg s, x, s)" "\<And>s. FPU_to_exp16 b s = (sg' s, y, s)"
        "normalised_as a x (exponent16 x)" "normalised_as b y (exponent16 y)"
proof -
  have F: "finite_operand a (special_tag a taga)" "finite_operand b (special_tag b tagb)"
    using number_operand_finite a b by blast+
  consider "taga = TAG_Valid" "tagb = TAG_Valid" | "taga \<noteq> TAG_Valid \<or> tagb \<noteq> TAG_Valid" by blast
  then show thesis
  proof cases
    case 1
    then show thesis
      using that(1) F normal_normalised [of a] normal_normalised [of b] by (simp add: special_tag_def)
  next
    case 2
    have u: "fst (snd (FPU_to_exp16 r s)) = fst (snd (FPU_to_exp16 r t))" for r s t
      by (simp add: FPU_to_exp16_def Let_def split: prod.split)
    define x y where "x = fst (snd (FPU_to_exp16 a undefined))" and "y = fst (snd (FPU_to_exp16 b undefined))"
    have X: "FPU_to_exp16 a s = (fst (FPU_to_exp16 a s), x, s)" "normalised_as a x (exponent16 x)" for s
      using exp16_normalised [OF F(1), of s "fst (FPU_to_exp16 a s)" "fst (snd (FPU_to_exp16 a s))" "snd (snd (FPU_to_exp16 a s))"]
        u [of a s undefined] unfolding x_def by (auto simp: prod_eq_iff)
    have Y: "FPU_to_exp16 b s = (fst (FPU_to_exp16 b s), y, s)" "normalised_as b y (exponent16 y)" for s
      using exp16_normalised [OF F(2), of s "fst (FPU_to_exp16 b s)" "fst (snd (FPU_to_exp16 b s))" "snd (snd (FPU_to_exp16 b s))"]
        u [of b s undefined] unfolding y_def by (auto simp: prod_eq_iff)
    have "taga OR tagb \<noteq> 0" "both_denormal (special_tag a taga) (special_tag b tagb)"
      using 2 tag_valid_iff [OF a] tag_valid_iff [OF b] by (auto simp: both_denormal_def)
    then show thesis using that(2) [OF _ _ X(1) Y(1) X(2) Y(2)] by blast
  qed
qed

text \<open>Whether some operand is a denormal, so that its exception is raised.\<close>

definition denormal_masked :: "u32 \<Rightarrow> u32 \<Rightarrow> fpu \<Rightarrow> bool" where
  "denormal_masked taga tagb s \<longleftrightarrow> (taga = TAG_Special \<or> tagb = TAG_Special \<longrightarrow> masked CW_Denormal s)"

lemma demo_unmasked: "denormal_masked TAG_Valid TAG_Valid s"
  by (simp add: denormal_masked_def)

lemma denormal_masked_some:
  assumes "number_operand a taga" "number_operand b tagb" "denormal_masked taga tagb s" "taga OR tagb \<noteq> 0"
  shows "masked CW_Denormal s"
  using assms tag_valid_iff [OF assms(1)] tag_valid_iff [OF assms(2)] by (auto simp: denormal_masked_def)

section \<open>The operations\<close>





text \<open>The exponent of a number, and the one distance of exponents the difference kernel mishandles.\<close>

definition ilog :: "real \<Rightarrow> int" where
  "ilog x = \<lfloor>log 2 \<bar>x\<bar>\<rfloor>"

definition cancels_33 :: "real \<Rightarrow> real \<Rightarrow> bool" where
  "cancels_33 x y \<longleftrightarrow> x * y < 0 \<and> \<bar>ilog x - ilog y\<bar> = 33"

lemma normalised_pos:
  assumes "normalised_as r x e"
  shows "0 < sig_mag x e"
proof -
  have "0 < (2::real) powi e" by simp
  also have "\<dots> \<le> sig_mag x e" using assms sig_mag_binade [of x e] by (simp add: normalised_as_def)
  finally show ?thesis .
qed

lemma normalised_ilog:
  assumes "normalised_as r x e"
  shows "ilog (fval r) = e"
proof -
  have "\<bar>fval r\<bar> = sig_mag x e"
    using assms normalised_pos [OF assms] by (simp add: normalised_as_def abs_mult signed_def)
  then show ?thesis
    unfolding ilog_def using assms normalised_pos [OF assms] sig_mag_binade [of x e]
    by (intro floor_log2) (simp_all add: normalised_as_def)
qed

lemma normalised_sign:
  assumes "normalised_as a x ea" "normalised_as b y eb"
  shows "fval a * fval b < 0 \<longleftrightarrow> getsign a \<noteq> getsign b"
proof -
  have "0 < sig_mag x ea * sig_mag y eb" using assms [THEN normalised_pos] by simp
  then show ?thesis using assms
    by (cases "getsign a"; cases "getsign b") (simp_all add: normalised_as_def signed_def)
qed

lemma add_into:
  assumes a: "normalised_as a x ea" and b: "normalised_as b y eb"
    and safe: "safe_result cw (fval a + fval b)" and c: "\<not> cancels_33 (fval a) (fval b)"
  shows "rounded_into (fval a + fval b) cw i s (valid_add x (getsign a) ea y (getsign b) eb i cw s)"
proof (rule valid_add_rounded [OF _ _ _ _ _ safe])
  show "bit (sigh x) 31" "bit (sigh y) 31" "exponents_ok ea" "exponents_ok eb"
    "fval a + fval b = signed (getsign a) * sig_mag x ea + signed (getsign b) * sig_mag y eb"
    using a b by (simp_all add: normalised_as_def)
  show "\<bar>ea - eb\<bar> \<noteq> 33" if "getsign a \<noteq> getsign b"
    using that c normalised_sign [OF a b] normalised_ilog [OF a] normalised_ilog [OF b] by (simp add: cancels_33_def)
qed

text \<open>The number a subtraction leaves: the reversed forms exchange the operands.\<close>

definition difference :: "bool \<Rightarrow> real \<Rightarrow> real \<Rightarrow> real" where
  "difference reversed x y = (if reversed then y - x else x - y)"

lemma ilog_minus [simp]: "ilog (- x) = ilog x"
  by (simp add: ilog_def)

lemma subtract_into:
  assumes a: "normalised_as a x ea" and b: "normalised_as b y eb"
    and safe: "safe_result cw (difference reversed (fval a) (fval b))" and c: "\<not> cancels_33 (fval a) (- fval b)"
  shows "rounded_into (difference reversed (fval a) (fval b)) cw i s
     (valid_subtract x (getsign a \<noteq> reversed) ea y (getsign b \<noteq> reversed) eb i cw s)"
proof (rule valid_subtract_rounded [OF _ _ _ _ _ safe])
  show "bit (sigh x) 31" "bit (sigh y) 31" "exponents_ok ea" "exponents_ok eb"
    using a b by (simp_all add: normalised_as_def)
  show "difference reversed (fval a) (fval b) =
      signed (getsign a \<noteq> reversed) * sig_mag x ea - signed (getsign b \<noteq> reversed) * sig_mag y eb"
    using a b by (cases reversed) (simp_all add: normalised_as_def difference_def signed_def)
  have nz: "fval a * fval b \<noteq> 0"
    using a b normalised_pos [OF a] normalised_pos [OF b] by (simp add: normalised_as_def signed_def)
  show "\<bar>ea - eb\<bar> \<noteq> 33" if "(getsign a \<noteq> reversed) = (getsign b \<noteq> reversed)"
  proof -
    have "\<not> fval a * fval b < 0" using that normalised_sign [OF a b] by blast
    then have "0 < fval a * fval b" using nz by linarith
    then have "fval a * - fval b < 0" by simp
    then show ?thesis using c normalised_ilog [OF a] normalised_ilog [OF b] by (simp add: cancels_33_def)
  qed
qed

lemma add_rounded:
  assumes a: "number_operand (st s 0) (FPU_gettag0 s)" and b: "number_operand b tagb"
    and dm: "denormal_masked (FPU_gettag0 s) tagb s" and safe: "safe_result cw (fval (st s 0) + fval b)"
    and c: "\<not> cancels_33 (fval (st s 0)) (fval b)"
  shows "rounded_into (fval (st s 0) + fval b) cw i s (FPU_add b tagb i cw s)"
proof (cases rule: operands_prepared [OF a b])
  case 1
  then show ?thesis using add_into [OF 1(2, 3) safe c] by (simp add: FPU_add_def Let_def)
next
  case (2 x y sg sg')
  have d: "denormal_operand s = (TAG_Special, or_status SW_Denorm_Op s)"
    by (rule masked_denormal [OF denormal_masked_some [OF a b dm 2(1)]])
  have "FPU_add b tagb i cw s = valid_add x (getsign (st s 0)) (exponent16 x) y (getsign b) (exponent16 y) i cw
      (or_status SW_Denorm_Op s)"
    unfolding FPU_add_def Let_def using 2(1, 2) by (simp add: d 2(3, 4))
  then show ?thesis using rounded_into_denormal [OF add_into [OF 2(5, 6) safe c]] by simp
qed

text \<open>
  C30: \<^verbatim>\<open>FPU_add\<close> adds correctly: under the conditions of the multiplication the destination becomes the exact sum
  of the top of the stack and the operand, correctly rounded, with tag, flags and frame as there. The one
  case left out is an effective subtraction of numbers whose binary exponents differ by exactly 33, where the
  code shifts all but one of the lost bits out.
\<close>

theorem FPU_add_correct:
  assumes "number_operand (st s 0) (FPU_gettag0 s)" and "number_operand b tagb"
    and "denormal_masked (FPU_gettag0 s) tagb s" and "safe_result cw (fval (st s 0) + fval b)"
    and "\<not> cancels_33 (fval (st s 0)) (fval b)"
  shows "rounded_into (fval (st s 0) + fval b) cw i s (FPU_add b tagb i cw s)"
  using assms by (rule add_rounded)

theorem FPU_add_correct_witness:
  "fnum_of (st (snd (FPU_add reg_m1_5 TAG_Valid 0 0x37f demo_stack)) 0) = Num 1"
proof -
  have "reg_rounded 0x37f 1 = 1" by (rule demo_rounding [of _ 0 "2 ^ 63"]) simp_all
  moreover from this have "safe_result 0x37f 1" by (rule demo_safe) simp_all
  moreover have "ilog (5 / 2) = 1" "ilog (- 3 / 2) = 0" unfolding ilog_def by (auto intro!: floor_log2)
  then have "\<not> cancels_33 (5 / 2) (- 3 / 2)" by (simp add: cancels_33_def)
  ultimately show ?thesis
    using FPU_add_correct [of demo_stack reg_m1_5 TAG_Valid "0x37f" 0] demo_values demo_unmasked [of demo_stack]
    by (simp add: rounded_into_def split: prod.splits)
qed

lemma sub_rounded:
  assumes a: "number_operand (st s 0) (FPU_gettag0 s)" and b: "number_operand (src_reg src s) (src_tag src s)"
    and dm: "denormal_masked (FPU_gettag0 s) (src_tag src s) s"
    and safe: "safe_result cw (difference reversed (fval (st s 0)) (fval (src_reg src s)))"
    and c: "\<not> cancels_33 (fval (st s 0)) (- fval (src_reg src s))"
    and i: "i = (case src of Loaded _ _ \<Rightarrow> 0 | Stack _ \<Rightarrow> if dest_rm then rm else 0)"
  shows "rounded_into (difference reversed (fval (st s 0)) (fval (src_reg src s))) cw i s (FPU_sub reversed dest_rm src rm cw s)"
proof (cases rule: operands_prepared [OF a b])
  case 1
  then show ?thesis using subtract_into [OF 1(2, 3) safe c, of i s]
    by (cases src) (simp_all add: FPU_sub_def Let_def i)
next
  case (2 x y sg sg')
  have d: "denormal_operand s = (TAG_Special, or_status SW_Denorm_Op s)"
    by (rule masked_denormal [OF denormal_masked_some [OF a b dm 2(1)]])
  have dest: "(if \<not> (case src of Loaded _ _ \<Rightarrow> True | Stack _ \<Rightarrow> False) \<and> dest_rm then rm else 0) = i"
    by (cases src) (simp_all add: i)
  have "FPU_sub reversed dest_rm src rm cw s =
      valid_subtract x (getsign (st s 0) \<noteq> reversed) (exponent16 x) y (getsign (src_reg src s) \<noteq> reversed) (exponent16 y) i cw
      (or_status SW_Denorm_Op s)"
    unfolding FPU_sub_def Let_def dest using 2(1, 2) by (simp add: d 2(3, 4))
  then show ?thesis using rounded_into_denormal [OF subtract_into [OF 2(5, 6) safe c]] by simp
qed

text \<open>
  C31: \<^verbatim>\<open>FPU_sub\<close> subtracts correctly in its direct and reversed forms and for both destinations: under the
  conditions of the addition the destination register becomes the exact difference, correctly rounded, with tag, flags
  and frame as there.
\<close>

theorem FPU_sub_correct:
  assumes "number_operand (st s 0) (FPU_gettag0 s)" and "number_operand (src_reg src s) (src_tag src s)"
    and "denormal_masked (FPU_gettag0 s) (src_tag src s) s"
    and "safe_result cw (difference reversed (fval (st s 0)) (fval (src_reg src s)))"
    and "\<not> cancels_33 (fval (st s 0)) (- fval (src_reg src s))"
    and "i = (case src of Loaded _ _ \<Rightarrow> 0 | Stack _ \<Rightarrow> if dest_rm then rm else 0)"
  shows "rounded_into (difference reversed (fval (st s 0)) (fval (src_reg src s))) cw i s (FPU_sub reversed dest_rm src rm cw s)"
  using assms by (rule sub_rounded)

theorem FPU_sub_correct_witness:
  "fnum_of (st (snd (FPU_sub True False (Loaded reg_m1_5 TAG_Valid) 0 0x37f demo_stack)) 0) = Num (- 4)"
proof -
  have "reg_rounded 0x37f (- 4) = - 4" by (rule demo_rounding [of _ 2 "- (2 ^ 63)"]) (auto intro!: floor_log2)
  moreover from this have "safe_result 0x37f (- 4)" by (rule demo_safe) simp_all
  moreover have "difference True (5 / 2) (- 3 / 2) = - 4" by (simp add: difference_def)
  moreover have "\<not> cancels_33 (5 / 2) (3 / 2)" by (simp add: cancels_33_def)
  ultimately show ?thesis
    using FPU_sub_correct [of demo_stack "Loaded reg_m1_5 TAG_Valid" "0x37f" True 0 False 0] demo_values
      demo_unmasked [of demo_stack]
    by (simp add: rounded_into_def split: prod.splits)
qed

end
