(* ===== verification/Spec2Isabelle.thy ===== *)
theory Spec2Isabelle
  imports Traps Fpu_Float_Props Fpu_Entry Fpu_Arith_Props
begin

text \<open>
  \<^bold>\<open>gray386: the processor-compatibility layer of a Linux 3.7.10 kernel for the 80386.\<close>

  The repository builds a small distribution (kernel, busybox, musl, dropbear) that runs on a real 80386.
  User programs are compiled for later processors, so the kernel supplies what the hardware lacks: the 486
  instructions (\<^verbatim>\<open>arch/x86/kernel/i486_emu.c\<close>, the repository's own code) and the floating-point unit
  (\<^verbatim>\<open>arch/x86/math-emu\<close>). Both are entered from the trap handlers, both read and write the registers of the
  interrupted task and its memory, and both have to be invisible to the program. This development models
  that path from the trap to the last byte of user memory. All paths below are under
  \<^verbatim>\<open>src/src/linux-3.7.10\<close>.

  \<^bold>\<open>How the parts interact.\<close> An invalid opcode enters \<^verbatim>\<open>do_invalid_op\<close> (\<^verbatim>\<open>kernel/traps.c\<close>), which offers the
  instruction to \<^verbatim>\<open>parse_emu_instruction\<close>; if that refuses, the die notifier chain (\<^verbatim>\<open>kernel/notifier.c\<close>) is
  called and the task gets a signal. Traps in kernel mode consult the exception table (\<^verbatim>\<open>mm/extable.c\<close>),
  which \<^verbatim>\<open>lib/sort.c\<close> sorts at boot when the link has not. An FPU instruction enters \<^verbatim>\<open>do_device_not_available\<close>, whose call of
  \<^verbatim>\<open>math_emulate\<close> is a parameter of the trap model. The FPU emulator keeps the task's \<^verbatim>\<open>i387_soft_struct\<close>, works
  on it with the routines of \<^verbatim>\<open>math-emu\<close>, and moves operands with \<^verbatim>\<open>get_user\<close>, \<^verbatim>\<open>put_user\<close> and the block copies of
  \<^verbatim>\<open>lib/usercopy_32.c\<close>.

  \<^bold>\<open>Theories.\<close>
  \<^item> \<open>Kernel_Prelude\<close>: the word types, the byte views of words, memory as a partial map from addresses to
    bytes (an address it does not map faults), and the generic lemmas the components share.
  \<^item> \<open>I486_Emu\<close>, \<open>I486_Spec\<close>, \<open>I486_Props\<close>: the whole of \<^verbatim>\<open>i486_emu.c\<close> (\<^verbatim>\<open>parse_reg\<close>, \<^verbatim>\<open>parse_modrm_register\<close>,
    \<^verbatim>\<open>parse_emu_cmpxchg\<close>, \<^verbatim>\<open>parse_emu_xadd\<close>, \<^verbatim>\<open>parse_emu_bswap\<close>, \<^verbatim>\<open>parse_emu_instruction\<close>) over a \<open>machine\<close> of registers,
    memory and address limit; an independent semantics of the instructions; and the refinement, roll-back,
    confinement and error lemmas. A result \<open>None\<close> is a fault taken inside the kernel.
  \<^item> \<open>Lib_Sort\<close>: \<^verbatim>\<open>sort\<close> (heapsort) and \<^verbatim>\<open>bsearch\<close> with a comparison function as argument; the locale
    \<open>comparator\<close> holds what is needed of it and is interpreted on the exception table's \<^verbatim>\<open>cmp_ex\<close>.
  \<^item> \<open>Extable\<close>: self-relative table entries, \<^verbatim>\<open>sort_extable\<close>, \<^verbatim>\<open>search_extable\<close>, \<^verbatim>\<open>fixup_exception\<close>.
  \<^item> \<open>Notifier\<close>: notifier chains as a pointer heap; registration and the call loop as partial functions,
    with their return on every reachable chain proved (locale \<open>cell_store\<close>).
  \<^item> \<open>Traps\<close>: the C-level trap handlers, with signals, the die chain and the console as explicit state;
    the code they call outside the model (\<^verbatim>\<open>math_emulate\<close>, \<^verbatim>\<open>math_state_restore\<close>, the notifier callbacks) is a
    field of \<open>trap_env\<close>.
  \<^item> \<open>User_Access\<close>: the 1 and 2-byte \<^verbatim>\<open>get_user\<close>/\<^verbatim>\<open>put_user\<close> and \<^verbatim>\<open>__copy_from_user_ll\<close> with its fixups.
  \<^item> \<open>Fpu_State\<close>: the soft FPU state, the tags (\<^verbatim>\<open>fpu_tags.c\<close>), the exception responses (\<^verbatim>\<open>errors.c\<close>), and the
    instructions of \<^verbatim>\<open>fpu_aux.c\<close>, \<^verbatim>\<open>fpu_etc.c\<close> and \<^verbatim>\<open>reg_constant.c\<close>. Operations return a new state or end the
    emulation (\<^verbatim>\<open>math_abort\<close>); the eight registers are indexed by 3-bit words.
  \<^item> \<open>Fpu_Num\<close>, \<open>Fpu_Round\<close>: the assembler routines on 64-bit significands (\<^verbatim>\<open>wm_shrx.S\<close>, \<^verbatim>\<open>reg_norm.S\<close>,
    \<^verbatim>\<open>div_small.S\<close>), \<^verbatim>\<open>FPU_round_to_int\<close>, and its correctness against rounding of real numbers.
  \<^item> \<open>Fpu_Compare\<close>: \<^verbatim>\<open>reg_compare.c\<close> and the order of the numbers denoted.
  \<^item> \<open>Fpu_Load\<close>, \<open>Fpu_Mem\<close>: \<^verbatim>\<open>reg_ld_str.c\<close>, and what its accesses to user memory deliver.
  \<^item> \<open>Fpu_Props\<close>, \<open>Fpu_Int\<close>: properties of comparison, rounding and the integer transfers; the three
    integer stores share the locale \<open>int_store\<close>, interpreted for 16, 32 and 64 bits.
  \<^item> \<open>Fpu_Float\<close>, \<open>Fpu_Float_Props\<close>: the numbers of the 64-bit IEEE patterns, and the exact loads, correctly
    rounded stores and the overflow response of double precision operands.
  \<^item> \<open>Fpu_Arith\<close>: the arithmetic: the assembler kernels \<^verbatim>\<open>reg_u_add.S\<close>, \<^verbatim>\<open>reg_u_sub.S\<close>, \<^verbatim>\<open>reg_u_mul.S\<close>,
    \<^verbatim>\<open>reg_u_div.S\<close> and \<^verbatim>\<open>reg_round.S\<close> word by word with their carries, the C routines \<^verbatim>\<open>FPU_add\<close>, \<^verbatim>\<open>FPU_sub\<close>,
    \<^verbatim>\<open>FPU_mul\<close>, \<^verbatim>\<open>FPU_div\<close> with every special operand, and the instructions of \<^verbatim>\<open>fpu_arith.c\<close>.
  \<^item> \<open>Fpu_Rounding\<close>, \<open>Fpu_Rounded\<close>: the rounding routine against rounding of real numbers at 24, 53 and 64
    bits with gradual underflow, and the product and sum kernels on top of it.
  \<^item> \<open>Fpu_Subtract\<close>, \<open>Fpu_Tags\<close>, \<open>Fpu_Arith_Props\<close>: the difference kernel, the tag word as a store of cells (an
    interpretation of \<open>cell_store\<close>), and the correctness of multiplication, addition and subtraction.
  \<^item> \<open>Fpu_Load_Store\<close>: \<^verbatim>\<open>load_store.c\<close>, the memory instructions without arithmetic, environment included.
  \<^item> \<open>Fpu_Address\<close>: \<^verbatim>\<open>get_address.c\<close>, the decoding of operand addresses in all addressing modes.
  \<^item> \<open>Fpu_Entry\<close>: \<^verbatim>\<open>fpu_entry.c\<close>: prefixes, the dispatch tables, the memory arithmetic instructions and the look-ahead
    loop of \<^verbatim>\<open>math_emulate\<close>.

  \<^bold>\<open>What the theorems show.\<close> The emulated instructions do what the instruction set prescribes and a refused
  one leaves no trace; the operand forms the emulator gets wrong are characterised exactly. Kernel faults
  resume at the recorded fixup or end the kernel, and never signal the task. Notifier calls return, in
  order of priority. The FPU routines are compared with real arithmetic: rounding, comparison, integer and
  floating-point transfers, multiplication, addition and subtraction; the one exponent distance at which the
  difference kernel loses a bit is excluded by name (\<open>cancels_33\<close>).

  \<^bold>\<open>Bounds and fuel.\<close> No fuel is used: loops are structural recursion, functions with a termination
  measure, or partial functions: the return of the notifier loops is proved; the look-ahead
  loop of \<^verbatim>\<open>math_emulate\<close> runs as long as the task supplies FPU instructions, so it may not return. Integers are words of the width the code has
  (\<^verbatim>\<open>unsigned long\<close> and pointers 32 bits); exponents, which the code holds in \<^verbatim>\<open>int\<close> and never lets leave
  17 bits, are \<open>int\<close>; array indices of \<^verbatim>\<open>sort\<close> are natural numbers.

  \<^bold>\<open>Configuration.\<close> As in the repository: \<^verbatim>\<open>CONFIG_M386\<close>, \<^verbatim>\<open>CONFIG_MATH_EMULATION\<close>, no SMP, no modules, no VM86, no
  \<^verbatim>\<open>CONFIG_X86_WP_WORKS_OK\<close>; math-emu built with \<^verbatim>\<open>PARANOID\<close> and \<^verbatim>\<open>PECULIAR_486\<close>.

  \<^bold>\<open>Not modelled.\<close> The transcendental functions, \<^verbatim>\<open>fsqrt\<close> and the polynomial code of math-emu, which the decoder
  takes as parameters, and its ptrace accessors; the IDT set-up, whose effect is in hardware; write protection of user
  pages and the \<^verbatim>\<open>in_atomic()\<close> return of \<^verbatim>\<open>__copy_to_user_ll\<close>; preemption between the steps of a handler; the rest of
  the kernel (scheduler, memory management, file systems, network, drivers) and of the distribution (busybox, musl,
  dropbear), which are upstream code the compatibility layer does not depend on. Division is modelled; no rounding theorem is
  stated for it, because close to ties \<^verbatim>\<open>reg_u_div.S\<close> does not round correctly.
\<close>

end
